(* ===== verification/Go_Base.thy ===== *)
theory Go_Base
  imports Main "HOL-Library.Word" "HOL-Library.AList"
begin

text \<open>
  The fragment of Go's semantics that every component of the core uses: byte slices,
  results that are a value, an error or a panic, bounds-checked indexing and slicing,
  the big-endian integer accessors of \<^verbatim>\<open>encoding/binary\<close>, reads from a byte stream
  (\<^verbatim>\<open>io.ReadFull\<close>, \<^verbatim>\<open>io.CopyN\<close> into \<^verbatim>\<open>io.Discard\<close>) and Go maps as association lists
  with distinct keys.

  A slice expression \<open>x[a:b]\<close> of Go may reach up to the capacity of \<open>x\<close>; the model
  panics as soon as \<open>b\<close> exceeds the length, so a proof that the model does not panic
  covers every capacity.
\<close>

section \<open>Collections of facts shared by the components\<close>

named_theorems go_defs \<open>unfolding rules of the Go primitives\<close>
named_theorems np_rules \<open>facts that an operation does not panic\<close>

section \<open>Results: value, error or panic\<close>

type_synonym u8 = "8 word"
type_synonym u16 = "16 word"
type_synonym u32 = "32 word"
type_synonym bytes = "8 word list"

datatype ('e, 'a) go = Ret 'a | Err 'e | Panic

definition gbind :: "('e, 'a) go \<Rightarrow> ('a \<Rightarrow> ('e, 'b) go) \<Rightarrow> ('e, 'b) go" where
  "gbind m f = (case m of Ret x \<Rightarrow> f x | Err e \<Rightarrow> Err e | Panic \<Rightarrow> Panic)"

text \<open>
  \<^verbatim>\<open>x, err := m; if err != nil { return h(err) }; f(x)\<close>: the error is replaced before
  it is returned.
\<close>

definition gtry :: "('e, 'a) go \<Rightarrow> ('e \<Rightarrow> ('f, 'b) go) \<Rightarrow> ('a \<Rightarrow> ('f, 'b) go) \<Rightarrow> ('f, 'b) go" where
  "gtry m h f = (case m of Ret x \<Rightarrow> f x | Err e \<Rightarrow> h e | Panic \<Rightarrow> Panic)"

lemma gbind_simps [simp]:
  "gbind (Ret x) f = f x"
  "gbind (Err e) f = Err e"
  "gbind Panic f = Panic"
  by (simp_all add: gbind_def)

lemma gtry_simps [simp]:
  "gtry (Ret x) h f = f x"
  "gtry (Err e) h f = h e"
  "gtry Panic h f = Panic"
  by (simp_all add: gtry_def)

lemma gbind_eq_Ret [simp]: "gbind m f = Ret y \<longleftrightarrow> (\<exists>x. m = Ret x \<and> f x = Ret y)"
  by (cases m) simp_all

lemma gbind_eq_Panic [simp]: "gbind m f = Panic \<longleftrightarrow> m = Panic \<or> (\<exists>x. m = Ret x \<and> f x = Panic)"
  by (cases m) simp_all

lemma gbind_eq_Err [simp]: "gbind m f = Err e \<longleftrightarrow> m = Err e \<or> (\<exists>x. m = Ret x \<and> f x = Err e)"
  by (cases m) simp_all

lemma gtry_eq_Ret [simp]:
  "gtry m h f = Ret y \<longleftrightarrow> (\<exists>x. m = Ret x \<and> f x = Ret y) \<or> (\<exists>e. m = Err e \<and> h e = Ret y)"
  by (cases m) simp_all

lemma gtry_eq_Panic [simp]:
  "gtry m h f = Panic \<longleftrightarrow>
     m = Panic \<or> (\<exists>x. m = Ret x \<and> f x = Panic) \<or> (\<exists>e. m = Err e \<and> h e = Panic)"
  by (cases m) simp_all

lemma gbind_assoc: "gbind (gbind m f) g = gbind m (\<lambda>x. gbind (f x) g)"
  by (cases m) simp_all

lemma gbind_cong [fundef_cong]:
  "m = m' \<Longrightarrow> (\<And>x. m' = Ret x \<Longrightarrow> f x = f' x) \<Longrightarrow> gbind m f = gbind m' f'"
  by (cases m') simp_all

lemma gtry_cong [fundef_cong]:
  "m = m' \<Longrightarrow> (\<And>e. m' = Err e \<Longrightarrow> h e = h' e) \<Longrightarrow> (\<And>x. m' = Ret x \<Longrightarrow> f x = f' x) \<Longrightarrow>
   gtry m h f = gtry m' h' f'"
  by (cases m') simp_all

text \<open>An error is dropped, as in \<^verbatim>\<open>v, _ := m\<close> with a default value.\<close>

fun go_option :: "('e, 'a) go \<Rightarrow> 'a option" where
  "go_option (Ret x) = Some x"
| "go_option _ = None"

section \<open>Indexing and slicing\<close>

definition idx :: "'a list \<Rightarrow> nat \<Rightarrow> ('e, 'a) go" where
  "idx xs i = (if i < length xs then Ret (xs ! i) else Panic)"

definition slc :: "'a list \<Rightarrow> nat \<Rightarrow> nat \<Rightarrow> ('e, 'a list) go" where
  "slc xs a b = (if a \<le> b \<and> b \<le> length xs then Ret (take (b - a) (drop a xs)) else Panic)"

lemma idx_eq_Ret [simp]: "idx xs i = Ret x \<longleftrightarrow> i < length xs \<and> x = xs ! i"
  by (auto simp: idx_def)

lemma idx_eq_Panic [simp]: "idx xs i = Panic \<longleftrightarrow> length xs \<le> i"
  by (auto simp: idx_def)

lemma idx_not_Err [simp]: "idx xs i \<noteq> Err e"
  by (auto simp: idx_def)

lemma idx_in [simp]: "i < length xs \<Longrightarrow> idx xs i = Ret (xs ! i)"
  by (simp add: idx_def)

lemma slc_eq_Ret [simp]:
  "slc xs a b = Ret ys \<longleftrightarrow> a \<le> b \<and> b \<le> length xs \<and> ys = take (b - a) (drop a xs)"
  by (auto simp: slc_def)

lemma slc_eq_Panic [simp]: "slc xs a b = Panic \<longleftrightarrow> b < a \<or> length xs < b"
  by (auto simp: slc_def)

lemma slc_not_Err [simp]: "slc xs a b \<noteq> Err e"
  by (auto simp: slc_def)

lemma slc_in [simp]: "a \<le> b \<Longrightarrow> b \<le> length xs \<Longrightarrow> slc xs a b = Ret (take (b - a) (drop a xs))"
  by (simp add: slc_def)

section \<open>Big-endian integers\<close>

text \<open>
  \<^verbatim>\<open>binary.BigEndian.Uint16\<close> and \<^verbatim>\<open>Uint32\<close> read the first bytes of a slice and panic
  on a shorter one; the value is used as an unbounded \<^typ>\<open>nat\<close>, as after \<^verbatim>\<open>int(...)\<close>.
\<close>

definition be16 :: "u8 \<Rightarrow> u8 \<Rightarrow> nat" where
  "be16 a b = unat a * 256 + unat b"

definition be32 :: "u8 \<Rightarrow> u8 \<Rightarrow> u8 \<Rightarrow> u8 \<Rightarrow> nat" where
  "be32 a b c d = ((unat a * 256 + unat b) * 256 + unat c) * 256 + unat d"

fun Uint16 :: "bytes \<Rightarrow> ('e, nat) go" where
  "Uint16 (a # b # _) = Ret (be16 a b)"
| "Uint16 _ = Panic"

fun Uint32 :: "bytes \<Rightarrow> ('e, nat) go" where
  "Uint32 (a # b # c # d # _) = Ret (be32 a b c d)"
| "Uint32 _ = Panic"

definition u16_at :: "bytes \<Rightarrow> nat \<Rightarrow> ('e, nat) go" where
  "u16_at xs i = gbind (slc xs i (i + 2)) Uint16"

definition u32_at :: "bytes \<Rightarrow> nat \<Rightarrow> ('e, nat) go" where
  "u32_at xs i = gbind (slc xs i (i + 4)) Uint32"

text \<open>
  \<^verbatim>\<open>binary.BigEndian.AppendUint16(nil, uint16(n))\<close>: the conversion to \<^verbatim>\<open>uint16\<close> wraps
  around modulo \<open>2 ^ 16\<close>, which the conversions to bytes do here.
\<close>

definition put16 :: "nat \<Rightarrow> bytes" where
  "put16 n = [word_of_nat (n div 256), word_of_nat n]"

definition put32 :: "nat \<Rightarrow> bytes" where
  "put32 n = [word_of_nat (n div 16777216), word_of_nat (n div 65536), word_of_nat (n div 256), word_of_nat n]"

lemma unat_u8_less [simp]: "unat (x :: u8) < 256"
  using unsigned_less [of x] by simp

lemma unat_u8_le [simp]: "unat (x :: u8) \<le> 255"
  using unat_u8_less [of x] by linarith

lemma unat_word_of_nat_u8 [simp]: "unat (word_of_nat n :: u8) = n mod 256"
  by (simp add: unat_of_nat)

lemma horner_le: "x \<le> m \<Longrightarrow> x * 256 + unat (y :: u8) \<le> m * 256 + 255"
  by (intro add_mono mult_right_mono) simp_all

lemma be16_less [simp]: "be16 a b < 65536"
  unfolding be16_def using unat_u8_le [of a] unat_u8_le [of b] by linarith

lemma be32_less [simp]: "be32 a b c d < 4294967296"
  unfolding be32_def
  using horner_le [OF horner_le [OF horner_le [OF unat_u8_le [of a], of b], of c], of d] by simp

lemma be16_put16 [simp]: "be16 (word_of_nat (n div 256)) (word_of_nat n) = n mod 65536"
proof -
  have "n mod (256 * 256) = 256 * (n div 256 mod 256) + n mod 256"
    by (rule mod_mult2_eq)
  then show ?thesis by (simp add: be16_def)
qed

lemma be32_put32 [simp]:
  "be32 (word_of_nat (n div 16777216)) (word_of_nat (n div 65536)) (word_of_nat (n div 256)) (word_of_nat n)
   = n mod 4294967296"
proof -
  have a: "n mod (256 * 16777216) = 256 * (n div 256 mod 16777216) + n mod 256"
    by (rule mod_mult2_eq)
  have b: "n div 256 mod (256 * 65536) = 256 * (n div 256 div 256 mod 65536) + n div 256 mod 256"
    by (rule mod_mult2_eq)
  have c: "n div 256 div 256 mod (256 * 256)
      = 256 * (n div 256 div 256 div 256 mod 256) + n div 256 div 256 mod 256"
    by (rule mod_mult2_eq)
  from a b c show ?thesis by (simp add: be32_def div_mult2_eq [symmetric])
qed

lemma put16_len [simp]: "length (put16 n) = 2"
  by (simp add: put16_def)

lemma put32_len [simp]: "length (put32 n) = 4"
  by (simp add: put32_def)

lemma Uint16_put16 [simp]: "Uint16 (put16 n @ rest) = Ret (n mod 65536)"
  by (simp add: put16_def)

lemma Uint16_put16_nil [simp]: "Uint16 (put16 n) = Ret (n mod 65536)"
  by (simp add: put16_def)

lemma Uint32_put32 [simp]: "Uint32 (put32 n @ rest) = Ret (n mod 4294967296)"
  by (simp add: put32_def)

lemma Uint16_long: "2 \<le> length xs \<Longrightarrow> Uint16 xs = Ret (be16 (xs ! 0) (xs ! 1))"
  by (cases xs rule: Uint16.cases) simp_all

lemma Uint32_long: "4 \<le> length xs \<Longrightarrow> Uint32 xs = Ret (be32 (xs ! 0) (xs ! 1) (xs ! 2) (xs ! 3))"
  by (cases xs rule: Uint32.cases) (simp_all add: numeral_eq_Suc)

lemma u16_at_in [simp]: "i + 2 \<le> length xs \<Longrightarrow> u16_at xs i = Ret (be16 (xs ! i) (xs ! (i + 1)))"
  by (simp add: u16_at_def Uint16_long)

lemma u32_at_in [simp]:
  "i + 4 \<le> length xs \<Longrightarrow>
   u32_at xs i = Ret (be32 (xs ! i) (xs ! (i + 1)) (xs ! (i + 2)) (xs ! (i + 3)))"
  by (simp add: u32_at_def Uint32_long)

lemma u16_at_eq_Ret:
  "u16_at xs i = Ret n \<longleftrightarrow> i + 2 \<le> length xs \<and> n = be16 (xs ! i) (xs ! (i + 1))"
  by (cases "i + 2 \<le> length xs") (auto simp: u16_at_def slc_def Uint16_long)

lemma u16_at_eq_Panic: "u16_at xs i = Panic \<longleftrightarrow> length xs < i + 2"
  by (cases "i + 2 \<le> length xs") (auto simp: u16_at_def slc_def Uint16_long)

lemma u32_at_eq_Ret:
  "u32_at xs i = Ret n \<longleftrightarrow>
     i + 4 \<le> length xs \<and> n = be32 (xs ! i) (xs ! (i + 1)) (xs ! (i + 2)) (xs ! (i + 3))"
  by (cases "i + 4 \<le> length xs") (auto simp: u32_at_def slc_def Uint32_long)

lemma u32_at_eq_Panic: "u32_at xs i = Panic \<longleftrightarrow> length xs < i + 4"
  by (cases "i + 4 \<le> length xs") (auto simp: u32_at_def slc_def Uint32_long)

lemma u16_at_not_Err [simp]: "u16_at xs i \<noteq> Err e"
  by (cases "i + 2 \<le> length xs") (auto simp: u16_at_def slc_def Uint16_long)

lemma u32_at_not_Err [simp]: "u32_at xs i \<noteq> Err e"
  by (cases "i + 4 \<le> length xs") (auto simp: u32_at_def slc_def Uint32_long)

lemmas u_at_iffs = u16_at_eq_Ret u16_at_eq_Panic u32_at_eq_Ret u32_at_eq_Panic

section \<open>Bits of big-endian integers\<close>

lemma u8_bit: "bit (b :: u8) n \<Longrightarrow> n < 8"
  using bit_imp_le_length [of b n] by simp

lemma bit_hi_byte: "bit (word_of_nat (unat (f :: u16) div 256) :: u8) n \<longleftrightarrow> n < 8 \<and> bit f (n + 8)"
proof -
  have "unat f div 256 = drop_bit 8 (unat f)" by (simp add: drop_bit_eq_div)
  then show ?thesis by (auto simp: bit_simps add.commute)
qed

lemma lt8_cases: "n < 8 \<Longrightarrow> n = 0 \<or> n = 1 \<or> n = 2 \<or> n = 3 \<or> n = 4 \<or> n = 5 \<or> n = 6 \<or> n = (7 :: nat)"
  by linarith

lemma bit_lo_byte: "bit (word_of_nat (unat (f :: u16)) :: u8) n \<longleftrightarrow> n < 8 \<and> bit f n"
  by (simp add: bit_simps)

lemma bit_be16: "bit (word_of_nat (be16 a b) :: u16) n \<longleftrightarrow> (if n < 8 then bit b n else bit a (n - 8))"
proof -
  have "(and (push_bit 8 (ucast a)) (ucast b) :: u16) = 0"
    by (rule bit_word_eqI) (auto simp: bit_simps dest: u8_bit)
  then have "or (push_bit 8 (ucast a)) (ucast b) = push_bit 8 (ucast a) + (ucast b :: u16)"
    by (simp add: disjunctive_add_eq_or)
  then have "(word_of_nat (be16 a b) :: u16) = or (push_bit 8 (ucast a)) (ucast b)"
    by (simp add: be16_def push_bit_eq_mult unsigned_of_nat)
  then show ?thesis by (auto simp: bit_simps dest: u8_bit)
qed

end
