(* ===== verification/Go_Net.thy ===== *)
theory Go_Net
  imports Go_Strings
begin

unbundle bit_operations_syntax

text \<open>
  The address functions of Go's \<^verbatim>\<open>net\<close> and \<^verbatim>\<open>net/netip\<close> packages that the core calls:
  splitting and joining \<^verbatim>\<open>host:port\<close>, parsing and printing addresses, address classes and
  prefixes. An address is kept as its network-order bytes. The parsers return an option:
  the callers only test whether parsing failed, never which error it was.
\<close>

section \<open>host:port\<close>

definition JoinHostPort :: "string \<Rightarrow> string \<Rightarrow> string" where
  "JoinHostPort host port =
     (if CHR '':'' \<in> set host then ''['' @ host @ '']:'' @ port else host @ '':'' @ port)"

definition SplitHostPort :: "string \<Rightarrow> (string \<times> string) option" where
  "SplitHostPort hostport =
     (case LastIndexByte hostport (CHR '':'') of
        None \<Rightarrow> None
      | Some i \<Rightarrow>
          (if hd hostport = CHR ''['' then
             (case IndexByte hostport (CHR '']'') of
                None \<Rightarrow> None
              | Some end \<Rightarrow>
                  (if end + 1 = length hostport \<or> end + 1 \<noteq> i then None
                   else if CHR ''['' \<in> set (drop 1 hostport) \<or> CHR '']'' \<in> set (drop (end + 1) hostport)
                   then None
                   else Some (take (end - 1) (drop 1 hostport), drop (i + 1) hostport)))
           else
             (let host = take i hostport in
              if CHR '':'' \<in> set host then None
              else if CHR ''['' \<in> set hostport \<or> CHR '']'' \<in> set hostport then None
              else Some (host, drop (i + 1) hostport))))"

section \<open>Addresses\<close>

text \<open>\<^verbatim>\<open>netip.Addr\<close>: the zero value, an IPv4 address (4 bytes) or an IPv6 one (16 bytes) with a zone.\<close>

datatype addr = AddrZero | Addr4 bytes | Addr6 bytes string

definition wf_addr :: "addr \<Rightarrow> bool" where
  "wf_addr a = (case a of AddrZero \<Rightarrow> True | Addr4 b \<Rightarrow> length b = 4 | Addr6 b z \<Rightarrow> length b = 16)"

definition addr_IsValid :: "addr \<Rightarrow> bool" where
  "addr_IsValid a \<longleftrightarrow> a \<noteq> AddrZero"

definition v4_in_v6 :: "bytes \<Rightarrow> bool" where
  "v4_in_v6 b \<longleftrightarrow> length b = 16 \<and> take 12 b = replicate 10 0 @ [255, 255]"

definition Unmap :: "addr \<Rightarrow> addr" where
  "Unmap a = (case a of Addr6 b z \<Rightarrow> if v4_in_v6 b then Addr4 (drop 12 b) else a | _ \<Rightarrow> a)"

definition AsSlice :: "addr \<Rightarrow> bytes" where
  "AsSlice a = (case a of AddrZero \<Rightarrow> [] | Addr4 b \<Rightarrow> b | Addr6 b z \<Rightarrow> b)"

definition As16 :: "addr \<Rightarrow> bytes" where
  "As16 a = (case a of AddrZero \<Rightarrow> replicate 16 0 | Addr4 b \<Rightarrow> replicate 10 0 @ [255, 255] @ b | Addr6 b z \<Rightarrow> b)"

definition AddrFromSlice :: "bytes \<Rightarrow> addr option" where
  "AddrFromSlice b = (if length b = 4 then Some (Addr4 b) else if length b = 16 then Some (Addr6 b []) else None)"

definition addr_IsPrivate :: "addr \<Rightarrow> bool" where
  "addr_IsPrivate a =
     (case Unmap a of
        AddrZero \<Rightarrow> False
      | Addr4 b \<Rightarrow> b ! 0 = 10 \<or> b ! 0 = 172 \<and> b ! 1 AND 240 = 16 \<or> b ! 0 = 192 \<and> b ! 1 = 168
      | Addr6 b z \<Rightarrow> b ! 0 AND 254 = 252)"

definition addr_IsLoopback :: "addr \<Rightarrow> bool" where
  "addr_IsLoopback a =
     (case Unmap a of
        AddrZero \<Rightarrow> False
      | Addr4 b \<Rightarrow> b ! 0 = 127
      | Addr6 b z \<Rightarrow> b = replicate 15 0 @ [1])"

definition addr_IsLinkLocalUnicast :: "addr \<Rightarrow> bool" where
  "addr_IsLinkLocalUnicast a =
     (case Unmap a of
        AddrZero \<Rightarrow> False
      | Addr4 b \<Rightarrow> b ! 0 = 169 \<and> b ! 1 = 254
      | Addr6 b z \<Rightarrow> b ! 0 = 254 \<and> b ! 1 AND 192 = 128)"

subsection \<open>Parsing\<close>

definition parse_octet :: "string \<Rightarrow> u8 option" where
  "parse_octet p =
     (if p \<noteq> [] \<and> list_all is_digit p \<and> (1 < length p \<longrightarrow> hd p \<noteq> CHR ''0'') \<and> dec_val p \<le> 255
      then Some (word_of_nat (dec_val p)) else None)"

definition parse_ipv4_fields :: "string \<Rightarrow> bytes option" where
  "parse_ipv4_fields s =
     (case map parse_octet (Split s (CHR ''.'')) of
        [Some a, Some b, Some c, Some d] \<Rightarrow> Some [a, b, c, d]
      | _ \<Rightarrow> None)"

definition hex_val :: "string \<Rightarrow> nat" where
  "hex_val s = foldl (\<lambda>acc c. acc * 16 + (case hex_digit c of None \<Rightarrow> 0 | Some d \<Rightarrow> d)) 0 s"

text \<open>
  The loop of \<^verbatim>\<open>parseIPv6\<close> over the colon-separated groups: the first argument counts the
  groups that still fit, \<open>el\<close> is the position of the ellipsis, \<open>acc\<close> holds the bytes read.
\<close>

fun ip6_loop :: "nat \<Rightarrow> string \<Rightarrow> nat option \<Rightarrow> bytes \<Rightarrow> (string \<times> nat option \<times> bytes) option" where
  "ip6_loop 0 s el acc = Some (s, el, acc)"
| "ip6_loop (Suc k) s el acc =
     (let h = takeWhile (\<lambda>c. hex_digit c \<noteq> None) s; rest = drop (length h) s in
      if h = [] \<or> 4 < length h then None
      else if rest \<noteq> [] \<and> hd rest = CHR ''.'' then
        (if el = None \<and> length acc \<noteq> 12 then None
         else if 16 < length acc + 4 then None
         else (case parse_ipv4_fields s of None \<Rightarrow> None | Some f \<Rightarrow> Some ([], el, acc @ f)))
      else
        (let acc' = acc @ put16 (hex_val h) in
         case rest of
           [] \<Rightarrow> Some ([], el, acc')
         | c # t \<Rightarrow>
             (if c \<noteq> CHR '':'' \<or> t = [] then None
              else if hd t = CHR '':'' then
                (if el \<noteq> None then None
                 else if tl t = [] then Some ([], Some (length acc'), acc')
                 else ip6_loop k (tl t) (Some (length acc')) acc')
              else ip6_loop k t el acc')))"

definition ip6_finish :: "string \<times> nat option \<times> bytes \<Rightarrow> bytes option" where
  "ip6_finish r =
     (case r of (s, el, acc) \<Rightarrow>
        if s \<noteq> [] then None
        else if length acc < 16 then
          (case el of None \<Rightarrow> None | Some e \<Rightarrow> Some (take e acc @ replicate (16 - length acc) 0 @ drop e acc))
        else if el \<noteq> None then None
        else Some acc)"

definition parse_ipv6 :: "string \<Rightarrow> addr option" where
  "parse_ipv6 inp =
     (let s0 = (case IndexByte inp (CHR ''%'') of None \<Rightarrow> inp | Some i \<Rightarrow> take i inp);
          zone = (case IndexByte inp (CHR ''%'') of None \<Rightarrow> [] | Some i \<Rightarrow> drop (Suc i) inp) in
      if CHR ''%'' \<in> set inp \<and> zone = [] then None
      else if HasPrefix s0 ''::'' \<and> length s0 = 2 then Some (Addr6 (replicate 16 0) zone)
      else
        (case (if HasPrefix s0 ''::'' then ip6_loop 8 (drop 2 s0) (Some 0) [] else ip6_loop 8 s0 None []) of
           None \<Rightarrow> None
         | Some r \<Rightarrow> map_option (\<lambda>b. Addr6 b zone) (ip6_finish r)))"

fun addr_kind :: "string \<Rightarrow> char option" where
  "addr_kind [] = None"
| "addr_kind (c # s) = (if c \<in> {CHR ''.'', CHR '':'', CHR ''%''} then Some c else addr_kind s)"

definition ParseAddr :: "string \<Rightarrow> addr option" where
  "ParseAddr s =
     (case addr_kind s of
        None \<Rightarrow> None
      | Some c \<Rightarrow>
          (if c = CHR ''.'' then map_option Addr4 (parse_ipv4_fields s)
           else if c = CHR '':'' then parse_ipv6 s
           else None))"

text \<open>\<^verbatim>\<open>net.ParseIP\<close> yields the 16-byte form or nil; \<^verbatim>\<open>To4\<close> is nil on a proper IPv6 address.\<close>

definition ParseIP :: "string \<Rightarrow> bytes option" where
  "ParseIP s =
     (case ParseAddr s of
        None \<Rightarrow> None
      | Some a \<Rightarrow> (case a of Addr6 b z \<Rightarrow> if z \<noteq> [] then None else Some b | _ \<Rightarrow> Some (As16 a)))"

definition To4 :: "bytes \<Rightarrow> bytes option" where
  "To4 ip = (if length ip = 4 then Some ip else if v4_in_v6 ip then Some (drop 12 ip) else None)"

definition To16 :: "bytes \<Rightarrow> bytes" where
  "To16 ip = (if length ip = 4 then replicate 10 0 @ [255, 255] @ ip else ip)"

definition ip_IsLoopback :: "bytes \<Rightarrow> bool" where
  "ip_IsLoopback ip = (case To4 ip of Some b \<Rightarrow> b ! 0 = 127 | None \<Rightarrow> ip = replicate 15 0 @ [1])"

subsection \<open>Printing\<close>

definition ip4_string :: "bytes \<Rightarrow> string" where
  "ip4_string b = Join (map (\<lambda>x. Itoa (unat x)) b) ''.''"

fun hex_string :: "nat \<Rightarrow> string" where
  "hex_string n = (if n < 16 then [hex_char n] else hex_string (n div 16) @ [hex_char (n mod 16)])"

declare hex_string.simps [simp del]

fun groups16 :: "bytes \<Rightarrow> nat list" where
  "groups16 (a # b # bs) = be16 a b # groups16 bs"
| "groups16 _ = []"

text \<open>The first longest run of at least two zero groups, as a start and an end.\<close>

definition zero_run :: "nat list \<Rightarrow> (nat \<times> nat) option" where
  "zero_run g =
     foldl (\<lambda>best i.
        let l = length (takeWhile (\<lambda>x. x = 0) (drop i g)) in
        if 2 \<le> l \<and> (case best of None \<Rightarrow> True | Some (a, b) \<Rightarrow> b - a < l) then Some (i, i + l) else best)
      None [0..<length g]"

definition ip6_string :: "bytes \<Rightarrow> string" where
  "ip6_string b =
     (let g = groups16 b; pr = (\<lambda>xs. Join (map hex_string xs) '':'') in
      case zero_run g of
        None \<Rightarrow> pr g
      | Some (a, e) \<Rightarrow> pr (take a g) @ ''::'' @ pr (drop e g))"

text \<open>\<^verbatim>\<open>net.IP.String\<close> of a 4- or 16-byte address.\<close>

definition IP_String :: "bytes \<Rightarrow> string" where
  "IP_String ip = (case To4 ip of Some b \<Rightarrow> ip4_string b | None \<Rightarrow> ip6_string ip)"

section \<open>Bits of an address, prefixes\<close>

definition addr_bit :: "bytes \<Rightarrow> nat \<Rightarrow> bool" where
  "addr_bit b i = bit (b ! (i div 8)) (7 - i mod 8)"

definition addr_bits :: "bytes \<Rightarrow> bool list" where
  "addr_bits b = map (addr_bit b) [0..<8 * length b]"

type_synonym ip_prefix = "addr \<times> nat"

definition ParsePrefix :: "string \<Rightarrow> ip_prefix option" where
  "ParsePrefix s =
     (case LastIndexByte s (CHR ''/'') of
        None \<Rightarrow> None
      | Some i \<Rightarrow>
          (case ParseAddr (take i s) of
             None \<Rightarrow> None
           | Some ip \<Rightarrow>
               (let bitsStr = drop (i + 1) s;
                    maxBits = (case ip of Addr6 _ _ \<Rightarrow> 128 | _ \<Rightarrow> 32) in
                if (case ip of Addr6 _ z \<Rightarrow> z \<noteq> [] | _ \<Rightarrow> False) then None
                else if 1 < length bitsStr \<and> (hd bitsStr = CHR ''0'' \<or> \<not> is_digit (hd bitsStr)) then None
                else
                  (case Atoi bitsStr of
                     None \<Rightarrow> None
                   | Some n \<Rightarrow> if n < 0 \<or> int maxBits < n then None else Some (ip, nat n)))))"

definition prefix_Contains :: "ip_prefix \<Rightarrow> addr \<Rightarrow> bool" where
  "prefix_Contains p a =
     (case (p, a) of
        ((Addr4 pb, n), Addr4 ab) \<Rightarrow> take n (addr_bits pb) = take n (addr_bits ab)
      | ((Addr6 pb _, n), Addr6 ab z) \<Rightarrow> z = [] \<and> take n (addr_bits pb) = take n (addr_bits ab)
      | _ \<Rightarrow> False)"

fun mask_bytes :: "nat \<Rightarrow> bytes \<Rightarrow> bytes" where
  "mask_bytes n [] = []"
| "mask_bytes n (b # bs) =
     (if 8 \<le> n then b # mask_bytes (n - 8) bs
      else push_bit (8 - n) (drop_bit (8 - n) b) # replicate (length bs) 0)"

definition Masked :: "ip_prefix \<Rightarrow> ip_prefix" where
  "Masked p =
     (case p of
        (Addr4 b, n) \<Rightarrow> (Addr4 (mask_bytes n b), n)
      | (Addr6 b z, n) \<Rightarrow> (Addr6 (mask_bytes n b) [], n)
      | (AddrZero, n) \<Rightarrow> (AddrZero, n))"

section \<open>Laws\<close>

lemma SplitHostPort_JoinHostPort:
  assumes host: "CHR ''['' \<notin> set host" "CHR '']'' \<notin> set host"
    and port: "CHR '':'' \<notin> set port" "CHR ''['' \<notin> set port" "CHR '']'' \<notin> set port"
  shows "SplitHostPort (JoinHostPort host port) = Some (host, port)"
proof (cases "CHR '':'' \<in> set host")
  case True
  let ?j = "''['' @ host @ '']:'' @ port"
  have last: "LastIndexByte ?j (CHR '':'') = Some (length host + 2)"
    using LastIndexByte_append [of "CHR '':''" port "''['' @ host @ '']''"] port by simp
  have idx: "IndexByte ?j (CHR '']'') = Some (length host + 1)"
    using IndexByte_append [of "CHR '']''" "''['' @ host" "'':'' @ port"] host by simp
  have "JoinHostPort host port = ?j" using True by (simp add: JoinHostPort_def)
  with last idx host port show ?thesis by (simp add: SplitHostPort_def)
next
  case False
  let ?j = "host @ '':'' @ port"
  have last: "LastIndexByte ?j (CHR '':'') = Some (length host)"
    using LastIndexByte_append [of "CHR '':''" port host] port by simp
  have hd: "hd ?j \<noteq> CHR ''[''" using host by (cases host) auto
  have "JoinHostPort host port = ?j" using False by (simp add: JoinHostPort_def)
  with last hd host port False show ?thesis
    by (simp add: SplitHostPort_def Let_def)
qed

lemma SplitHostPort_JoinHostPort_Itoa:
  "CHR ''['' \<notin> set host \<Longrightarrow> CHR '']'' \<notin> set host \<Longrightarrow>
   SplitHostPort (JoinHostPort host (Itoa n)) = Some (host, Itoa n)"
  by (rule SplitHostPort_JoinHostPort) (simp_all add: Itoa_no)

lemma Itoa_single: "n < 10 \<Longrightarrow> Itoa n = [digit_char n]"
  by (simp add: Itoa.simps)

lemma hd_Itoa: "hd (Itoa n) = CHR ''0'' \<Longrightarrow> n = 0"
proof (induction n rule: Itoa.induct)
  case (1 n)
  show ?case
  proof (cases "n < 10")
    case True
    with "1.prems" have "digit_char n = CHR ''0''" by (simp add: Itoa_single)
    then have "digit_val (digit_char n) = digit_val (CHR ''0'')" by simp
    with True show ?thesis by (simp add: digit_char_val) (simp add: digit_val_def)
  next
    case False
    then have "Itoa n = Itoa (n div 10) @ [digit_char (n mod 10)]" by (subst Itoa.simps) simp
    with "1.prems" have "hd (Itoa (n div 10)) = CHR ''0''" by simp
    with "1.IH" False have "n div 10 = 0" by simp
    with False show ?thesis by simp
  qed
qed

lemma parse_octet_Itoa [simp]: "parse_octet (Itoa (unat (b :: u8))) = Some b"
proof -
  have "1 < length (Itoa (unat b)) \<Longrightarrow> hd (Itoa (unat b)) \<noteq> CHR ''0''"
    using hd_Itoa [of "unat b"] Itoa_single [of "unat b"] by auto
  with Itoa_digits [of "unat b"] show ?thesis by (simp add: parse_octet_def)
qed

lemma Itoa_no_dot: "CHR ''.'' \<notin> set (Itoa n)"
  by (simp add: Itoa_no)

lemma Split_ip4_string: "b \<noteq> [] \<Longrightarrow> Split (ip4_string b) (CHR ''.'') = map (\<lambda>x. Itoa (unat x)) b"
  unfolding ip4_string_def by (rule Split_Join) (auto simp: Itoa_no_dot)

lemma parse_ipv4_fields_ip4_string:
  "length b = 4 \<Longrightarrow> parse_ipv4_fields (ip4_string b) = Some b"
  by (auto simp: parse_ipv4_fields_def Split_ip4_string numeral_eq_Suc length_Suc_conv)

lemma addr_kind_digits:
  "list_all is_digit a \<Longrightarrow> addr_kind (a @ CHR ''.'' # s) = Some (CHR ''.'')"
  by (induction a) (auto simp: is_digit_def)

lemma ParseAddr_ip4_string:
  assumes "length b = 4"
  shows "ParseAddr (ip4_string b) = Some (Addr4 b)"
proof -
  from assms obtain x y bs where b: "b = x # y # bs" by (auto simp: numeral_eq_Suc length_Suc_conv)
  have "ip4_string b = Itoa (unat x) @ CHR ''.'' # Join (map (\<lambda>x. Itoa (unat x)) (y # bs)) ''.''"
    by (simp add: ip4_string_def b)
  then have "addr_kind (ip4_string b) = Some (CHR ''.'')"
    using addr_kind_digits Itoa_digits by metis
  with assms show ?thesis by (simp add: ParseAddr_def parse_ipv4_fields_ip4_string)
qed

lemma v4_in_v6_mapped [simp]: "length b = 4 \<Longrightarrow> v4_in_v6 (replicate 10 0 @ [255, 255] @ b)"
  by (simp add: v4_in_v6_def)

lemma ParseIP_ip4_string:
  "length b = 4 \<Longrightarrow> ParseIP (ip4_string b) = Some (replicate 10 0 @ [255, 255] @ b)"
  by (simp add: ParseIP_def ParseAddr_ip4_string As16_def)

lemma To4_mapped [simp]: "length b = 4 \<Longrightarrow> To4 (replicate 10 0 @ [255, 255] @ b) = Some b"
  unfolding To4_def using v4_in_v6_mapped [of b] by simp

lemma To4_len: "To4 ip = Some b \<Longrightarrow> length b = 4"
  by (auto simp: To4_def v4_in_v6_def split: if_splits)

lemma ip4_string_no:
  "\<not> is_digit c \<Longrightarrow> c \<noteq> CHR ''.'' \<Longrightarrow> c \<notin> set (ip4_string b)"
proof (induction b)
  case (Cons x b)
  then show ?case by (cases b) (auto simp: ip4_string_def Itoa_no)
qed (simp add: ip4_string_def)

lemma parse_ipv4_fields_len: "parse_ipv4_fields s = Some b \<Longrightarrow> length b = 4"
  by (auto simp: parse_ipv4_fields_def split: list.splits option.splits)

lemma ip6_loop_len:
  "ip6_loop k s el acc = Some (s', el', acc') \<Longrightarrow> length acc + 2 * k = 16 \<Longrightarrow>
   (case el of None \<Rightarrow> True | Some e \<Rightarrow> e \<le> length acc) \<Longrightarrow>
   length acc' \<le> 16 \<and> (case el' of None \<Rightarrow> True | Some e \<Rightarrow> e \<le> length acc')"
proof (induction k s el acc arbitrary: s' el' acc' rule: ip6_loop.induct)
  case (1 s el acc)
  then show ?case by (auto split: option.splits)
next
  case (2 k s el acc)
  show ?case
    using "2.prems" "2.IH" [OF refl refl _ _ refl]
    by (auto simp: Let_def dest!: parse_ipv4_fields_len split: if_splits list.splits option.splits)
qed

lemma ip6_finish_len:
  assumes "ip6_loop 8 s el [] = Some r" "el = None \<or> el = Some 0" "ip6_finish r = Some b"
  shows "length b = 16"
proof -
  obtain s' el' acc' where r: "r = (s', el', acc')" by (cases r)
  have "length acc' \<le> 16 \<and> (case el' of None \<Rightarrow> True | Some e \<Rightarrow> e \<le> length acc')"
    using ip6_loop_len [of 8 s el "[]" s' el' acc'] assms(1,2) r by auto
  with assms(3) r show ?thesis
    by (auto simp: ip6_finish_def split: if_splits option.splits)
qed

lemma ParseAddr_wf:
  assumes "ParseAddr s = Some a"
  shows "wf_addr a \<and> a \<noteq> AddrZero"
proof -
  from assms consider b where "a = Addr4 b" "parse_ipv4_fields s = Some b" | "parse_ipv6 s = Some a"
    by (auto simp: ParseAddr_def split: option.splits if_splits)
  then show ?thesis
  proof cases
    case 1
    then show ?thesis by (simp add: wf_addr_def parse_ipv4_fields_len)
  next
    case 2
    then show ?thesis
      by (auto simp: parse_ipv6_def Let_def wf_addr_def dest!: ip6_finish_len
            split: if_splits option.splits)
  qed
qed

lemma wf_Unmap: "wf_addr a \<Longrightarrow> wf_addr (Unmap a)"
  by (auto simp: wf_addr_def Unmap_def v4_in_v6_def split: addr.splits)

lemma Unmap_idem [simp]: "Unmap (Unmap a) = Unmap a"
  by (auto simp: Unmap_def split: addr.splits)

lemma Unmap_Zero [simp]: "Unmap AddrZero = AddrZero"
  by (simp add: Unmap_def)

lemma Unmap_valid [simp]: "Unmap a = AddrZero \<longleftrightarrow> a = AddrZero"
  by (auto simp: Unmap_def split: addr.splits)

lemma len_addr_bits [simp]: "length (addr_bits b) = 8 * length b"
  by (simp add: addr_bits_def)

lemma nth_addr_bits [simp]: "i < 8 * length b \<Longrightarrow> addr_bits b ! i = addr_bit b i"
  by (simp add: addr_bits_def)

lemma len_mask_bytes [simp]: "length (mask_bytes n b) = length b"
  by (induction n b rule: mask_bytes.induct) auto

lemma addr_bit_Cons: "addr_bit (b # bs) i = (if i < 8 then bit b (7 - i) else addr_bit bs (i - 8))"
proof (cases "i < 8")
  case False
  then have "i = (i - 8) + 8" by simp
  then have "i div 8 = Suc ((i - 8) div 8)" "i mod 8 = (i - 8) mod 8"
    by (metis div_add_self2 zero_neq_numeral Suc_eq_plus1) (metis \<open>i = i - 8 + 8\<close> mod_add_self2)
  with False show ?thesis by (simp add: addr_bit_def)
qed (simp add: addr_bit_def)

lemma addr_bit_mask_bytes:
  "i < n \<Longrightarrow> i < 8 * length b \<Longrightarrow> addr_bit (mask_bytes n b) i = addr_bit b i"
proof (induction n b arbitrary: i rule: mask_bytes.induct)
  case (2 n b bs)
  then show ?case
    by (auto simp: addr_bit_Cons bit_push_bit_iff bit_drop_bit_eq)
qed simp

lemma take_addr_bits_mask:
  "take n (addr_bits (mask_bytes n b)) = take n (addr_bits b)"
  by (rule nth_equalityI) (auto simp: addr_bit_mask_bytes)

end
