(* ===== verification/Model.thy ===== *)
theory Model
  imports Go_Net
begin

text \<open>
  The runtime configuration of \<^verbatim>\<open>hongda-core/model\<close>: one record per Go struct, fields in source
  order. Field names carry a short prefix because record selectors of one development share a
  name space. String-typed enumerations (\<^verbatim>\<open>Action\<close>, \<^verbatim>\<open>ProtocolType\<close>) stay strings, as in the
  source: any string can occur in a decoded configuration. Go maps are association lists.
\<close>

section \<open>Rules (rule.go)\<close>

abbreviation ActionRoute :: string where "ActionRoute \<equiv> ''route''"
abbreviation ActionReject :: string where "ActionReject \<equiv> ''reject''"
abbreviation ActionHijackDNS :: string where "ActionHijackDNS \<equiv> ''hijack-dns''"

record MatchExpr =
  m_Domain :: "string list"
  m_DomainSuffix :: "string list"
  m_DomainKeyword :: "string list"
  m_IPCIDR :: "string list"
  m_RuleSet :: "string list"
  m_ProcessName :: "string list"
  m_Network :: string
  m_Port :: "string list"

record Rule =
  r_Match :: MatchExpr
  r_Action :: string
  r_Target :: string
  r_NoResolve :: bool

section \<open>Nodes (node.go)\<close>

record RealityOptions =
  re_Enabled :: bool
  re_PublicKey :: string
  re_ShortID :: string

record TLSOptions =
  t_Enabled :: bool
  t_ServerName :: string
  t_Insecure :: bool
  t_UTLSFingerprint :: string
  t_Reality :: "RealityOptions option"

record TransportOptions =
  tr_Type :: string
  tr_Path :: string
  tr_Host :: string
  tr_ServiceName :: string

record DialOptions =
  d_BindInterface :: string
  d_DomainResolver :: string

record Node =
  n_ID :: string
  n_Name :: string
  n_Type :: string
  n_Server :: string
  n_Port :: nat
  n_TLS :: "TLSOptions option"
  n_Transport :: "TransportOptions option"
  n_Auth :: "(string \<times> string) list"
  n_Dial :: DialOptions
  n_UDP :: bool
  n_Tags :: "(string \<times> string) list"

section \<open>Configuration (config.go)\<close>

record LogOptions =
  l_Level :: string
  l_Timestamp :: bool

record CoreOptions =
  c_TUN :: bool
  c_IPv6 :: bool
  c_CacheDir :: string

record DNSOptions =
  dns_Mode :: string
  dns_Server :: string
  dns_TLSServer :: string
  dns_Detour :: string
  dns_Strategy :: string
  dns_FakeIP :: string

record InboundConfig =
  i_Type :: string
  i_Tag :: string
  i_Listen :: string
  i_Port :: nat
  i_TUNAddress :: "string list"
  i_TUNMTU :: int
  i_TUNAutoRoute :: bool
  i_TUNStrictRoute :: bool
  i_TUNStack :: string
  i_TUNInterface :: string
  i_TUNRouteAddr :: "string list"

record GroupConfig =
  g_ID :: string
  g_Type :: string
  g_Members :: "string list"
  g_URL :: string
  g_Interval :: int
  g_Tolerance :: int
  g_Default :: string

record ProviderConfig =
  p_ID :: string
  p_URL :: string

record RulesetConfig =
  rs_ID :: string
  rs_Type :: string
  rs_Format :: string
  rs_URL :: string
  rs_FallbackURLs :: "string list"
  rs_DownloadDetour :: string
  rs_UpdateInterval :: int
  rs_Optional :: bool

record APIConfig =
  api_Listen :: string
  api_Secret :: string

record Config =
  cfg_Log :: LogOptions
  cfg_Core :: CoreOptions
  cfg_DNS :: DNSOptions
  cfg_Inbounds :: "InboundConfig list"
  cfg_Nodes :: "Node list"
  cfg_Groups :: "GroupConfig list"
  cfg_Providers :: "ProviderConfig list"
  cfg_Rulesets :: "RulesetConfig list"
  cfg_Rules :: "Rule list"
  cfg_Final :: string
  cfg_API :: APIConfig

text \<open>Zero values, for the configurations a decoder fills in.\<close>

definition zero_MatchExpr :: MatchExpr where
  "zero_MatchExpr = \<lparr>m_Domain = [], m_DomainSuffix = [], m_DomainKeyword = [], m_IPCIDR = [],
     m_RuleSet = [], m_ProcessName = [], m_Network = [], m_Port = []\<rparr>"

definition zero_DNSOptions :: DNSOptions where
  "zero_DNSOptions = \<lparr>dns_Mode = [], dns_Server = [], dns_TLSServer = [], dns_Detour = [],
     dns_Strategy = [], dns_FakeIP = []\<rparr>"

definition zero_Config :: Config where
  "zero_Config = \<lparr>cfg_Log = \<lparr>l_Level = [], l_Timestamp = False\<rparr>,
     cfg_Core = \<lparr>c_TUN = False, c_IPv6 = False, c_CacheDir = []\<rparr>,
     cfg_DNS = zero_DNSOptions, cfg_Inbounds = [], cfg_Nodes = [], cfg_Groups = [], cfg_Providers = [],
     cfg_Rulesets = [], cfg_Rules = [], cfg_Final = [], cfg_API = \<lparr>api_Listen = [], api_Secret = []\<rparr>\<rparr>"

text \<open>The Go map operations used with string keys: the value of an absent key is the zero value.\<close>

definition auth_get :: "(string \<times> string) list \<Rightarrow> string \<Rightarrow> string" where
  "auth_get m k = (case map_of m k of None \<Rightarrow> [] | Some v \<Rightarrow> v)"

end
