(* ===== verification/DNS_Wire.thy ===== *)
theory DNS_Wire
  imports Go_Net
begin

unbundle bit_operations_syntax

text \<open>
  The DNS wire format code of \<^verbatim>\<open>hongda-core/route/dns.go\<close>: name decompression
  (\<^verbatim>\<open>readDNSName\<close>), the record walk that validates a message before it is cached or
  aged, the cache lifetime and ageing of a response, query construction, question and
  answer parsing, and the locally synthesised error responses.

  A message is a byte list, an offset a natural number, a duration an integer number of
  nanoseconds (\<^verbatim>\<open>time.Duration\<close>). Every index and slice expression of the code is a
  bounds-checked \<^const>\<open>idx\<close>, \<^const>\<open>slc\<close>, \<^const>\<open>u16_at\<close> or \<^const>\<open>u32_at\<close>, whose failure is
  \<^const>\<open>Panic\<close>; the lemmas show that no input reaches it.
\<close>

section \<open>Names\<close>

datatype dns_error =
    NameOverruns | PointerCycle | PointerOverruns | InvalidLabelType | LabelOverruns
  | NameTooLong | HopLimit | HeaderTooShort | InvalidQuestion | InvalidRecord
  | RecordExceedsPacket | NoQuestion | QueryTooShort | ResponseTooShort
  | QuestionOverruns | AnswerOverruns | RdataOverruns

text \<open>
  The loop of \<^verbatim>\<open>readDNSName\<close>; the first argument is the number of hops left of the 256
  the code allows, \<open>nxt\<close> is \<^verbatim>\<open>next\<close> with \<^const>\<open>None\<close> for \<open>-1\<close>.
\<close>

fun readDNSName_loop ::
  "nat \<Rightarrow> bytes \<Rightarrow> nat \<Rightarrow> nat option \<Rightarrow> nat \<Rightarrow> nat list \<Rightarrow> string list \<Rightarrow> (dns_error, string \<times> nat) go" where
  "readDNSName_loop 0 data pos nxt tot visited labels = Err HopLimit"
| "readDNSName_loop (Suc hops) data pos nxt tot visited labels =
     (if length data \<le> pos then Err NameOverruns
      else if pos \<in> set visited then Err PointerCycle
      else gbind (idx data pos) (\<lambda>b.
        if b AND 0xC0 = 0xC0 then
          (if length data \<le> pos + 1 then Err PointerOverruns
           else gbind (idx data (pos + 1)) (\<lambda>lo.
             readDNSName_loop hops data (be16 (b AND 0x3F) lo)
               (case nxt of None \<Rightarrow> Some (pos + 2) | Some n \<Rightarrow> Some n) tot (pos # visited) labels))
        else if b AND 0xC0 \<noteq> 0 then Err InvalidLabelType
        else if b = 0 then Ret (Join labels ''.'', case nxt of None \<Rightarrow> pos + 1 | Some n \<Rightarrow> n)
        else if length data < pos + 1 + unat b then Err LabelOverruns
        else if 255 < tot + unat b + 1 then Err NameTooLong
        else gbind (slc data (pos + 1) (pos + 1 + unat b)) (\<lambda>l.
          readDNSName_loop hops data (pos + 1 + unat b) nxt (tot + unat b + 1) (pos # visited)
            (labels @ [string_of_bytes l]))))"

definition readDNSName :: "bytes \<Rightarrow> nat \<Rightarrow> (dns_error, string \<times> nat) go" where
  "readDNSName data offset = readDNSName_loop 256 data offset None 1 [] []"

section \<open>Records\<close>

record dnsWireRecord =
  rtyp :: nat
  ttlOffset :: nat
  dataOffset :: nat
  endOffset :: nat

fun walk_questions :: "nat \<Rightarrow> bytes \<Rightarrow> nat \<Rightarrow> (dns_error, nat) go" where
  "walk_questions 0 data offset = Ret offset"
| "walk_questions (Suc i) data offset =
     gtry (readDNSName data offset) (\<lambda>_. Err InvalidQuestion) (\<lambda>(_, nxt).
       if length data < nxt + 4 then Err InvalidQuestion
       else walk_questions i data (nxt + 4))"

fun walk_records :: "nat \<Rightarrow> bytes \<Rightarrow> nat \<Rightarrow> (dns_error, dnsWireRecord list) go" where
  "walk_records 0 data offset = Ret []"
| "walk_records (Suc i) data offset =
     gtry (readDNSName data offset) (\<lambda>_. Err InvalidRecord) (\<lambda>(_, nxt).
       if length data < nxt + 10 then Err InvalidRecord
       else gbind (u16_at data (nxt + 8)) (\<lambda>rdlen.
         if length data < nxt + 10 + rdlen then Err RecordExceedsPacket
         else gbind (u16_at data nxt) (\<lambda>t.
           gbind (walk_records i data (nxt + 10 + rdlen)) (\<lambda>rs.
             Ret (\<lparr>rtyp = t, ttlOffset = nxt + 4, dataOffset = nxt + 10, endOffset = nxt + 10 + rdlen\<rparr> # rs)))))"

definition walkDNSRecords :: "bytes \<Rightarrow> (dns_error, dnsWireRecord list) go" where
  "walkDNSRecords data =
     (if length data < 12 then Err HeaderTooShort
      else gbind (u16_at data 4) (\<lambda>qd.
        gbind (walk_questions qd data 12) (\<lambda>offset.
          gbind (u16_at data 6) (\<lambda>an. gbind (u16_at data 8) (\<lambda>ns. gbind (u16_at data 10) (\<lambda>ar.
            walk_records (an + ns + ar) data offset))))))"

section \<open>Cache lifetime and ageing of responses\<close>

abbreviation second :: int where "second \<equiv> 1000000000"
abbreviation minute :: int where "minute \<equiv> 60 * second"

definition dnsResponseCacheable :: "bytes \<Rightarrow> (dns_error, bool) go" where
  "dnsResponseCacheable response =
     (if length response < 12 then Ret False
      else gbind (idx response 2) (\<lambda>b2.
        if b2 AND 0x80 = 0 \<or> b2 AND 0x02 \<noteq> 0 then Ret False
        else gbind (idx response 3) (\<lambda>b3.
          let rcode = b3 AND 0x0F in Ret (rcode = 0 \<or> rcode = 3))))"

text \<open>
  The loop over the records; \<open>Err ()\<close> is the early \<^verbatim>\<open>return 0\<close> of a negative answer whose
  SOA record is malformed.
\<close>

fun cache_ttl_loop :: "bytes \<Rightarrow> bool \<Rightarrow> dnsWireRecord list \<Rightarrow> int \<Rightarrow> bool \<Rightarrow> (unit, int \<times> bool) go" where
  "cache_ttl_loop response negative [] minimum found = Ret (minimum, found)"
| "cache_ttl_loop response negative (r # rs) minimum found =
     (if rtyp r = 41 then cache_ttl_loop response negative rs minimum found
      else gbind (u32_at response (ttlOffset r)) (\<lambda>secs.
        let ttl = int secs * second in
        if negative then
          (if rtyp r \<noteq> 6 then cache_ttl_loop response negative rs minimum found
           else gtry (readDNSName response (dataOffset r)) (\<lambda>_. Err ()) (\<lambda>(_, nxt).
             gtry (readDNSName response nxt) (\<lambda>_. Err ()) (\<lambda>(_, nxt').
               if nxt' + 20 \<noteq> endOffset r then Err ()
               else gbind (u32_at response (nxt' + 16)) (\<lambda>soa.
                 let soaMinimum = int soa * second;
                     ttl' = (if soaMinimum < ttl then soaMinimum else ttl) in
                 cache_ttl_loop response negative rs (if ttl' < minimum then ttl' else minimum) True))))
        else cache_ttl_loop response negative rs (if ttl < minimum then ttl else minimum) True))"

definition dnsResponseCacheTTL :: "bytes \<Rightarrow> (dns_error, int) go" where
  "dnsResponseCacheTTL response =
     gbind (dnsResponseCacheable response) (\<lambda>cacheable.
       if \<not> cacheable then Ret 0
       else gtry (walkDNSRecords response) (\<lambda>_. Ret 0) (\<lambda>records.
         gbind (u16_at response 6) (\<lambda>an. gbind (idx response 3) (\<lambda>b3.
           let negative = (an = 0 \<or> b3 AND 0x0F = 3) in
           gtry (cache_ttl_loop response negative records (10 * minute) False) (\<lambda>_. Ret 0)
             (\<lambda>(minimum, found). Ret (if found then minimum else 0))))))"

text \<open>
  A nil slice and an empty one are the same list. \<^verbatim>\<open>copy\<close>-like writes into a slice are
  list updates.
\<close>

definition dnsResponseForQuery :: "bytes \<Rightarrow> bytes \<Rightarrow> bytes" where
  "dnsResponseForQuery response query =
     (if length response = 0 then []
      else if 2 \<le> length response then
        (if 2 \<le> length query then response[0 := query ! 0, 1 := query ! 1]
         else response[0 := 0, 1 := 0])
      else response)"

definition PutUint32_at :: "bytes \<Rightarrow> nat \<Rightarrow> nat \<Rightarrow> (dns_error, bytes) go" where
  "PutUint32_at xs i n =
     (if i + 4 \<le> length xs then Ret (take i xs @ put32 n @ drop (i + 4) xs) else Panic)"

definition PutUint16_at :: "bytes \<Rightarrow> nat \<Rightarrow> nat \<Rightarrow> (dns_error, bytes) go" where
  "PutUint16_at xs i n =
     (if i + 2 \<le> length xs then Ret (take i xs @ put16 n @ drop (i + 2) xs) else Panic)"

fun age_loop :: "nat \<Rightarrow> dnsWireRecord list \<Rightarrow> bytes \<Rightarrow> (dns_error, bytes) go" where
  "age_loop seconds [] cloned = Ret cloned"
| "age_loop seconds (r # rs) cloned =
     (if rtyp r = 41 then age_loop seconds rs cloned
      else gbind (u32_at cloned (ttlOffset r)) (\<lambda>ttl.
        gbind (PutUint32_at cloned (ttlOffset r) (if ttl \<le> seconds then 0 else ttl - seconds)) (\<lambda>cloned'.
          age_loop seconds rs cloned')))"

text \<open>\<^verbatim>\<open>elapsed/time.Second\<close> truncates towards zero; the maximum with 0 makes it the floor.\<close>

definition elapsed_seconds :: "int \<Rightarrow> nat" where
  "elapsed_seconds elapsed = nat (max (if elapsed < 0 then - ((- elapsed) div second) else elapsed div second) 0)"

definition ageDNSResponse :: "bytes \<Rightarrow> bytes \<Rightarrow> int \<Rightarrow> (dns_error, bytes) go" where
  "ageDNSResponse response query elapsed =
     (let cloned = dnsResponseForQuery response query in
      gtry (walkDNSRecords cloned) (\<lambda>_. Ret []) (\<lambda>records.
        age_loop (elapsed_seconds elapsed) records cloned))"

section \<open>Queries\<close>

text \<open>\<^verbatim>\<open>byte(len(label))\<close> cannot wrap around because a label is cut to 63 bytes first.\<close>

fun append_labels :: "string list \<Rightarrow> bytes \<Rightarrow> bytes" where
  "append_labels [] packet = packet"
| "append_labels (label # ls) packet =
     (if length label = 0 then append_labels ls packet
      else let label' = (if 63 < length label then take 63 label else label) in
        append_labels ls (packet @ [word_of_nat (length label')] @ bytes_of_string label'))"

definition buildDNSQuery :: "string \<Rightarrow> nat \<Rightarrow> bytes" where
  "buildDNSQuery host qtype =
     (let packet = put16 0x1234 @ put16 0x0100 @ put16 1 @ put16 0 @ put16 0 @ put16 0;
          host = TrimSuffix host ''.'' in
      append_labels (Split host (CHR ''.'')) packet @ [0] @ put16 qtype @ put16 1)"

definition dnsQuestion :: "bytes \<Rightarrow> (dns_error, string \<times> nat) go" where
  "dnsQuestion query =
     (if length query < 12 then Err NoQuestion
      else gbind (u16_at query 4) (\<lambda>qd.
        if qd = 0 then Err NoQuestion
        else gtry (readDNSName query 12) (\<lambda>_. Err InvalidQuestion) (\<lambda>(name, offset).
          if length query < offset + 4 then Err InvalidQuestion
          else gbind (u16_at query offset) (\<lambda>t. Ret (name, t)))))"

definition dnsQuestionType :: "bytes \<Rightarrow> (dns_error, nat) go" where
  "dnsQuestionType query = gbind (dnsQuestion query) (\<lambda>(_, queryType). Ret queryType)"

definition suppressDNSQuery :: "string \<Rightarrow> bytes \<Rightarrow> (dns_error, bool) go" where
  "suppressDNSQuery strategy query =
     gtry (dnsQuestionType query) (\<lambda>_. Ret False) (\<lambda>queryType.
       Ret (strategy = ''ipv4_only'' \<and> queryType = 28 \<or> strategy = ''ipv6_only'' \<and> queryType = 1))"

definition dnsMessageKey :: "bytes \<Rightarrow> bytes" where
  "dnsMessageKey query = (if length query < 12 then [] else query[0 := 0, 1 := 0])"

section \<open>Responses\<close>

definition dnsErrorResponse :: "bytes \<Rightarrow> u16 \<Rightarrow> (dns_error, bytes) go" where
  "dnsErrorResponse query rcode =
     (if length query < 12 then Err QueryTooShort
      else gbind (u16_at query 2) (\<lambda>flags.
        let requestFlags = (word_of_nat flags :: u16);
            responseFlags = 0x8080 OR (requestFlags AND 0x0110) OR (rcode AND 0x000F) in
        gbind (PutUint16_at query 2 (unat responseFlags)) (\<lambda>r1.
        gbind (PutUint16_at r1 6 0) (\<lambda>r2.
        PutUint16_at r2 8 0))))"

definition emptyDNSResponse :: "bytes \<Rightarrow> (dns_error, bytes) go" where
  "emptyDNSResponse query = dnsErrorResponse query 0"

fun skip_questions :: "nat \<Rightarrow> bytes \<Rightarrow> nat \<Rightarrow> (dns_error, nat) go" where
  "skip_questions 0 data offset = Ret offset"
| "skip_questions (Suc i) data offset =
     gbind (readDNSName data offset) (\<lambda>(_, nxt).
       if length data < nxt + 4 then Err QuestionOverruns
       else skip_questions i data (nxt + 4))"

text \<open>A \<^verbatim>\<open>net.IP\<close> is its byte slice.\<close>

fun answers_loop :: "nat \<Rightarrow> bytes \<Rightarrow> nat \<Rightarrow> nat \<Rightarrow> (dns_error, bytes list) go" where
  "answers_loop 0 data qtype offset = Ret []"
| "answers_loop (Suc i) data qtype offset =
     gbind (readDNSName data offset) (\<lambda>(_, nxt).
       if length data < nxt + 10 then Err AnswerOverruns
       else gbind (u16_at data nxt) (\<lambda>t. gbind (u16_at data (nxt + 8)) (\<lambda>rdlen.
         let rdata = nxt + 10 in
         if length data < rdata + rdlen then Err RdataOverruns
         else gbind (slc data rdata (rdata + rdlen)) (\<lambda>raw.
           gbind (answers_loop i data qtype (rdata + rdlen)) (\<lambda>ips.
             Ret ((if t = qtype \<and> rdlen = 4 \<and> t = 1 then [raw] else []) @
                  (if t = qtype \<and> rdlen = 16 \<and> t = 28 then [raw] else []) @ ips))))))"

definition parseDNSAnswers :: "bytes \<Rightarrow> nat \<Rightarrow> (dns_error, bytes list) go" where
  "parseDNSAnswers data qtype =
     (if length data < 12 then Err ResponseTooShort
      else gbind (u16_at data 4) (\<lambda>qd. gbind (u16_at data 6) (\<lambda>an.
        gbind (skip_questions qd data 12) (\<lambda>offset. answers_loop an data qtype offset))))"

record dnsAddressAnswer =
  ans_address :: addr
  ans_ttl :: int

fun address_answers_loop :: "nat \<Rightarrow> bytes \<Rightarrow> nat \<Rightarrow> (dns_error, dnsAddressAnswer list) go" where
  "address_answers_loop 0 data offset = Ret []"
| "address_answers_loop (Suc i) data offset =
     gbind (readDNSName data offset) (\<lambda>(_, nxt).
       if length data < nxt + 10 then Err AnswerOverruns
       else gbind (u16_at data nxt) (\<lambda>t. gbind (u16_at data (nxt + 2)) (\<lambda>cls.
         gbind (u32_at data (nxt + 4)) (\<lambda>secs. gbind (u16_at data (nxt + 8)) (\<lambda>rdlen.
         let rdata = nxt + 10 in
         if length data < rdata + rdlen then Err RdataOverruns
         else
           let ttl = (if 10 * minute < int secs * second then 10 * minute else int secs * second) in
           gbind (slc data rdata (rdata + rdlen)) (\<lambda>raw.
           gbind (address_answers_loop i data (rdata + rdlen)) (\<lambda>answers.
             Ret ((if cls = 1 \<and> t = 1 \<and> rdlen = 4 then [\<lparr>ans_address = Addr4 raw, ans_ttl = ttl\<rparr>] else []) @
                  (if cls = 1 \<and> t = 28 \<and> rdlen = 16 then [\<lparr>ans_address = Addr6 raw [], ans_ttl = ttl\<rparr>] else []) @
                  answers))))))))"

definition parseDNSAddressAnswers :: "bytes \<Rightarrow> (dns_error, dnsAddressAnswer list) go" where
  "parseDNSAddressAnswers data =
     (if length data < 12 then Err ResponseTooShort
      else gbind (u16_at data 4) (\<lambda>qd. gbind (u16_at data 6) (\<lambda>an.
        gbind (u16_at data 8) (\<lambda>ns. gbind (u16_at data 10) (\<lambda>ar.
        gbind (skip_questions qd data 12) (\<lambda>offset. address_answers_loop (an + ns + ar) data offset))))))"

section \<open>Reading names\<close>

lemma readDNSName_loop_np: "readDNSName_loop hops data pos nxt tot visited labels \<noteq> Panic"
  by (induction hops data pos nxt tot visited labels rule: readDNSName_loop.induct) (simp_all add: idx_def)

lemma readDNSName_np [simp, np_rules]: "readDNSName data offset \<noteq> Panic"
  by (simp add: readDNSName_def readDNSName_loop_np)

lemma readDNSName_loop_next:
  "readDNSName_loop hops data pos nxt tot visited labels = Ret (name, n) \<Longrightarrow>
   (case nxt of None \<Rightarrow> pos < n \<and> n \<le> length data | Some m \<Rightarrow> n = m)"
  by (induction hops data pos nxt tot visited labels rule: readDNSName_loop.induct)
    (fastforce split: if_splits option.splits)+

lemma readDNSName_loop_pointed:
  "readDNSName_loop hops data pos (Some m) tot visited labels = Ret (name, n) \<Longrightarrow> n = m"
  by (drule readDNSName_loop_next) simp

lemma readDNSName_next: "readDNSName data offset = Ret (name, n) \<Longrightarrow> offset < n \<and> n \<le> length data"
  unfolding readDNSName_def by (drule readDNSName_loop_next) simp

lemma Join_dot_len: "length (Join ls ''.'') = (\<Sum>l\<leftarrow>ls. length l + 1) - 1"
  by (induction ls rule: induct_list012) simp_all

lemma readDNSName_loop_name:
  "readDNSName_loop hops data pos nxt tot visited labels = Ret (name, n) \<Longrightarrow>
   tot = 1 + (\<Sum>l\<leftarrow>labels. length l + 1) \<Longrightarrow> tot \<le> 255 \<Longrightarrow> length name \<le> 253"
proof (induction hops arbitrary: pos nxt tot visited labels)
  case (Suc hops)
  let ?b = "data ! pos"
  let ?l = "string_of_bytes (take (unat ?b) (drop (Suc pos) data))"
  show ?case
    using Suc.prems
      Suc.IH [of "Suc (pos + unat ?b)" nxt "Suc (tot + unat ?b)" "pos # visited" "labels @ [?l]"]
      Suc.IH [of "be16 (?b AND 0x3F) (data ! Suc pos)" _ tot "pos # visited" labels]
    by (auto simp: Join_dot_len split: if_splits)
qed simp

lemma readDNSName_name: "readDNSName data offset = Ret (name, n) \<Longrightarrow> length name \<le> 253"
  unfolding readDNSName_def by (erule readDNSName_loop_name) simp_all

text \<open>
  Where a name ends does not depend on the bytes it points to: two messages that differ only
  in front of \<open>k\<close> agree on the end of every name they both accept from \<open>k\<close> on.
\<close>

lemma readDNSName_loop_same_next:
  assumes "readDNSName_loop hops data pos None tot visited labels = Ret (x, n)"
    and "readDNSName_loop hops data' pos None tot' visited' labels' = Ret (x', n')"
    and "length data = length data'" "\<And>i. k \<le> i \<Longrightarrow> data ! i = data' ! i" "k \<le> pos"
  shows "n = n'"
  using assms
proof (induction hops arbitrary: pos tot visited labels tot' visited' labels')
  case (Suc hops)
  show ?case
    using Suc.prems Suc.IH [where pos = "pos + 1 + unat (data ! pos)"]
    by (auto dest!: readDNSName_loop_pointed split: if_splits)
qed simp

lemma readDNSName_same_next:
  "readDNSName data offset = Ret (x, n) \<Longrightarrow> readDNSName data' offset = Ret (x', n') \<Longrightarrow>
   length data = length data' \<Longrightarrow> (\<And>i. k \<le> i \<Longrightarrow> data ! i = data' ! i) \<Longrightarrow> k \<le> offset \<Longrightarrow> n = n'"
  unfolding readDNSName_def by (rule readDNSName_loop_same_next)

section \<open>Walking records\<close>

lemma walk_questions_np [simp, np_rules]: "walk_questions i data offset \<noteq> Panic"
  by (induction i data offset rule: walk_questions.induct) auto

lemma walk_questions_le:
  "walk_questions i data offset = Ret n \<Longrightarrow> offset \<le> length data \<Longrightarrow> offset \<le> n \<and> n \<le> length data"
  by (induction i data offset rule: walk_questions.induct)
    (fastforce dest: readDNSName_next split: if_splits)+

lemma walk_records_np [simp, np_rules]: "walk_records i data offset \<noteq> Panic"
  by (induction i data offset rule: walk_records.induct) (auto simp: u_at_iffs)

lemma walkDNSRecords_np [simp, np_rules]: "walkDNSRecords data \<noteq> Panic"
  by (auto simp: walkDNSRecords_def u_at_iffs)

text \<open>
  The records a walk returns lie inside the message, one after the other.
\<close>

definition record_in :: "nat \<Rightarrow> dnsWireRecord \<Rightarrow> bool" where
  "record_in n r \<longleftrightarrow> 12 \<le> ttlOffset r \<and> dataOffset r = ttlOffset r + 6 \<and> dataOffset r \<le> endOffset r \<and> endOffset r \<le> n"

definition records_ok :: "nat \<Rightarrow> dnsWireRecord list \<Rightarrow> bool" where
  "records_ok n rs \<longleftrightarrow> list_all (record_in n) rs \<and> sorted_wrt (\<lambda>r s. endOffset r < ttlOffset s) rs"

lemma walk_records_ok:
  "walk_records i data offset = Ret rs \<Longrightarrow> 12 \<le> offset \<Longrightarrow>
   records_ok (length data) rs \<and> list_all (\<lambda>r. offset < ttlOffset r) rs \<and> length rs = i"
proof (induction i data offset arbitrary: rs rule: walk_records.induct)
  case (2 i data offset)
  then show ?case
    by (fastforce simp: records_ok_def record_in_def list_all_iff u_at_iffs
        dest: readDNSName_next split: if_splits)
qed (simp add: records_ok_def)

lemma walkDNSRecords_ok:
  assumes "walkDNSRecords data = Ret rs"
  shows "records_ok (length data) rs"
  using assms walk_records_ok walk_questions_le
  by (fastforce simp: walkDNSRecords_def split: if_splits)

lemma walkDNSRecords_len: "walkDNSRecords data = Ret rs \<Longrightarrow> 12 \<le> length data"
  by (simp add: walkDNSRecords_def split: if_splits)

section \<open>Lifetime of cached responses\<close>

lemma dnsResponseCacheable_np [simp, np_rules]: "dnsResponseCacheable r \<noteq> Panic"
  by (auto simp: dnsResponseCacheable_def Let_def)

lemma dnsResponseCacheable_not_Err [simp]: "dnsResponseCacheable r \<noteq> Err e"
  by (auto simp: dnsResponseCacheable_def Let_def)

lemma dnsResponseCacheable_len: "dnsResponseCacheable r = Ret True \<Longrightarrow> 12 \<le> length r"
  by (auto simp: dnsResponseCacheable_def split: if_splits)

lemma cache_ttl_loop_np:
  "list_all (record_in (length resp)) rs \<Longrightarrow> cache_ttl_loop resp neg rs m f \<noteq> Panic"
  by (induction resp neg rs m f rule: cache_ttl_loop.induct)
    (auto simp: Let_def u_at_iffs record_in_def)

text \<open>
  The seconds a record contributes to the minimum: its TTL, for a negative answer only that
  of an SOA record.
\<close>

definition counted :: "bool \<Rightarrow> dnsWireRecord \<Rightarrow> bool" where
  "counted neg r \<longleftrightarrow> rtyp r \<noteq> 41 \<and> (neg \<longrightarrow> rtyp r = 6)"

definition ttl_at :: "bytes \<Rightarrow> dnsWireRecord \<Rightarrow> nat" where
  "ttl_at d r = be32 (d ! ttlOffset r) (d ! (ttlOffset r + 1)) (d ! (ttlOffset r + 2)) (d ! (ttlOffset r + 3))"

lemma cache_ttl_loop_bounds:
  "cache_ttl_loop resp neg rs m f = Ret (m', f') \<Longrightarrow> 0 \<le> m \<Longrightarrow>
   0 \<le> m' \<and> m' \<le> m \<and> (\<forall>r\<in>set rs. counted neg r \<longrightarrow> m' \<le> int (ttl_at resp r) * second)
   \<and> (f' \<longleftrightarrow> f \<or> (\<exists>r\<in>set rs. counted neg r))"
proof (induction rs arbitrary: m f)
  case (Cons r rs)
  show ?case
  proof (cases "counted neg r")
    case False
    with Cons.prems(1) have "cache_ttl_loop resp neg rs m f = Ret (m', f')"
      by (auto simp: counted_def Let_def split: if_splits)
    with Cons.IH [OF this Cons.prems(2)] False show ?thesis by simp
  next
    case True
    with Cons.prems obtain m1 where
      "cache_ttl_loop resp neg rs m1 True = Ret (m', f')" "0 \<le> m1" "m1 \<le> m" "m1 \<le> int (ttl_at resp r) * second"
      by (auto simp: counted_def Let_def ttl_at_def u_at_iffs split: if_splits)
    with Cons.IH [OF this(1,2)] True show ?thesis by auto
  qed
qed simp

lemma dnsResponseCacheTTL_cases:
  assumes "dnsResponseCacheTTL resp = Ret t" "t \<noteq> 0"
  obtains rs where "walkDNSRecords resp = Ret rs" "12 \<le> length resp" "0 < t" "t \<le> 10 * minute"
    "\<And>r. r \<in> set rs \<Longrightarrow>
       counted (be16 (resp ! 6) (resp ! 7) = 0 \<or> resp ! 3 AND 0x0F = 3) r \<Longrightarrow> t \<le> int (ttl_at resp r) * second"
  using assms cache_ttl_loop_bounds [of resp _ _ "10 * minute"] dnsResponseCacheable_len [of resp]
  by (fastforce simp: dnsResponseCacheTTL_def Let_def u_at_iffs split: if_splits)

lemma cache_ttl_loop_second:
  "cache_ttl_loop resp neg rs m f = Ret (m', f') \<Longrightarrow> second dvd m \<Longrightarrow> second dvd m'"
proof (induction rs arbitrary: m f)
  case (Cons r rs)
  from Cons.prems obtain m1 f1 where "cache_ttl_loop resp neg rs m1 f1 = Ret (m', f')" "second dvd m1"
    by (auto simp: Let_def split: if_splits)
  with Cons.IH show ?case by blast
qed simp

lemma dnsResponseCacheTTL_second: "dnsResponseCacheTTL resp = Ret t \<Longrightarrow> second dvd t"
  by (auto simp: dnsResponseCacheTTL_def Let_def split: if_splits dest!: cache_ttl_loop_second)

lemma dnsResponseCacheTTL_np [simp, np_rules]: "dnsResponseCacheTTL resp \<noteq> Panic"
proof
  assume "dnsResponseCacheTTL resp = Panic"
  then show False
    using dnsResponseCacheable_len [of resp] walkDNSRecords_ok [of resp] cache_ttl_loop_np [of resp]
    by (auto simp: dnsResponseCacheTTL_def Let_def u_at_iffs records_ok_def split: if_splits)
qed

lemma dnsResponseCacheTTL_not_Err [simp]: "dnsResponseCacheTTL resp \<noteq> Err e"
  by (auto simp: dnsResponseCacheTTL_def gtry_def Let_def split: go.splits if_splits)

section \<open>Ageing\<close>

lemma dnsResponseForQuery_len [simp]: "length (dnsResponseForQuery r q) = length r"
  by (simp add: dnsResponseForQuery_def)

lemma dnsResponseForQuery_nth: "2 \<le> i \<Longrightarrow> dnsResponseForQuery r q ! i = r ! i"
  by (simp add: dnsResponseForQuery_def)

lemma dnsResponseForQuery_id:
  "2 \<le> length r \<Longrightarrow> 2 \<le> length q \<Longrightarrow> take 2 (dnsResponseForQuery r q) = take 2 q"
  by (cases r; cases "tl r"; cases q; cases "tl q") (simp_all add: dnsResponseForQuery_def)

definition aged :: "nat \<Rightarrow> dnsWireRecord list \<Rightarrow> bytes \<Rightarrow> bytes \<Rightarrow> bool" where
  "aged secs rs d d' \<longleftrightarrow> length d' = length d \<and>
     (\<forall>r\<in>set rs. rtyp r \<noteq> 41 \<longrightarrow> ttl_at d' r = ttl_at d r - secs) \<and>
     (\<forall>i. (\<forall>r\<in>set rs. rtyp r \<noteq> 41 \<longrightarrow> i < ttlOffset r \<or> ttlOffset r + 4 \<le> i) \<longrightarrow> d' ! i = d ! i)"

lemma put32_at_nth:
  "i + 4 \<le> length xs \<Longrightarrow>
   (take i xs @ put32 n @ drop (i + 4) xs) ! j =
   (if i \<le> j \<and> j < i + 4 then put32 n ! (j - i) else xs ! j)"
  by (auto simp: nth_append)

lemma ttl_at_put32:
  "ttlOffset r + 4 \<le> length d \<Longrightarrow>
   ttl_at (take (ttlOffset r) d @ put32 n @ drop (ttlOffset r + 4) d) r = n mod 4294967296"
  by (simp add: ttl_at_def put32_at_nth) (simp add: put32_def nth_Cons')

lemma ttl_at_cong: "(\<And>i. ttlOffset r \<le> i \<Longrightarrow> i < ttlOffset r + 4 \<Longrightarrow> d ! i = d' ! i) \<Longrightarrow> ttl_at d r = ttl_at d' r"
  by (simp add: ttl_at_def)

lemma monus_if: "(if a \<le> b then 0 else a - b) = a - (b :: nat)"
  by simp

lemma age_loop_aged:
  "records_ok (length d) rs \<Longrightarrow> \<exists>d'. age_loop secs rs d = Ret d' \<and> aged secs rs d d'"
proof (induction rs arbitrary: d)
  case (Cons r rs)
  from Cons.prems have rs: "records_ok (length d) rs" and r: "record_in (length d) r"
    and sep: "\<And>s. s \<in> set rs \<Longrightarrow> endOffset r < ttlOffset s"
    by (auto simp: records_ok_def)
  show ?case
  proof (cases "rtyp r = 41")
    case True
    with Cons.IH [OF rs] show ?thesis by (auto simp: aged_def)
  next
    case False
    let ?t = "ttlOffset r"
    let ?n = "ttl_at d r - secs"
    let ?d = "take ?t d @ put32 ?n @ drop (?t + 4) d"
    from r have t: "?t + 4 \<le> length d" by (simp add: record_in_def)
    then have len: "length ?d = length d" by simp
    with rs obtain d' where d': "age_loop secs rs ?d = Ret d'" "aged secs rs ?d d'"
      using Cons.IH [of ?d] by metis
    have "ttl_at d r < 4294967296" by (simp add: ttl_at_def)
    then have n: "?n mod 4294967296 = ?n" by simp
    have step: "age_loop secs (r # rs) d = Ret d'"
      using False t d'(1) by (simp add: monus_if PutUint32_at_def ttl_at_def del: if_cancel)
    have head: "ttl_at d' r = ?n"
    proof -
      have "i < ttlOffset s" if "i < ?t + 4" "s \<in> set rs" for i s
        using that(1) sep [OF that(2)] r by (simp add: record_in_def)
      with d'(2) have "ttl_at d' r = ttl_at ?d r"
        unfolding aged_def by (intro ttl_at_cong) blast
      with ttl_at_put32 [OF t] n show ?thesis by simp
    qed
    have tail: "ttl_at ?d s = ttl_at d s" if "s \<in> set rs" for s
      using sep [OF that] r by (intro ttl_at_cong) (simp add: put32_at_nth [OF t] record_in_def)
    have rest: "?d ! i = d ! i" if "i < ?t \<or> ?t + 4 \<le> i" for i
      using that by (auto simp: put32_at_nth [OF t])
    from step d'(2) len head tail rest False show ?thesis by (auto simp: aged_def)
  qed
qed (simp add: aged_def)

lemma elapsed_seconds_floor: "0 \<le> e \<Longrightarrow> elapsed_seconds e = nat (e div second)"
  by (simp add: elapsed_seconds_def pos_imp_zdiv_nonneg_iff)

section \<open>Queries and questions\<close>

definition label_ok :: "string \<Rightarrow> bool" where
  "label_ok l \<longleftrightarrow> 0 < length l \<and> length l \<le> 63"

definition enc_labels :: "string list \<Rightarrow> bytes" where
  "enc_labels ls = concat (map (\<lambda>l. word_of_nat (length l) # bytes_of_string l) ls)"

lemma enc_labels_simps [simp]:
  "enc_labels [] = []"
  "enc_labels (l # ls) = word_of_nat (length l) # bytes_of_string l @ enc_labels ls"
  by (simp_all add: enc_labels_def)

lemma enc_labels_len: "length (enc_labels ls) = (\<Sum>l\<leftarrow>ls. length l + 1)"
  by (induction ls) simp_all

lemma append_labels_ok: "list_all label_ok ls \<Longrightarrow> append_labels ls p = p @ enc_labels ls"
  by (induction ls arbitrary: p) (auto simp: label_ok_def)

lemma small_label_byte:
  assumes "n \<le> 63"
  shows "(word_of_nat n :: u8) AND 0xC0 = 0" "(word_of_nat n :: u8) AND 0xC0 \<noteq> 0xC0" "unat (word_of_nat n :: u8) = n"
proof -
  show "unat (word_of_nat n :: u8) = n" using assms by simp
  have "\<forall>n\<in>{..63}. (word_of_nat n :: u8) AND 0xC0 = 0" by code_simp
  with assms show *: "(word_of_nat n :: u8) AND 0xC0 = 0" by simp
  have "(0xC0 :: u8) \<noteq> 0" by simp
  with * show "(word_of_nat n :: u8) AND 0xC0 \<noteq> 0xC0" by metis
qed

lemma readDNSName_loop_enc:
  "list_all label_ok ls \<Longrightarrow> length ls < hops \<Longrightarrow> tot + length (enc_labels ls) \<le> 255 \<Longrightarrow>
   \<forall>v\<in>set visited. v < length pre \<Longrightarrow>
   readDNSName_loop hops (pre @ enc_labels ls @ 0 # suf) (length pre) None tot visited labels
   = Ret (Join (labels @ ls) ''.'', length pre + length (enc_labels ls) + 1)"
proof (induction ls arbitrary: hops tot visited pre labels)
  case Nil
  then show ?case by (cases hops) auto
next
  case (Cons l ls)
  then obtain h where h: "hops = Suc h" by (cases hops) auto
  from Cons.prems have l: "0 < length l" "length l \<le> 63" by (simp_all add: label_ok_def)
  let ?pre = "pre @ word_of_nat (length l) # bytes_of_string l"
  have nz: "(word_of_nat (length l) :: u8) \<noteq> 0"
    using small_label_byte(3) [OF l(2)] l(1) by fastforce
  have "readDNSName_loop h (?pre @ enc_labels ls @ 0 # suf) (length ?pre) None (tot + length l + 1)
          (length pre # visited) (labels @ [l])
        = Ret (Join ((labels @ [l]) @ ls) ''.'', length ?pre + length (enc_labels ls) + 1)"
    using Cons.prems h by (intro Cons.IH) auto
  moreover have "length pre \<notin> set visited" using Cons.prems(4) by auto
  ultimately show ?case
    using Cons.prems(3) l nz small_label_byte [OF l(2)]
    by (simp add: h nth_append add.commute add.left_commute)
qed

lemma readDNSName_enc:
  assumes "list_all label_ok ls" "length (enc_labels ls) \<le> 254"
  shows "readDNSName (pre @ enc_labels ls @ 0 # suf) (length pre)
         = Ret (Join ls ''.'', length pre + length (enc_labels ls) + 1)"
proof -
  have "length ls \<le> length (enc_labels ls)" by (induction ls) simp_all
  with assms show ?thesis
    unfolding readDNSName_def by (subst readDNSName_loop_enc) simp_all
qed

text \<open>The host names a query can carry unchanged: labels of 1 to 63 bytes, 253 bytes in all.\<close>

definition host_ok :: "string \<Rightarrow> bool" where
  "host_ok host \<longleftrightarrow> list_all label_ok (Split host (CHR ''.'')) \<and> length host \<le> 253"

lemma dnsQuestion_np [simp, np_rules]: "dnsQuestion q \<noteq> Panic"
  by (auto simp: dnsQuestion_def u_at_iffs)

lemma dnsQuestion_name: "dnsQuestion q = Ret (name, t) \<Longrightarrow> length name \<le> 253 \<and> t < 65536 \<and> 12 \<le> length q"
  by (auto simp: dnsQuestion_def u_at_iffs dest: readDNSName_name split: if_splits)

section \<open>Answers\<close>

lemma skip_questions_walk:
  "walk_questions i data offset = Ret n \<longleftrightarrow> skip_questions i data offset = Ret n"
proof (induction i arbitrary: offset)
  case (Suc i)
  then show ?case by (cases "readDNSName data offset") auto
qed simp

lemma skip_questions_np [simp, np_rules]: "skip_questions i data offset \<noteq> Panic"
  by (induction i data offset rule: skip_questions.induct) auto

lemma answers_loop_np [simp, np_rules]: "answers_loop i data qtype offset \<noteq> Panic"
  by (induction i data qtype offset rule: answers_loop.induct) (auto simp: u_at_iffs Let_def)

lemma parseDNSAnswers_np [simp, np_rules]: "parseDNSAnswers data qtype \<noteq> Panic"
  by (auto simp: parseDNSAnswers_def u_at_iffs)

lemma address_answers_loop_np [simp, np_rules]: "address_answers_loop i data offset \<noteq> Panic"
  by (induction i data offset rule: address_answers_loop.induct) (auto simp: u_at_iffs Let_def)

lemma parseDNSAddressAnswers_np [simp, np_rules]: "parseDNSAddressAnswers data \<noteq> Panic"
  by (auto simp: parseDNSAddressAnswers_def u_at_iffs)

text \<open>What one record of the walk contributes to the addresses.\<close>

definition rdata_of :: "bytes \<Rightarrow> dnsWireRecord \<Rightarrow> bytes" where
  "rdata_of data r = take (endOffset r - dataOffset r) (drop (dataOffset r) data)"

definition class_at :: "bytes \<Rightarrow> dnsWireRecord \<Rightarrow> nat" where
  "class_at data r = be16 (data ! (ttlOffset r - 2)) (data ! (ttlOffset r - 1))"

definition address_of_record :: "bytes \<Rightarrow> dnsWireRecord \<Rightarrow> dnsAddressAnswer list" where
  "address_of_record data r =
     (let raw = rdata_of data r; t = min (10 * minute) (int (ttl_at data r) * second) in
      if class_at data r \<noteq> 1 then []
      else if rtyp r = 1 \<and> length raw = 4 then [\<lparr>ans_address = Addr4 raw, ans_ttl = t\<rparr>]
      else if rtyp r = 28 \<and> length raw = 16 then [\<lparr>ans_address = Addr6 raw [], ans_ttl = t\<rparr>]
      else [])"

lemma address_answers_loop_walk:
  "walk_records i data offset = Ret rs \<Longrightarrow>
   address_answers_loop i data offset = Ret (concat (map (address_of_record data) rs))"
proof (induction i arbitrary: rs offset)
  case (Suc i)
  from Suc.prems obtain x n rdlen t rs' where
    n: "readDNSName data offset = Ret (x, n)" "\<not> length data < n + 10"
    and rdlen: "(u16_at data (n + 8) :: (dns_error, nat) go) = Ret rdlen" "\<not> length data < n + 10 + rdlen"
    and t: "(u16_at data n :: (dns_error, nat) go) = Ret t"
    and rs': "walk_records i data (n + 10 + rdlen) = Ret rs'"
    and rs: "rs = \<lparr>rtyp = t, ttlOffset = n + 4, dataOffset = n + 10, endOffset = n + 10 + rdlen\<rparr> # rs'"
    by (auto split: if_splits)
  define r where "r = hd rs"
  have r: "rtyp r = t" "ttlOffset r = n + 4" "dataOffset r = n + 10" "endOffset r = n + 10 + rdlen"
    by (simp_all add: r_def rs)
  have cls: "(u16_at data (n + 2) :: (dns_error, nat) go) = Ret (class_at data r)"
    and secs: "(u32_at data (n + 4) :: (dns_error, nat) go) = Ret (ttl_at data r)"
    using n(2) by (simp_all add: r class_at_def ttl_at_def numeral_eq_Suc)
  have raw: "(slc data (n + 10) (n + 10 + rdlen) :: (dns_error, bytes) go) = Ret (rdata_of data r)"
    and len: "length (rdata_of data r) = rdlen"
    using rdlen(2) by (simp_all add: r rdata_of_def)
  have "address_answers_loop (Suc i) data offset
      = Ret (address_of_record data r @ concat (map (address_of_record data) rs'))"
    unfolding address_of_record_def [of data r] address_answers_loop.simps r(1) len n(1) rdlen(1) t cls secs
      gbind_simps Let_def prod.case raw Suc.IH [OF rs'] min_def
    using n(2) rdlen(2) by auto
  then show ?case by (simp add: rs r_def)
qed simp

lemma address_answers_loop_Ret:
  "address_answers_loop i data offset = Ret as \<Longrightarrow> \<exists>rs. walk_records i data offset = Ret rs"
proof (induction i arbitrary: as offset)
  case (Suc i)
  then obtain x n where "readDNSName data offset = Ret (x, n)" by auto
  with Suc show ?case by (fastforce simp: u_at_iffs Let_def split: if_splits)
qed simp

lemma address_answers_loop_iff:
  "address_answers_loop i data offset = Ret as \<longleftrightarrow>
   (\<exists>rs. walk_records i data offset = Ret rs \<and> as = concat (map (address_of_record data) rs))"
  using address_answers_loop_walk [of i data offset] address_answers_loop_Ret [of i data offset as]
  by (auto simp del: map_concat)

lemma walk_questions_same:
  "walk_questions i data offset = Ret n \<Longrightarrow> walk_questions i data' offset = Ret n' \<Longrightarrow>
   length data = length data' \<Longrightarrow> (\<And>i. 2 \<le> i \<Longrightarrow> data ! i = data' ! i) \<Longrightarrow> 2 \<le> offset \<Longrightarrow> n = n'"
proof (induction i arbitrary: offset)
  case (Suc i)
  from Suc.prems obtain x m x' m' where
    r: "readDNSName data offset = Ret (x, m)" "readDNSName data' offset = Ret (x', m')"
    by auto
  have "m = m'" using readDNSName_same_next [OF r, of 2] Suc.prems by simp
  with r Suc.prems Suc.IH [of "m + 4"] readDNSName_next [OF r(1)] show ?case
    by (auto split: if_splits)
qed simp

lemma walk_records_same:
  "walk_records i data offset = Ret rs \<Longrightarrow> walk_records i data' offset = Ret rs' \<Longrightarrow>
   length data = length data' \<Longrightarrow> (\<And>i. 2 \<le> i \<Longrightarrow> data ! i = data' ! i) \<Longrightarrow> 2 \<le> offset \<Longrightarrow> rs = rs'"
proof (induction i arbitrary: offset rs rs')
  case (Suc i)
  from Suc.prems obtain x m x' m' where
    r: "readDNSName data offset = Ret (x, m)" "readDNSName data' offset = Ret (x', m')"
    by auto
  have m: "m = m'" using readDNSName_same_next [OF r, of 2] Suc.prems by simp
  have "2 \<le> m" using readDNSName_next [OF r(1)] Suc.prems(5) by simp
  with m r Suc.prems show ?case
    using Suc.IH [of "m + 10 + be16 (data ! (m + 8)) (data ! (m + 8 + 1))"]
    by (auto simp: u_at_iffs split: if_splits)
qed simp

lemma walkDNSRecords_same:
  assumes "walkDNSRecords data = Ret rs" "walkDNSRecords data' = Ret rs'"
    "length data = length data'" "\<And>i. 2 \<le> i \<Longrightarrow> data ! i = data' ! i"
  shows "rs = rs'"
proof -
  have h: "\<And>i. 2 \<le> i \<Longrightarrow> data' ! i = data ! i" using assms(4) by simp
  note len = walkDNSRecords_len [OF assms(1)]
  from assms(1) len obtain o1 where
    a: "walk_questions (be16 (data ! 4) (data ! 5)) data 12 = Ret o1"
       "walk_records (be16 (data ! 6) (data ! 7) + be16 (data ! 8) (data ! 9) + be16 (data ! 10) (data ! 11)) data o1 = Ret rs"
    by (auto simp: walkDNSRecords_def)
  from assms(2,3) len obtain o2 where
    b: "walk_questions (be16 (data ! 4) (data ! 5)) data' 12 = Ret o2"
       "walk_records (be16 (data ! 6) (data ! 7) + be16 (data ! 8) (data ! 9) + be16 (data ! 10) (data ! 11)) data' o2 = Ret rs'"
    by (auto simp: walkDNSRecords_def h)
  have "o1 = o2" using walk_questions_same [OF a(1) b(1) assms(3,4)] by simp
  moreover have "12 \<le> o1" using walk_questions_le [OF a(1)] len by simp
  ultimately show ?thesis using walk_records_same [OF a(2) _ assms(3,4)] b(2) by simp
qed

section \<open>Properties\<close>

text \<open>
  C25: \<^verbatim>\<open>readDNSName\<close> is memory safe and bounded on arbitrary bytes: it never panics, and when
  it accepts a name the next offset lies strictly behind the start and inside the packet and
  the name has at most 253 bytes, whatever compression pointers the packet has.
\<close>

theorem readDNSName_safe:
  "readDNSName data offset \<noteq> Panic \<and>
   (readDNSName data offset = Ret (name, n) \<longrightarrow> offset < n \<and> n \<le> length data \<and> length name \<le> 253)"
  using readDNSName_next readDNSName_name by auto

theorem readDNSName_safe_witness:
  "readDNSName [3, 119, 119, 119, 0, 0xC0, 0] 5 = Ret (''www'', 7) \<and> (5 :: nat) < 7"
proof -
  have "readDNSName [3, 119, 119, 119, 0, 0xC0, 0] 5 = Ret (''www'', 7)" by code_simp
  with readDNSName_safe [of "[3, 119, 119, 119, 0, 0xC0, 0]" 5 "''www''" 7] show ?thesis by blast
qed

text \<open>
  A query built for a host name is read back by the question parser as the same name and
  type, with or without the root dot at its end.
\<close>

lemma dnsQuestion_buildDNSQuery:
  assumes "host_ok host" "qtype < 65536"
  shows "dnsQuestion (buildDNSQuery host qtype) = Ret (host, qtype) \<and>
         dnsQuestion (buildDNSQuery (host @ ''.'') qtype) = Ret (host, qtype)"
proof -
  let ?ls = "Split host (CHR ''.'')"
  let ?h = "put16 0x1234 @ put16 0x0100 @ put16 1 @ put16 0 @ put16 0 @ put16 0"
  let ?q = "?h @ enc_labels ?ls @ 0 # put16 qtype @ put16 1"
  from assms have ok: "list_all label_ok ?ls" and len: "length host \<le> 253" by (simp_all add: host_ok_def)
  have host: "Join ?ls ''.'' = host" by (rule Join_Split)
  have "[] \<notin> set ?ls" using ok by (auto simp: list_all_iff label_ok_def)
  then have "\<nexists>a. host = a @ ''.''" using Split_snoc_sep by (metis in_set_conv_decomp)
  then have trim: "TrimSuffix host ''.'' = host" "TrimSuffix (host @ ''.'') ''.'' = host"
    by (auto simp: TrimSuffix_def HasSuffix_iff)
  have q: "buildDNSQuery host qtype = ?q" "buildDNSQuery (host @ ''.'') qtype = ?q"
    by (simp_all only: buildDNSQuery_def Let_def trim append_labels_ok [OF ok]) simp_all
  have "length (enc_labels ?ls) \<le> 254"
    using Join_dot_len [of ?ls] len unfolding host enc_labels_len by linarith
  then have name: "readDNSName ?q 12 = Ret (host, 12 + length (enc_labels ?ls) + 1)"
    using readDNSName_enc [OF ok, of ?h "put16 qtype @ put16 1"] by (simp add: host)
  have "?q ! 4 = 0" "?q ! 5 = 1" by (simp_all add: put16_def nth_Cons')
  then have "(u16_at ?q 4 :: (dns_error, nat) go) = Ret 1"
    using u16_at_in [of 4 ?q] by (simp add: be16_def)
  moreover have "(u16_at ?q (12 + length (enc_labels ?ls) + 1) :: (dns_error, nat) go) = Ret qtype"
    using assms(2) by (simp add: u16_at_def)
  ultimately have "dnsQuestion ?q = Ret (host, qtype)"
    unfolding dnsQuestion_def name by simp
  then show ?thesis by (simp only: q)
qed

text \<open>
  C26: ageing a cached response never fails on a message the record walk accepts and then
  changes nothing but the TTL fields of the records that are not EDNS OPT: each of them drops
  by the whole seconds elapsed and stops at 0. A message the walk rejects gives no response.
\<close>

theorem ageDNSResponse_aged:
  "\<exists>a. ageDNSResponse r q e = Ret a \<and>
     (case walkDNSRecords (dnsResponseForQuery r q) of
        Ret rs \<Rightarrow> records_ok (length r) rs \<and> aged (elapsed_seconds e) rs (dnsResponseForQuery r q) a
      | _ \<Rightarrow> a = [])"
proof (cases "walkDNSRecords (dnsResponseForQuery r q)")
  case (Ret rs)
  from walkDNSRecords_ok [OF Ret] have ok: "records_ok (length r) rs" by simp
  with age_loop_aged [of "dnsResponseForQuery r q" rs "elapsed_seconds e"] Ret show ?thesis
    by (auto simp: ageDNSResponse_def)
qed (simp_all add: ageDNSResponse_def)

lemma ageDNSResponse_np [simp, np_rules]: "ageDNSResponse r q e \<noteq> Panic"
proof (cases "walkDNSRecords (dnsResponseForQuery r q)")
  case (Ret rs)
  with walkDNSRecords_ok [OF Ret] age_loop_aged [of "dnsResponseForQuery r q" rs "elapsed_seconds e"] show ?thesis
    by (auto simp: ageDNSResponse_def)
qed (simp_all add: ageDNSResponse_def)

text \<open>
  Less time than the lifetime of a cached response leaves at least one second of every TTL that
  counted for it, whatever transaction id the aged copy gets.
\<close>

lemma elapsed_seconds_less: "e < int n * second \<Longrightarrow> 0 < n \<Longrightarrow> elapsed_seconds e < n"
proof (cases "e < 0")
  case True
  then have "0 \<le> (- e) div second" by (simp add: pos_imp_zdiv_nonneg_iff)
  then show "0 < n \<Longrightarrow> ?thesis" using True by (simp add: elapsed_seconds_def)
next
  case False
  then show "e < int n * second \<Longrightarrow> ?thesis"
    by (simp add: elapsed_seconds_floor nat_less_iff div_less_iff_less_mult)
qed

lemma served_fresh:
  assumes "dnsResponseCacheTTL r = Ret t" "0 < t" "e < t"
    and "ageDNSResponse r q e = Ret a" "a \<noteq> []"
    and "walkDNSRecords r = Ret rs" "rec \<in> set rs"
    and "counted (be16 (r ! 6) (r ! 7) = 0 \<or> r ! 3 AND 0x0F = 3) rec"
  shows "1 \<le> ttl_at a rec"
proof -
  let ?c = "dnsResponseForQuery r q"
  from assms(4,5) obtain rs' where rs': "walkDNSRecords ?c = Ret rs'"
    by (auto simp: ageDNSResponse_def Let_def)
  have "rs = rs'"
    using walkDNSRecords_same [OF assms(6) rs'] by (simp add: dnsResponseForQuery_nth)
  with age_loop_aged [of ?c rs "elapsed_seconds e"] walkDNSRecords_ok [OF rs'] assms(4) rs'
  have aged: "aged (elapsed_seconds e) rs ?c a" by (auto simp: ageDNSResponse_def Let_def)
  have off: "12 \<le> ttlOffset rec"
    using walkDNSRecords_ok [OF assms(6)] assms(7) by (auto simp: records_ok_def list_all_iff record_in_def)
  from assms(1,2) obtain rs0 where
    t: "walkDNSRecords r = Ret rs0"
       "\<And>x. x \<in> set rs0 \<Longrightarrow> counted (be16 (r ! 6) (r ! 7) = 0 \<or> r ! 3 AND 0x0F = 3) x \<Longrightarrow>
          t \<le> int (ttl_at r x) * second"
    by (elim dnsResponseCacheTTL_cases) auto
  with assms(6-8) have le: "t \<le> int (ttl_at r rec) * second" by force
  with assms(2,3) have "e < int (ttl_at r rec) * second" "0 < ttl_at r rec" by (auto intro: gr0I)
  then have lt: "elapsed_seconds e < ttl_at r rec" by (rule elapsed_seconds_less)
  have "ttl_at ?c rec = ttl_at r rec"
    using off by (intro ttl_at_cong) (simp add: dnsResponseForQuery_nth)
  with aged assms(7,8) lt show ?thesis by (auto simp: aged_def counted_def)
qed

definition wire_example :: bytes where
  "wire_example = [0, 0, 0x81, 0x80, 0, 0, 0, 1, 0, 0, 0, 0, 0, 0, 1, 0, 1, 0, 0, 0, 60, 0, 4, 1, 2, 3, 4]"

text \<open>
  C27: the address parser accepts exactly the messages the record walk accepts, and returns the
  A and AAAA records of class IN among the walk's records, in order, with lifetimes cut at ten
  minutes.
\<close>

theorem parseDNSAddressAnswers_walk:
  "parseDNSAddressAnswers data = Ret as \<longleftrightarrow>
   (\<exists>rs. walkDNSRecords data = Ret rs \<and> as = concat (map (address_of_record data) rs))"
proof (cases "12 \<le> length data")
  case True
  then show ?thesis
    by (auto simp: parseDNSAddressAnswers_def walkDNSRecords_def skip_questions_walk address_answers_loop_iff)
qed (simp add: parseDNSAddressAnswers_def walkDNSRecords_def)

lemma u8_len: "LENGTH(8) = 8"
  by simp

lemma dnsErrorResponse_eq:
  assumes "12 \<le> length q"
  shows "dnsErrorResponse q rcode =
    Ret (take 2 q @ [0x80 OR (q ! 2 AND 0x01), 0x80 OR (q ! 3 AND 0x10) OR (ucast rcode AND 0x0F)]
         @ take 2 (drop 4 q) @ [0, 0, 0, 0] @ drop 10 q)"
proof -
  from assms obtain a b c d e f g h i j k l rest where q: "q = a # b # c # d # e # f # g # h # i # j # k # l # rest"
    by (auto simp: numeral_eq_Suc Suc_le_length_iff)
  let ?f = "0x8080 OR (word_of_nat (be16 c d) AND 0x0110) OR (rcode AND 0x000F) :: u16"
  have hi: "(word_of_nat (unat ?f div 256) :: u8) = 0x80 OR (c AND 0x01)"
    by (rule bit_word_eqI, simp only: u8_len, drule lt8_cases, elim disjE)
      (simp_all add: bit_hi_byte bit_or_iff bit_and_iff bit_be16)
  have lo: "(word_of_nat (unat ?f) :: u8) = 0x80 OR (d AND 0x10) OR (ucast rcode AND 0x0F)"
    by (rule bit_word_eqI, simp only: u8_len, drule lt8_cases, elim disjE)
      (simp_all add: bit_lo_byte bit_or_iff bit_and_iff bit_be16 bit_ucast_iff)
  have "(u16_at q 2 :: (dns_error, nat) go) = Ret (be16 c d)" by (simp add: q)
  then have "dnsErrorResponse q rcode =
      gbind (PutUint16_at q 2 (unat ?f)) (\<lambda>r1. gbind (PutUint16_at r1 6 0) (\<lambda>r2. PutUint16_at r2 8 0))"
    using assms by (simp only: dnsErrorResponse_def Let_def) simp
  also have "PutUint16_at q 2 (unat ?f) = Ret (a # b # (0x80 OR (c AND 0x01)) # (0x80 OR (d AND 0x10) OR (ucast rcode AND 0x0F)) # drop 4 q)"
    unfolding PutUint16_at_def put16_def hi lo by (simp add: q)
  finally show ?thesis by (simp add: PutUint16_at_def put16_def q)
qed

end
