(* ===== verification/Json.thy ===== *)
theory Json
  imports Go_Strings
begin

text \<open>
  JSON documents as \<^verbatim>\<open>encoding/json\<close> hands them to the program, and the decoding rules of
  that package the program relies on. The lexical grammar is not modelled: a document is the
  value its text denotes, and a text is the sequence of values a \<^verbatim>\<open>json.Decoder\<close> reads
  from it together with whether the text ends cleanly after them. An object keeps its members
  in text order, duplicates included; a number with an integral value is a \<open>JInt\<close>, any other
  number a \<open>JReal\<close> with the text \<^verbatim>\<open>fmt.Sprint\<close> prints for it.
\<close>

datatype json =
    JNull
  | JBool bool
  | JInt int
  | JReal string
  | JStr string
  | JArr "json list"
  | JObj "(string \<times> json) list"

text \<open>The last of several members with one key wins, as in decoding into a Go map.\<close>

definition jmap :: "(string \<times> json) list \<Rightarrow> string \<Rightarrow> json option" where
  "jmap kvs = map_of (rev kvs)"

text \<open>
  Decoding into a variable of a given type: \<open>null\<close> leaves the zero value and is no error.
\<close>

fun decode_string :: "json \<Rightarrow> string option" where
  "decode_string (JStr s) = Some s"
| "decode_string JNull = Some []"
| "decode_string _ = None"

fun decode_bool :: "json \<Rightarrow> bool option" where
  "decode_bool (JBool b) = Some b"
| "decode_bool JNull = Some False"
| "decode_bool _ = None"

fun decode_int :: "json \<Rightarrow> int option" where
  "decode_int (JInt n) = (if - (2 ^ 63) \<le> n \<and> n < 2 ^ 63 then Some n else None)"
| "decode_int JNull = Some 0"
| "decode_int _ = None"

fun decode_list :: "(json \<Rightarrow> 'a option) \<Rightarrow> json \<Rightarrow> 'a list option" where
  "decode_list f (JArr vs) = those (map f vs)"
| "decode_list f JNull = Some []"
| "decode_list f _ = None"

fun decode_raw_map :: "json \<Rightarrow> (string \<times> json) list option" where
  "decode_raw_map (JObj kvs) = Some kvs"
| "decode_raw_map JNull = Some []"
| "decode_raw_map _ = None"

lemma those_Some_iff: "those xs = Some ys \<longleftrightarrow> xs = map Some ys"
  by (induction xs arbitrary: ys) (auto split: option.splits)

lemma jmap_mem: "jmap kvs k = Some v \<Longrightarrow> (k, v) \<in> set kvs"
  by (auto simp: jmap_def dest: map_of_SomeD)

end
