(* ===== verification/DNS_Cache.thy ===== *)
theory DNS_Cache
  imports Model DNS_Wire Json
begin

text \<open>
  The DNS caches of the router (\<^verbatim>\<open>hongda-core/route/dns.go\<close>, \<^verbatim>\<open>router.go\<close> and
  \<^verbatim>\<open>dns_persistence.go\<close>): the address cache, the reverse map from addresses to domains, the
  message cache with its in-flight table and the persisted copy of the message cache.

  The state is a record; \<^verbatim>\<open>dnsMu\<close> makes each critical section atomic, so an operation that
  takes the lock twice (\<^verbatim>\<open>exchangeDoHCached\<close>) is split at the unlock into \<open>exchange_begin\<close> and
  \<open>exchange_finish\<close>. Times are nanoseconds. Go maps are association lists; where the code
  deletes whichever key a map iteration yields first, the parameter \<open>pick\<close> (a position, taken
  modulo the size) chooses it, so every iteration order is covered.
\<close>

section \<open>State\<close>

record dnsCacheEntry =
  ce_ips :: "bytes list"
  ce_expires :: int

record dnsReverseEntry =
  rv_domain :: string
  rv_expires :: int
  rv_scope :: string

record dnsMessageCacheEntry =
  me_response :: bytes
  me_expires :: int
  me_storedAt :: int

record dns_state =
  dnsCache :: "(string \<times> dnsCacheEntry) list"
  dnsReverse :: "(addr \<times> dnsReverseEntry list) list"
  dnsMessages :: "(string \<times> dnsMessageCacheEntry) list"
  dnsFlights :: "string list"
  dnsPersistDirty :: bool
  dohClient :: "string option"

definition new_dns_state :: dns_state where
  "new_dns_state = \<lparr>dnsCache = [], dnsReverse = [], dnsMessages = [], dnsFlights = [],
     dnsPersistDirty = False, dohClient = None\<rparr>"

section \<open>Bounded maps\<close>

definition evict_one :: "nat \<Rightarrow> (string \<times> 'v) list \<Rightarrow> (string \<times> 'v) list" where
  "evict_one pick m = take (pick mod length m) m @ drop (Suc (pick mod length m)) m"

text \<open>Drop expired entries of a full map, then one more if it is still full.\<close>

definition make_room :: "nat \<Rightarrow> ('v \<Rightarrow> bool) \<Rightarrow> (string \<times> 'v) list \<Rightarrow> (string \<times> 'v) list" where
  "make_room pick expired m =
     (if 4096 \<le> length m then
        (let m1 = filter (\<lambda>(k, v). \<not> expired v) m in
         if 4096 \<le> length m1 then evict_one pick m1 else m1)
      else m)"

section \<open>Address and reverse cache\<close>

definition cache_domain :: "string \<Rightarrow> string" where
  "cache_domain d = ToLower (TrimSuffix (TrimSpace d) ''.'')"

text \<open>
  The inner loop over the records known for the address: it keeps the live ones of other
  domains or scopes until the new list has 8 entries.
\<close>

fun keep_records :: "string \<Rightarrow> string \<Rightarrow> int \<Rightarrow> dnsReverseEntry list \<Rightarrow> dnsReverseEntry list \<Rightarrow> dnsReverseEntry list" where
  "keep_records domain scope now records [] = records"
| "keep_records domain scope now records (r # rs) =
     (if (rv_domain r \<noteq> domain \<or> rv_scope r \<noteq> scope) \<and> now < rv_expires r then
        (let records' = records @ [r] in
         if length records' = 8 then records' else keep_records domain scope now records' rs)
      else keep_records domain scope now records rs)"

definition alist_get :: "('k \<times> 'v list) list \<Rightarrow> 'k \<Rightarrow> 'v list" where
  "alist_get m k = (case map_of m k of None \<Rightarrow> [] | Some v \<Rightarrow> v)"

fun remember_loop ::
  "string \<Rightarrow> string \<Rightarrow> int \<Rightarrow> int \<Rightarrow> dnsAddressAnswer list \<Rightarrow> bytes list \<Rightarrow> int \<Rightarrow>
   (addr \<times> dnsReverseEntry list) list \<Rightarrow> bytes list \<times> int \<times> (addr \<times> dnsReverseEntry list) list" where
  "remember_loop domain scope now responseTTL [] ips expires rmap = (ips, expires, rmap)"
| "remember_loop domain scope now responseTTL (answer # answers) ips expires rmap =
     (let t = min (ans_ttl answer) responseTTL in
      if t \<le> 0 then remember_loop domain scope now responseTTL answers ips expires rmap
      else
        (let a = Unmap (ans_address answer);
             answerExpires = now + t;
             expires' = (if answerExpires < expires then answerExpires else expires);
             records = keep_records domain scope now
               [\<lparr>rv_domain = domain, rv_expires = answerExpires, rv_scope = scope\<rparr>] (alist_get rmap a) in
         remember_loop domain scope now responseTTL answers (ips @ [AsSlice a]) expires' (AList.update a records rmap)))"

definition prune_reverse :: "int \<Rightarrow> (addr \<times> dnsReverseEntry list) list \<Rightarrow> (addr \<times> dnsReverseEntry list) list" where
  "prune_reverse now rmap =
     filter (\<lambda>(a, rs). rs \<noteq> []) (map (\<lambda>(a, rs). (a, filter (\<lambda>r. now < rv_expires r) rs)) rmap)"

text \<open>The critical section of \<^verbatim>\<open>rememberDNSResponseScoped\<close>.\<close>

definition remember_store ::
  "nat \<Rightarrow> int \<Rightarrow> string \<Rightarrow> string \<Rightarrow> int \<Rightarrow> dnsAddressAnswer list \<Rightarrow> dns_state \<Rightarrow> dns_state" where
  "remember_store pick now domain scope responseTTL answers st =
     (let (ips, expires, rmap) =
        remember_loop domain scope now responseTTL answers [] (now + 10 * minute) (dnsReverse st);
          cache = (if 0 < length ips then
             AList.update (scope @ domain) \<lparr>ce_ips = ips, ce_expires = expires\<rparr>
               (if 4096 \<le> length (dnsCache st) then evict_one pick (dnsCache st) else dnsCache st)
           else dnsCache st);
          rmap' = (if 8192 < length rmap then prune_reverse now rmap else rmap) in
      st\<lparr>dnsCache := cache, dnsReverse := rmap'\<rparr>)"

definition rememberDNSResponseScoped ::
  "nat \<Rightarrow> int \<Rightarrow> bytes \<Rightarrow> bytes \<Rightarrow> string \<Rightarrow> dns_state \<Rightarrow> (dns_error, dns_state) go" where
  "rememberDNSResponseScoped pick now query response scope st =
     gtry (dnsQuestion query) (\<lambda>_. Ret st) (\<lambda>(d0, _).
       let domain = cache_domain d0 in
       if domain = [] then Ret st
       else gtry (parseDNSAddressAnswers response) (\<lambda>_. Ret st) (\<lambda>answers.
         if length answers = 0 then Ret st
         else gbind (dnsResponseCacheTTL response) (\<lambda>responseTTL.
           if responseTTL \<le> 0 then Ret st
           else Ret (remember_store pick now domain scope responseTTL answers st))))"

definition domainsForAddress :: "string \<Rightarrow> int \<Rightarrow> addr \<Rightarrow> dns_state \<Rightarrow> string list \<times> dns_state" where
  "domainsForAddress scope now address0 st =
     (let a = Unmap address0; records = alist_get (dnsReverse st) a in
      if length records = 0 then ([], st)
      else
        (let alive = filter (\<lambda>r. now < rv_expires r) records;
             domains = map rv_domain (filter (\<lambda>r. rv_scope r = scope) alive) in
         (domains, st\<lparr>dnsReverse :=
            (if length alive = 0 then AList.delete a (dnsReverse st) else AList.update a alive (dnsReverse st))\<rparr>)))"

text \<open>
  \<^verbatim>\<open>lookupIPs\<close> without DoH: \<open>lookup\<close> stands for the system resolver, \<open>Inl\<close> its error.
\<close>

definition lookupIPs_system ::
  "nat \<Rightarrow> int \<Rightarrow> string \<Rightarrow> (string \<Rightarrow> 'e + bytes list) \<Rightarrow> string \<Rightarrow> dns_state \<Rightarrow> ('e + bytes list) \<times> dns_state" where
  "lookupIPs_system pick now scope lookup host st =
     (let cacheKey = scope @ cache_domain host in
      case map_of (dnsCache st) cacheKey of
        Some cached \<Rightarrow>
          (if now < ce_expires cached then (Inr (ce_ips cached), st)
           else (case lookup host of
                   Inl e \<Rightarrow> (Inl e, st)
                 | Inr ips \<Rightarrow> (Inr ips, st\<lparr>dnsCache := AList.update cacheKey \<lparr>ce_ips = ips, ce_expires = now + minute\<rparr>
                       (make_room pick (\<lambda>c. ce_expires c < now) (dnsCache st))\<rparr>)))
      | None \<Rightarrow>
          (case lookup host of
             Inl e \<Rightarrow> (Inl e, st)
           | Inr ips \<Rightarrow> (Inr ips, st\<lparr>dnsCache := AList.update cacheKey \<lparr>ce_ips = ips, ce_expires = now + minute\<rparr>
                 (make_room pick (\<lambda>c. ce_expires c < now) (dnsCache st))\<rparr>)))"

section \<open>Message cache\<close>

datatype exchange_error = UnknownOutboundDNS string | InvalidDNSQuestion | ParseServer | QueryFailed | Canceled

text \<open>
  \<^verbatim>\<open>dohHTTPClient\<close>: the pooled client is kept while the scope is the same; otherwise the old one
  is cancelled and a new one made, if the target is a known outbound or the direct default.
\<close>

definition dohHTTPClient :: "string \<Rightarrow> string \<Rightarrow> bool \<Rightarrow> dns_state \<Rightarrow> exchange_error option \<times> dns_state" where
  "dohHTTPClient scope target known st =
     (if dohClient st = Some scope then (None, st)
      else if \<not> known \<and> target \<noteq> ''direct'' then (Some (UnknownOutboundDNS target), st\<lparr>dohClient := None\<rparr>)
      else (None, st\<lparr>dohClient := Some scope\<rparr>))"

definition InvalidateDNSConnections :: "dns_state \<Rightarrow> dns_state" where
  "InvalidateDNSConnections st = st\<lparr>dohClient := None\<rparr>"

text \<open>
  The first critical section of \<^verbatim>\<open>exchangeDoHCached\<close>: an unexpired cached message is aged, a
  query that is already in flight is waited for, any other query is marked in flight.
\<close>

datatype begin_result = Hit bytes | Wait string | Fetch string

definition exchange_begin :: "string \<Rightarrow> int \<Rightarrow> bytes \<Rightarrow> dns_state \<Rightarrow> (exchange_error, begin_result \<times> dns_state) go" where
  "exchange_begin scope now query st =
     (let wireKey = dnsMessageKey query in
      if wireKey = [] then Err InvalidDNSQuestion
      else
        (let key = scope @ string_of_bytes wireKey in
         case map_of (dnsMessages st) key of
           Some cached \<Rightarrow>
             (if now < me_expires cached then
                gtry (ageDNSResponse (me_response cached) query (now - me_storedAt cached)) (\<lambda>_. Err InvalidDNSQuestion)
                  (\<lambda>response. Ret (Hit response, st))
              else if key \<in> set (dnsFlights st) then Ret (Wait key, st)
              else Ret (Fetch key, st\<lparr>dnsFlights := key # dnsFlights st\<rparr>))
         | None \<Rightarrow>
             (if key \<in> set (dnsFlights st) then Ret (Wait key, st)
              else Ret (Fetch key, st\<lparr>dnsFlights := key # dnsFlights st\<rparr>))))"

text \<open>
  The second critical section, after the HTTP exchange: \<open>reply\<close> is its outcome, \<open>now\<close> the time
  of the first section and \<open>now'\<close> the time the answer is stored. The result is what the waiting
  calls share: the stored response with the transaction id cleared.
\<close>

definition exchange_finish ::
  "nat \<Rightarrow> int \<Rightarrow> int \<Rightarrow> string \<Rightarrow> exchange_error + bytes \<Rightarrow> dns_state \<Rightarrow>
   (dns_error, bytes \<times> dns_state) go" where
  "exchange_finish pick now now' key reply st =
     (let response = (case reply of Inl _ \<Rightarrow> [] | Inr r \<Rightarrow> r); stored = dnsResponseForQuery response [] in
      gbind (dnsResponseCacheTTL response) (\<lambda>t.
      gbind (dnsResponseCacheable response) (\<lambda>cacheable.
        let st1 = (if (case reply of Inl _ \<Rightarrow> False | Inr _ \<Rightarrow> True) \<and> 0 < t \<and> cacheable
          then st\<lparr>dnsMessages := AList.update key \<lparr>me_response = stored, me_expires = now' + t, me_storedAt = now'\<rparr>
                 (make_room pick (\<lambda>e. me_expires e < now) (dnsMessages st)),
               dnsPersistDirty := True\<rparr>
          else st) in
        Ret (stored, st1\<lparr>dnsFlights := removeAll key (dnsFlights st1)\<rparr>))))"

section \<open>Persistence\<close>

record persistedDNSCacheEntry =
  pe_Key :: bytes
  pe_Response :: bytes
  pe_Expires :: int
  pe_StoredAt :: int

record persistedDNSCache =
  pd_Version :: int
  pd_Entries :: "persistedDNSCacheEntry list"

abbreviation dnsCacheVersion :: int where "dnsCacheVersion \<equiv> 2"

abbreviation milli :: int where "milli \<equiv> 1000000"

definition UnixMilli :: "int \<Rightarrow> int" where
  "UnixMilli t = t div milli"

definition persist_document :: "int \<Rightarrow> dns_state \<Rightarrow> persistedDNSCache" where
  "persist_document now st =
     \<lparr>pd_Version = dnsCacheVersion,
      pd_Entries = map (\<lambda>(key, e). \<lparr>pe_Key = bytes_of_string key, pe_Response = me_response e,
          pe_Expires = UnixMilli (me_expires e), pe_StoredAt = UnixMilli (me_storedAt e)\<rparr>)
        (filter (\<lambda>(key, e). now < me_expires e) (dnsMessages st))\<rparr>"

text \<open>
  \<^verbatim>\<open>persistDNSCache\<close>: the document it writes, if any, and the state after it; \<open>writeOK\<close> is false
  when marshalling, protecting, creating the directory, writing or renaming fails.
\<close>

definition persistDNSCache :: "string \<Rightarrow> int \<Rightarrow> bool \<Rightarrow> dns_state \<Rightarrow> persistedDNSCache option \<times> dns_state" where
  "persistDNSCache path now writeOK st =
     (if \<not> dnsPersistDirty st \<or> path = [] then (None, st)
      else if writeOK then (Some (persist_document now st), st\<lparr>dnsPersistDirty := False\<rparr>)
      else (None, st\<lparr>dnsPersistDirty := True\<rparr>))"

text \<open>The body of the loop of \<^verbatim>\<open>loadDNSCache\<close> over the entries of the decoded document.\<close>

definition load_entry :: "int \<Rightarrow> persistedDNSCacheEntry \<Rightarrow> (string \<times> dnsMessageCacheEntry) list \<Rightarrow>
    (dns_error, (string \<times> dnsMessageCacheEntry) list) go" where
  "load_entry now e m =
     gbind (dnsResponseCacheable (pe_Response e)) (\<lambda>cacheable.
       if 4096 \<le> length m \<or> length (pe_Key e) < 76 \<or> \<not> cacheable then Ret m
       else
         (let expires = pe_Expires e * milli; storedAt = pe_StoredAt e * milli in
          gbind (dnsResponseCacheTTL (pe_Response e)) (\<lambda>t.
            if t \<le> 0 \<or> now < storedAt \<or> expires \<le> now \<or> storedAt + t < expires then Ret m
            else gbind (slc (pe_Key e) 0 64) (\<lambda>scope.
              if hex_decode (string_of_bytes scope) = None then Ret m
              else gbind (slc (pe_Key e) 64 (length (pe_Key e))) (\<lambda>wire.
                if dnsMessageKey wire \<noteq> wire then Ret m
                else Ret (AList.update (string_of_bytes (pe_Key e))
                  \<lparr>me_response = dnsResponseForQuery (pe_Response e) [], me_expires = expires, me_storedAt = storedAt\<rparr> m))))))"

fun load_loop :: "int \<Rightarrow> persistedDNSCacheEntry list \<Rightarrow> (string \<times> dnsMessageCacheEntry) list \<Rightarrow>
    (dns_error, (string \<times> dnsMessageCacheEntry) list) go" where
  "load_loop now [] m = Ret m"
| "load_loop now (e # es) m = gbind (load_entry now e m) (\<lambda>m'. load_loop now es m')"

text \<open>
  \<^verbatim>\<open>loadDNSCache\<close>: \<open>file\<close> is the file contents, \<open>unprotect\<close> decrypts what follows the magic and
  \<open>decode\<close> is \<^verbatim>\<open>json.Unmarshal\<close> into the document.
\<close>

definition dnsCacheMagic :: bytes where
  "dnsCacheMagic = bytes_of_string ''HDC1''"

definition read_document :: "(bytes \<Rightarrow> bytes option) \<Rightarrow> (bytes \<Rightarrow> persistedDNSCache option) \<Rightarrow> bytes option \<Rightarrow> persistedDNSCache option" where
  "read_document unprotect decode file =
     (case file of
        None \<Rightarrow> None
      | Some data \<Rightarrow>
          (if length data \<le> length dnsCacheMagic \<or> take (length dnsCacheMagic) data \<noteq> dnsCacheMagic then None
           else case unprotect (drop (length dnsCacheMagic) data) of
             None \<Rightarrow> None
           | Some plaintext \<Rightarrow>
               (case decode plaintext of
                  None \<Rightarrow> None
                | Some document \<Rightarrow> if pd_Version document \<noteq> dnsCacheVersion then None else Some document)))"

definition loadDNSCache :: "(bytes \<Rightarrow> bytes option) \<Rightarrow> (bytes \<Rightarrow> persistedDNSCache option) \<Rightarrow> int \<Rightarrow> bytes option \<Rightarrow>
    dns_state \<Rightarrow> (dns_error, dns_state) go" where
  "loadDNSCache unprotect decode now file st =
     (case read_document unprotect decode file of
        None \<Rightarrow> Ret st
      | Some document \<Rightarrow> gbind (load_loop now (pd_Entries document) (dnsMessages st)) (\<lambda>m. Ret (st\<lparr>dnsMessages := m\<rparr>)))"

section \<open>Bounded maps keep their bound\<close>

text \<open>
  The contract of a capacity-bounded cache: before an insertion the cache makes room; making room
  never adds entries and leaves the map below its capacity.
\<close>

locale bounded_map =
  fixes cap :: nat and room :: "(string \<times> 'v) list \<Rightarrow> (string \<times> 'v) list"
  assumes room_lt: "length m \<le> cap \<Longrightarrow> length (room m) < cap"
    and room_distinct: "distinct (map fst m) \<Longrightarrow> distinct (map fst (room m))"
    and room_sub: "set (room m) \<subseteq> set m"
begin

definition put :: "string \<Rightarrow> 'v \<Rightarrow> (string \<times> 'v) list \<Rightarrow> (string \<times> 'v) list" where
  "put k v m = AList.update k v (room m)"

lemma put_len: "length m \<le> cap \<Longrightarrow> length (put k v m) \<le> cap"
proof -
  have "length (AList.update k v xs) \<le> Suc (length xs)" for xs :: "(string \<times> 'v) list"
    by (induction xs) auto
  from this [of "room m"] room_lt [of m] show "length m \<le> cap \<Longrightarrow> length (put k v m) \<le> cap"
    by (simp add: put_def)
qed

lemma put_distinct: "distinct (map fst m) \<Longrightarrow> distinct (map fst (put k v m))"
  by (simp add: put_def distinct_update room_distinct)

lemma put_entries: "set (put k v m) \<subseteq> insert (k, v) (set m)"
proof -
  have "set (AList.update k v xs) \<subseteq> insert (k, v) (set xs)" for xs :: "(string \<times> 'v) list"
    by (induction xs) auto
  with room_sub [of m] show ?thesis unfolding put_def by blast
qed

lemma put_get: "map_of (put k v m) k = Some v"
  by (simp add: put_def update_conv')

end

lemma evict_one_len: "m \<noteq> [] \<Longrightarrow> length (evict_one pick m) = length m - 1"
proof -
  assume "m \<noteq> []"
  then have "pick mod length m < length m" by simp
  then show ?thesis unfolding evict_one_def by simp
qed

lemma evict_one_sub: "set (evict_one pick m) \<subseteq> set m"
  by (auto simp: evict_one_def dest: in_set_takeD in_set_dropD)

lemma evict_one_distinct: "distinct (map fst m) \<Longrightarrow> distinct (map fst (evict_one pick m))"
proof -
  let ?i = "pick mod length m" and ?ks = "map fst m"
  assume "distinct ?ks"
  then have "distinct (take ?i ?ks @ drop ?i ?ks)" by simp
  then have "distinct (take ?i ?ks @ drop (Suc ?i) ?ks)"
    using set_drop_subset_set_drop [of ?i "Suc ?i" ?ks] distinct_drop [OF \<open>distinct ?ks\<close>, of "Suc ?i"]
    by (auto simp del: append_take_drop_id)
  then show ?thesis by (simp add: evict_one_def take_map drop_map)
qed

interpretation room: bounded_map 4096 "make_room pick expired" for pick expired
proof
  fix m :: "(string \<times> 'a) list"
  show "length m \<le> 4096 \<Longrightarrow> length (make_room pick expired m) < 4096"
  proof -
    assume m: "length m \<le> 4096"
    let ?f = "filter (\<lambda>(k, v). \<not> expired v) m"
    have f: "length ?f \<le> 4096" using length_filter_le [of _ m] m by (rule order_trans)
    show "length (make_room pick expired m) < 4096"
    proof (cases "4096 \<le> length m \<and> 4096 \<le> length ?f")
      case True
      then have "?f \<noteq> []" by auto
      with True f show ?thesis by (simp add: make_room_def Let_def evict_one_len)
    qed (auto simp: make_room_def Let_def)
  qed
  show "distinct (map fst m) \<Longrightarrow> distinct (map fst (make_room pick expired m))"
    by (simp add: make_room_def Let_def evict_one_distinct distinct_map_filter)
  show "set (make_room pick expired m) \<subseteq> set m"
    using evict_one_sub [of pick "filter (\<lambda>(k, v). \<not> expired v) m"] by (auto simp: make_room_def Let_def)
qed

definition evict_full :: "nat \<Rightarrow> (string \<times> 'v) list \<Rightarrow> (string \<times> 'v) list" where
  "evict_full pick m = (if 4096 \<le> length m then evict_one pick m else m)"

interpretation full: bounded_map 4096 "evict_full pick" for pick
proof
  fix m :: "(string \<times> 'a) list"
  show "length m \<le> 4096 \<Longrightarrow> length (evict_full pick m) < 4096"
    using evict_one_len [of m pick] by (cases "m = []") (auto simp: evict_full_def)
  show "distinct (map fst m) \<Longrightarrow> distinct (map fst (evict_full pick m))"
    by (simp add: evict_full_def evict_one_distinct)
  show "set (evict_full pick m) \<subseteq> set m"
    using evict_one_sub by (auto simp: evict_full_def)
qed

section \<open>The invariant of the caches\<close>

text \<open>
  A cached message is a response with its id cleared that is kept no longer than its own
  lifetime, and reverse entries are at most eight per address.
\<close>

definition msg_ok :: "dnsMessageCacheEntry \<Rightarrow> bool" where
  "msg_ok e \<longleftrightarrow> (\<exists>resp t. me_response e = dnsResponseForQuery resp [] \<and> dnsResponseCacheTTL resp = Ret t \<and>
     0 < t \<and> t \<le> 10 * minute \<and> me_expires e \<le> me_storedAt e + t)"

definition dns_ok :: "dns_state \<Rightarrow> bool" where
  "dns_ok st \<longleftrightarrow> length (dnsCache st) \<le> 4096 \<and> distinct (map fst (dnsCache st)) \<and>
     length (dnsMessages st) \<le> 4096 \<and> distinct (map fst (dnsMessages st)) \<and>
     (\<forall>(k, e)\<in>set (dnsMessages st). msg_ok e) \<and>
     distinct (map fst (dnsReverse st)) \<and> (\<forall>(a, rs)\<in>set (dnsReverse st). length rs \<le> 8) \<and>
     distinct (dnsFlights st)"

lemma update_entries: "set (AList.update k v xs) \<subseteq> insert (k, v) (set xs)"
  by (induction xs) auto

lemma update_all: "\<forall>(k, v)\<in>set m. P v \<Longrightarrow> P v' \<Longrightarrow> \<forall>(k, v)\<in>set (AList.update k' v' m). P v"
  using update_entries [of k' v' m] by blast

lemma keep_records_len: "length records < 8 \<Longrightarrow> length (keep_records d s now records rs) \<le> 8"
  by (induction d s now records rs rule: keep_records.induct) (auto simp: Let_def)

definition rev_ok :: "(addr \<times> dnsReverseEntry list) list \<Rightarrow> bool" where
  "rev_ok rmap \<longleftrightarrow> distinct (map fst rmap) \<and> (\<forall>(a, rs)\<in>set rmap. length rs \<le> 8)"

lemma rev_ok_update: "rev_ok m \<Longrightarrow> length rs \<le> 8 \<Longrightarrow> rev_ok (AList.update a rs m)"
  using update_all [of m "\<lambda>rs. length rs \<le> 8" rs a] by (simp add: rev_ok_def distinct_update)

lemma rev_ok_delete: "rev_ok m \<Longrightarrow> rev_ok (AList.delete a m)"
  by (auto simp: rev_ok_def AList.delete_eq distinct_map_filter)

lemma rev_ok_prune: "rev_ok m \<Longrightarrow> rev_ok (prune_reverse now m)"
proof -
  have 1: "map fst (map (\<lambda>(a, rs). (a, filter P rs)) m) = map fst m" for P :: "dnsReverseEntry \<Rightarrow> bool" by auto
  assume "rev_ok m"
  then show ?thesis
    unfolding rev_ok_def prune_reverse_def
    by (intro conjI distinct_map_filter) (auto simp only: 1, fastforce intro: order_trans [OF length_filter_le])
qed

lemma remember_loop_rev:
  "rev_ok rmap \<Longrightarrow> remember_loop d s now t answers ips ex rmap = (ips', ex', rmap') \<Longrightarrow> rev_ok rmap'"
proof (induction d s now t answers ips ex rmap rule: remember_loop.induct)
  case (2 d s now t a as ips ex rmap)
  then show ?case
    using rev_ok_update [OF "2.prems"(1)] keep_records_len [of "[x]" for x]
    by (auto simp: Let_def split: if_splits)
qed simp

lemma alist_get_mem: "alist_get m k \<noteq> [] \<Longrightarrow> (k, alist_get m k) \<in> set m"
  by (auto simp: alist_get_def map_of_SomeD split: option.splits)

lemma dns_ok_alt:
  "dns_ok st \<longleftrightarrow> length (dnsCache st) \<le> 4096 \<and> distinct (map fst (dnsCache st)) \<and>
     length (dnsMessages st) \<le> 4096 \<and> distinct (map fst (dnsMessages st)) \<and>
     (\<forall>(k, e)\<in>set (dnsMessages st). msg_ok e) \<and> rev_ok (dnsReverse st) \<and> distinct (dnsFlights st)"
  by (auto simp: dns_ok_def rev_ok_def)

lemma rememberDNSResponseScoped_np: "rememberDNSResponseScoped pick now q r scope st \<noteq> Panic"
  by (auto simp: rememberDNSResponseScoped_def Let_def split: prod.splits)

lemma remember_store_ok:
  assumes ok: "dns_ok st"
  shows "dns_ok (remember_store pick now dm scope t answers st)"
proof -
  obtain ips ex rmap where l: "remember_loop dm scope now t answers [] (now + 10 * minute) (dnsReverse st) = (ips, ex, rmap)"
    by (metis prod_cases3)
  have rv: "rev_ok rmap" using remember_loop_rev [OF _ l] ok by (simp add: dns_ok_alt)
  have "remember_store pick now dm scope t answers st =
      st\<lparr>dnsCache := (if 0 < length ips then full.put pick (scope @ dm) \<lparr>ce_ips = ips, ce_expires = ex\<rparr> (dnsCache st)
          else dnsCache st),
        dnsReverse := (if 8192 < length rmap then prune_reverse now rmap else rmap)\<rparr>"
    unfolding remember_store_def l full.put_def evict_full_def by simp
  with ok rv show ?thesis by (auto simp: dns_ok_alt rev_ok_prune full.put_len full.put_distinct)
qed

lemma rememberDNSResponseScoped_ok:
  "dns_ok st \<Longrightarrow> rememberDNSResponseScoped pick now q resp scope st = Ret st' \<Longrightarrow> dns_ok st'"
  by (auto simp: rememberDNSResponseScoped_def Let_def remember_store_ok split: if_splits)

lemma domainsForAddress_ok: "dns_ok st \<Longrightarrow> dns_ok (snd (domainsForAddress scope now a st))"
proof -
  assume ok: "dns_ok st"
  then have rv: "rev_ok (dnsReverse st)" by (simp add: dns_ok_alt)
  let ?rs = "alist_get (dnsReverse st) (Unmap a)"
  have "length ?rs \<le> 8"
    using alist_get_mem [of "dnsReverse st" "Unmap a"] rv by (cases "?rs = []") (auto simp: rev_ok_def)
  then have "length (filter (\<lambda>r. now < rv_expires r) ?rs) \<le> 8" using length_filter_le [of _ ?rs] by (rule order_trans [rotated])
  with ok rv show ?thesis
    by (auto simp: domainsForAddress_def Let_def dns_ok_alt rev_ok_update rev_ok_delete)
qed

lemma lookupIPs_system_ok: "dns_ok st \<Longrightarrow> dns_ok (snd (lookupIPs_system pick now scope lookup host st))"
  using room.put_len [of "dnsCache st" pick "\<lambda>c. ce_expires c < now"]
    room.put_distinct [of "dnsCache st" pick "\<lambda>c. ce_expires c < now"]
  by (auto simp: lookupIPs_system_def Let_def dns_ok_alt room.put_def split: option.splits sum.splits)

lemma exchange_begin_ok:
  "dns_ok st \<Longrightarrow> exchange_begin scope now q st = Ret (res, st') \<Longrightarrow> dns_ok st'"
  by (auto simp: exchange_begin_def Let_def dns_ok_alt split: option.splits if_splits)

lemma msg_ok_new:
  assumes "dnsResponseCacheTTL resp = Ret t" "0 < t"
  shows "msg_ok \<lparr>me_response = dnsResponseForQuery resp [], me_expires = x + t, me_storedAt = x\<rparr>"
proof -
  from assms have "t \<le> 10 * minute" by (elim dnsResponseCacheTTL_cases) auto
  with assms show ?thesis unfolding msg_ok_def by auto
qed

lemma put_msgs_ok:
  assumes "length m \<le> 4096" "distinct (map fst m)" "\<forall>(k, e)\<in>set m. msg_ok e" "msg_ok e"
  shows "length (room.put pick expired k e m) \<le> 4096 \<and> distinct (map fst (room.put pick expired k e m)) \<and>
    (\<forall>(k, e)\<in>set (room.put pick expired k e m). msg_ok e)"
  using assms room.put_entries [of pick expired k e m] by (auto simp: room.put_len room.put_distinct)

lemma exchange_finish_ok:
  assumes ok: "dns_ok st" and f: "exchange_finish pick now now' key reply st = Ret (x, st')"
  shows "dns_ok st'"
proof -
  from f obtain resp t where t: "dnsResponseCacheTTL resp = Ret t" and
    st': "st' = st\<lparr>dnsFlights := removeAll key (dnsFlights st)\<rparr> \<or> 0 < t \<and>
      st' = st\<lparr>dnsMessages := room.put pick (\<lambda>e. me_expires e < now) key
          \<lparr>me_response = dnsResponseForQuery resp [], me_expires = now' + t, me_storedAt = now'\<rparr> (dnsMessages st),
        dnsPersistDirty := True, dnsFlights := removeAll key (dnsFlights st)\<rparr>"
    by (auto simp: exchange_finish_def Let_def room.put_def split: if_splits)
  from st' show ?thesis
  proof
    assume "st' = st\<lparr>dnsFlights := removeAll key (dnsFlights st)\<rparr>"
    with ok show ?thesis by (simp add: dns_ok_alt distinct_removeAll)
  next
    assume a: "0 < t \<and> st' = st\<lparr>dnsMessages := room.put pick (\<lambda>e. me_expires e < now) key
          \<lparr>me_response = dnsResponseForQuery resp [], me_expires = now' + t, me_storedAt = now'\<rparr> (dnsMessages st),
        dnsPersistDirty := True, dnsFlights := removeAll key (dnsFlights st)\<rparr>"
    with ok put_msgs_ok [OF _ _ _ msg_ok_new [OF t], of "dnsMessages st" pick "\<lambda>e. me_expires e < now" key now'] show ?thesis
      by (simp add: dns_ok_alt distinct_removeAll)
  qed
qed

lemma load_entry_cases:
  assumes "load_entry now e m = Ret m'"
  shows "m' = m \<or> (\<exists>t. length m < 4096 \<and> dnsResponseCacheTTL (pe_Response e) = Ret t \<and> 0 < t \<and>
     now < pe_Expires e * milli \<and> pe_Expires e * milli \<le> pe_StoredAt e * milli + t \<and>
     m' = AList.update (string_of_bytes (pe_Key e)) \<lparr>me_response = dnsResponseForQuery (pe_Response e) [],
       me_expires = pe_Expires e * milli, me_storedAt = pe_StoredAt e * milli\<rparr> m)"
  using assms by (auto simp: load_entry_def Let_def split: if_splits)

definition msgs_ok :: "(string \<times> dnsMessageCacheEntry) list \<Rightarrow> bool" where
  "msgs_ok m \<longleftrightarrow> length m \<le> 4096 \<and> distinct (map fst m) \<and> (\<forall>(k, e)\<in>set m. msg_ok e)"

lemma load_entry_ok:
  assumes "msgs_ok m" "load_entry now e m = Ret m'"
  shows "msgs_ok m'"
  using load_entry_cases [OF assms(2)]
proof (elim disjE exE conjE)
  fix t
  assume t: "length m < 4096" "dnsResponseCacheTTL (pe_Response e) = Ret t" "0 < t"
    "pe_Expires e * milli \<le> pe_StoredAt e * milli + t"
    and m': "m' = AList.update (string_of_bytes (pe_Key e)) \<lparr>me_response = dnsResponseForQuery (pe_Response e) [],
       me_expires = pe_Expires e * milli, me_storedAt = pe_StoredAt e * milli\<rparr> m"
  have "t \<le> 10 * minute" using t(2,3) by (elim dnsResponseCacheTTL_cases) auto
  with t have new: "msg_ok \<lparr>me_response = dnsResponseForQuery (pe_Response e) [],
       me_expires = pe_Expires e * milli, me_storedAt = pe_StoredAt e * milli\<rparr>"
    unfolding msg_ok_def by auto
  have "length (AList.update k v m) \<le> Suc (length m)" for k and v :: dnsMessageCacheEntry
    by (induction m) auto
  then have "length m' \<le> Suc (length m)" unfolding m' .
  with t(1) have "length m' \<le> 4096" by simp
  with assms(1) update_all [of m msg_ok, OF _ new, of "string_of_bytes (pe_Key e)"] show ?thesis
    by (simp add: m' msgs_ok_def distinct_update)
qed (use assms(1) in simp)

lemma load_loop_ok: "msgs_ok m \<Longrightarrow> load_loop now es m = Ret m' \<Longrightarrow> msgs_ok m'"
  by (induction es arbitrary: m) (auto dest: load_entry_ok)

lemma load_entry_np: "load_entry now e m \<noteq> Panic"
  by (auto simp: load_entry_def Let_def)

lemma load_loop_np: "load_loop now es m \<noteq> Panic"
  by (induction es arbitrary: m) (auto simp: load_entry_np)

section \<open>Runs\<close>

text \<open>Every operation of the code on the DNS state, by any caller, at any time.\<close>

inductive dns_step :: "dns_state \<Rightarrow> dns_state \<Rightarrow> bool" where
  remember: "rememberDNSResponseScoped pick now q resp scope st = Ret st' \<Longrightarrow> dns_step st st'"
| domains: "dns_step st (snd (domainsForAddress scope now a st))"
| lookup: "dns_step st (snd (lookupIPs_system pick now scope (lk :: string \<Rightarrow> unit + bytes list) host st))"
| start: "exchange_begin scope now q st = Ret (res, st') \<Longrightarrow> dns_step st st'"
| finish: "exchange_finish pick now now' key reply st = Ret (x, st') \<Longrightarrow> dns_step st st'"
| load: "loadDNSCache unprotect decode now file st = Ret st' \<Longrightarrow> dns_step st st'"
| persist: "dns_step st (snd (persistDNSCache path now writeOK st))"
| client: "dns_step st (snd (dohHTTPClient scope target known st))"
| invalidate: "dns_step st (InvalidateDNSConnections st)"

inductive dns_reachable :: "dns_state \<Rightarrow> bool" where
  init: "dns_reachable new_dns_state"
| step: "dns_reachable st \<Longrightarrow> dns_step st st' \<Longrightarrow> dns_reachable st'"

lemma loadDNSCache_ok: "dns_ok st \<Longrightarrow> loadDNSCache u d now file st = Ret st' \<Longrightarrow> dns_ok st'"
proof -
  assume ok: "dns_ok st" and l: "loadDNSCache u d now file st = Ret st'"
  have msgs: "msgs_ok (dnsMessages st)" using ok by (simp add: dns_ok_alt msgs_ok_def)
  show ?thesis
  proof (cases "read_document u d file")
    case None
    with l ok show ?thesis by (simp add: loadDNSCache_def)
  next
    case (Some doc)
    show ?thesis
    proof (cases "load_loop now (pd_Entries doc) (dnsMessages st)")
      case (Ret m)
      with l Some have "st' = st\<lparr>dnsMessages := m\<rparr>" by (simp add: loadDNSCache_def)
      with load_loop_ok [OF msgs Ret] ok show ?thesis by (simp add: dns_ok_alt msgs_ok_def)
    qed (use l Some in \<open>simp_all add: loadDNSCache_def\<close>)
  qed
qed

lemma dns_step_ok: "dns_step st st' \<Longrightarrow> dns_ok st \<Longrightarrow> dns_ok st'"
proof (induction rule: dns_step.induct)
  case (persist st path now writeOK)
  then show ?case by (simp add: persistDNSCache_def dns_ok_alt)
next
  case (client st scope target known)
  then show ?case by (simp add: dohHTTPClient_def dns_ok_alt)
next
  case (invalidate st)
  then show ?case by (simp add: InvalidateDNSConnections_def dns_ok_alt)
qed (blast intro: rememberDNSResponseScoped_ok domainsForAddress_ok lookupIPs_system_ok exchange_begin_ok
    exchange_finish_ok loadDNSCache_ok)+

lemma reachable_dns_ok: "dns_reachable st \<Longrightarrow> dns_ok st"
proof (induction rule: dns_reachable.induct)
  case init
  then show ?case by (simp add: new_dns_state_def dns_ok_alt rev_ok_def)
qed (rule dns_step_ok)

lemma age_id:
  assumes "ageDNSResponse r q e = Ret a" "a \<noteq> []" "2 \<le> length q" "12 \<le> length r"
  shows "length a = length r \<and> take 2 a = take 2 q"
proof -
  let ?c = "dnsResponseForQuery r q"
  from assms(1,2) obtain rs where rs: "walkDNSRecords ?c = Ret rs" "age_loop (elapsed_seconds e) rs ?c = Ret a"
    by (auto simp: ageDNSResponse_def Let_def)
  from age_loop_aged [OF walkDNSRecords_ok [OF rs(1)], of "elapsed_seconds e"] rs(2)
  have aged: "aged (elapsed_seconds e) rs ?c a" by simp
  have off: "r' \<in> set rs \<Longrightarrow> 12 \<le> ttlOffset r'" for r'
    using walkDNSRecords_ok [OF rs(1)] by (auto simp: records_ok_def list_all_iff record_in_def)
  have "a ! i = ?c ! i" if "i < 2" for i
  proof -
    have "\<forall>r'\<in>set rs. rtyp r' \<noteq> 41 \<longrightarrow> i < ttlOffset r' \<or> ttlOffset r' + 4 \<le> i" using off that by fastforce
    with aged show ?thesis by (simp add: aged_def)
  qed
  moreover have len: "length a = length r" using aged by (simp add: aged_def)
  ultimately have "take 2 a = take 2 ?c" using assms(4) by (intro nth_equalityI) auto
  with len dnsResponseForQuery_id [OF _ assms(3), of r] assms(4) show ?thesis by simp
qed

section \<open>Properties\<close>




definition query_example :: bytes where
  "query_example = [7, 9, 1, 0, 0, 0, 0, 0, 0, 0, 0, 0]"

definition hit_example :: bytes where
  "hit_example = [7, 9, 0x81, 0x80, 0, 0, 0, 1, 0, 0, 0, 0, 0, 0, 1, 0, 1, 0, 0, 0, 50, 0, 4, 1, 2, 3, 4]"

definition entry_example :: dnsMessageCacheEntry where
  "entry_example = \<lparr>me_response = wire_example, me_expires = 60 * second, me_storedAt = 0\<rparr>"

definition cached_example :: dns_state where
  "cached_example = new_dns_state\<lparr>dnsMessages := [(''s'' @ string_of_bytes (dnsMessageKey query_example), entry_example)],
     dnsPersistDirty := True\<rparr>"

lemma cached_example_reachable: "dns_reachable cached_example"
proof -
  have t: "dnsResponseCacheTTL wire_example = Ret (60 * second)" and c: "dnsResponseCacheable wire_example = Ret True"
    by code_simp+
  have "dnsResponseForQuery wire_example [] = wire_example"
    by (simp add: dnsResponseForQuery_def wire_example_def)
  then have "exchange_finish 0 0 0 (''s'' @ string_of_bytes (dnsMessageKey query_example)) (Inr wire_example) new_dns_state
      = Ret (wire_example, cached_example)"
    by (simp add: exchange_finish_def t c cached_example_def entry_example_def new_dns_state_def make_room_def)
  then show ?thesis by (rule dns_reachable.step [OF dns_reachable.init dns_step.finish])
qed




end
