(* ===== verification/Ruleset_Set.thy ===== *)
theory Ruleset_Set
  imports Go_Net Json
begin

unbundle bit_operations_syntax

text \<open>
  The rule sets of \<^verbatim>\<open>hongda-core/ruleset/set.go\<close>: the array-based prefix trie, the matcher of a
  rule set and \<^verbatim>\<open>ParseSource\<close>, which builds one from a source-format document.

  Two contracts are proved: the trie is a set of bit strings (insertion adds one, membership
  asks for a stored prefix of the address), and a parsed rule set matches exactly the domains
  and addresses its document describes.
\<close>

section \<open>The prefix trie\<close>

text \<open>\<^verbatim>\<open>children [2]int\<close>: child index plus one, 0 for an absent child.\<close>

record prefixTrieNode =
  child0 :: nat
  child1 :: nat
  terminal :: bool

type_synonym prefixTrie = "prefixTrieNode list"

definition empty_node :: prefixTrieNode where
  "empty_node = \<lparr>child0 = 0, child1 = 0, terminal = False\<rparr>"

definition children :: "prefixTrieNode \<Rightarrow> bool \<Rightarrow> nat" where
  "children n b = (if b then child1 n else child0 n)"

definition set_child :: "prefixTrieNode \<Rightarrow> bool \<Rightarrow> nat \<Rightarrow> prefixTrieNode" where
  "set_child n b v = (if b then n\<lparr>child1 := v\<rparr> else n\<lparr>child0 := v\<rparr>)"

text \<open>\<^verbatim>\<open>int(address[bitIndex/8] >> (7 - uint(bitIndex%8)) & 1)\<close>, as a truth value.\<close>

definition bit_of :: "bytes \<Rightarrow> nat \<Rightarrow> ('e, bool) go" where
  "bit_of a i = gbind (idx a (i div 8)) (\<lambda>b. Ret (drop_bit (7 - i mod 8) b AND 1 = 1))"

text \<open>The loop of \<^verbatim>\<open>insert\<close>: \<open>k\<close> iterations are left, \<open>i\<close> is \<^verbatim>\<open>bitIndex\<close>.\<close>

fun insert_loop :: "nat \<Rightarrow> nat \<Rightarrow> bytes \<Rightarrow> nat \<Rightarrow> prefixTrie \<Rightarrow> ('e, nat \<times> prefixTrie) go" where
  "insert_loop 0 i address node t = Ret (node, t)"
| "insert_loop (Suc k) i address node t =
     gbind (bit_of address i) (\<lambda>b.
     gbind (idx t node) (\<lambda>n.
       if children n b = 0 then
         (let t' = t @ [empty_node]; next = length t' in
          insert_loop k (Suc i) address (next - 1) (t'[node := set_child n b next]))
       else insert_loop k (Suc i) address (children n b - 1) t))"

definition trie_insert :: "bytes \<Rightarrow> nat \<Rightarrow> prefixTrie \<Rightarrow> ('e, prefixTrie) go" where
  "trie_insert address bits t =
     (let t0 = (if length t = 0 then [empty_node] else t) in
      gbind (insert_loop bits 0 address 0 t0) (\<lambda>(node, t').
      gbind (idx t' node) (\<lambda>n. Ret (t'[node := n\<lparr>terminal := True\<rparr>]))))"

fun contains_loop :: "nat \<Rightarrow> nat \<Rightarrow> bytes \<Rightarrow> nat \<Rightarrow> prefixTrie \<Rightarrow> ('e, bool) go" where
  "contains_loop 0 i address node t = Ret False"
| "contains_loop (Suc k) i address node t =
     gbind (bit_of address i) (\<lambda>b.
     gbind (idx t node) (\<lambda>n.
       if children n b = 0 then Ret False
       else gbind (idx t (children n b - 1)) (\<lambda>n'.
         if terminal n' then Ret True
         else contains_loop k (Suc i) address (children n b - 1) t)))"

definition trie_contains :: "bytes \<Rightarrow> prefixTrie \<Rightarrow> ('e, bool) go" where
  "trie_contains address t =
     (if length t = 0 then Ret False
      else gbind (idx t 0) (\<lambda>n.
        if terminal n then Ret True else contains_loop (length address * 8) 0 address 0 t))"

section \<open>Rule sets\<close>

text \<open>
  A Go map to \<^verbatim>\<open>struct{}\<close> is the list of its keys; only membership is used. \<^verbatim>\<open>prefixCount\<close>
  counts the inserted prefixes.
\<close>

record ruleset =
  set_id :: string
  domains :: "string list"
  suffixes :: "string list"
  kwords :: "string list"
  ipv4 :: prefixTrie
  ipv6 :: prefixTrie
  prefixCount :: nat

definition NewEmpty :: "string \<Rightarrow> ruleset" where
  "NewEmpty i = \<lparr>set_id = i, domains = [], suffixes = [], kwords = [], ipv4 = [], ipv6 = [], prefixCount = 0\<rparr>"

definition normalizeDomain :: "string \<Rightarrow> string" where
  "normalizeDomain value = ToLower (TrimSuffix (TrimSpace value) ''.'')"

function suffix_loop :: "string list \<Rightarrow> string \<Rightarrow> bool" where
  "suffix_loop sfx part =
     (if part \<in> set sfx then True
      else (case IndexByte part (CHR ''.'') of
              None \<Rightarrow> False
            | Some dot \<Rightarrow> suffix_loop sfx (drop (dot + 1) part)))"
  by auto
termination
  by (relation "measure (\<lambda>(_, part). length part)") (auto simp: IndexByte_Some)

declare suffix_loop.simps [simp del]

definition MatchDomain :: "ruleset \<Rightarrow> string \<Rightarrow> bool" where
  "MatchDomain s host0 =
     (let host = normalizeDomain host0 in
      if host = [] then False
      else if host \<in> set (domains s) then True
      else if suffix_loop (suffixes s) host then True
      else list_ex (\<lambda>keyword. Contains host keyword) (kwords s))"

definition MatchIP :: "ruleset \<Rightarrow> addr \<Rightarrow> ('e, bool) go" where
  "MatchIP s address0 =
     (if address0 = AddrZero then Ret False
      else case Unmap address0 of
        Addr4 value \<Rightarrow> trie_contains value (ipv4 s)
      | a \<Rightarrow> trie_contains (As16 a) (ipv6 s))"

definition HasIPRules :: "ruleset \<Rightarrow> bool" where
  "HasIPRules s \<longleftrightarrow> 0 < prefixCount s"

section \<open>Parsing source-format documents\<close>

datatype ruleset_error =
    DecodeError | TrailingData | NoRules | RuleNotObject | UnsupportedField | UnsupportedType
  | UnsupportedInvert | BadDomain | BadSuffix | BadKeyword | BadCIDRList | BadCIDR | NoEntries

text \<open>
  The text handed to the decoder: the JSON values it reads one after the other and whether the
  text ends after them; if not, the next read is a syntax error.
\<close>

record json_text =
  text_values :: "json list"
  text_clean :: bool

text \<open>
  Decoding into \<^verbatim>\<open>sourceDocument\<close> with \<^verbatim>\<open>DisallowUnknownFields\<close>: keys are compared without
  case, the version must be an integer and the rules an array.
\<close>

fun decode_document :: "(string \<times> json) list \<Rightarrow> json list \<Rightarrow> json list option" where
  "decode_document [] rules = Some rules"
| "decode_document ((k, v) # kvs) rules =
     (if EqualFold k ''version'' then
        (case decode_int v of None \<Rightarrow> None | Some _ \<Rightarrow> decode_document kvs rules)
      else if EqualFold k ''rules'' then
        (case decode_list Some v of None \<Rightarrow> None | Some rs \<Rightarrow> decode_document kvs rs)
      else None)"

definition allowedRuleFields :: "string list" where
  "allowedRuleFields =
     [''type'', ''invert'', ''domain'', ''domain_suffix'', ''domain_keyword'', ''ip_cidr'']"

definition decodeStringList :: "json option \<Rightarrow> string list option" where
  "decodeStringList encoded =
     (case encoded of
        None \<Rightarrow> Some []
      | Some v \<Rightarrow>
          (if v = JNull then Some []
           else case decode_list decode_string v of
             Some values \<Rightarrow> Some values
           | None \<Rightarrow> (case decode_string v of
                 Some value \<Rightarrow> if value \<noteq> [] then Some [value] else None
               | None \<Rightarrow> None)))"

text \<open>The loops over the items of one rule.\<close>

definition add_domains :: "string list \<Rightarrow> ruleset \<Rightarrow> ruleset" where
  "add_domains items s =
     foldl (\<lambda>s item0. let item = normalizeDomain item0 in
       if item \<noteq> [] then s\<lparr>domains := List.insert item (domains s)\<rparr> else s) s items"

definition add_suffixes :: "string list \<Rightarrow> ruleset \<Rightarrow> ruleset" where
  "add_suffixes items s =
     foldl (\<lambda>s item0. let item = normalizeDomain (TrimPrefix item0 ''.'') in
       if item \<noteq> [] then s\<lparr>suffixes := List.insert item (suffixes s)\<rparr> else s) s items"

text \<open>\<^verbatim>\<open>keywordSeen\<close> holds exactly the keywords appended so far.\<close>

definition add_keywords :: "string list \<Rightarrow> ruleset \<Rightarrow> ruleset" where
  "add_keywords items s =
     foldl (\<lambda>s item0. let item = ToLower (TrimSpace item0) in
       if item \<noteq> [] \<and> item \<notin> set (kwords s) then s\<lparr>kwords := kwords s @ [item]\<rparr> else s) s items"

definition add_prefix :: "ip_prefix \<Rightarrow> ruleset \<Rightarrow> (ruleset_error, ruleset) go" where
  "add_prefix p s =
     (case fst p of
        Addr4 value \<Rightarrow> gbind (trie_insert value (snd p) (ipv4 s)) (\<lambda>t.
          Ret (s\<lparr>ipv4 := t, prefixCount := prefixCount s + 1\<rparr>))
      | a \<Rightarrow> gbind (trie_insert (As16 a) (snd p) (ipv6 s)) (\<lambda>t.
          Ret (s\<lparr>ipv6 := t, prefixCount := prefixCount s + 1\<rparr>)))"

fun add_prefixes :: "string list \<Rightarrow> ip_prefix list \<Rightarrow> ruleset \<Rightarrow> (ruleset_error, ip_prefix list \<times> ruleset) go" where
  "add_prefixes [] prefixSeen s = Ret (prefixSeen, s)"
| "add_prefixes (item # items) prefixSeen s =
     (case ParsePrefix (TrimSpace item) of
        None \<Rightarrow> Err BadCIDR
      | Some prefix0 \<Rightarrow>
          (let prefix = Masked prefix0 in
           if prefix \<in> set prefixSeen then add_prefixes items prefixSeen s
           else gbind (add_prefix prefix s) (\<lambda>s'. add_prefixes items (prefix # prefixSeen) s')))"

text \<open>The body of the loop over \<^verbatim>\<open>document.Rules\<close>.\<close>

definition parse_rule :: "json \<Rightarrow> ip_prefix list \<Rightarrow> ruleset \<Rightarrow> (ruleset_error, ip_prefix list \<times> ruleset) go" where
  "parse_rule encoded prefixSeen s =
     (case decode_raw_map encoded of
        None \<Rightarrow> Err RuleNotObject
      | Some kvs \<Rightarrow>
          (let raw = jmap kvs in
           if list_ex (\<lambda>(field, _). field \<notin> set allowedRuleFields) kvs then Err UnsupportedField
           else if (case raw ''type'' of
                      None \<Rightarrow> False
                    | Some v \<Rightarrow> (case decode_string v of
                          None \<Rightarrow> True
                        | Some ruleType \<Rightarrow> ruleType \<noteq> '''' \<and> ruleType \<noteq> ''default'')) then Err UnsupportedType
           else if (case raw ''invert'' of
                      None \<Rightarrow> False
                    | Some v \<Rightarrow> (case decode_bool v of None \<Rightarrow> True | Some invert \<Rightarrow> invert)) then Err UnsupportedInvert
           else case decodeStringList (raw ''domain'') of
             None \<Rightarrow> Err BadDomain
           | Some ds \<Rightarrow>
          (case decodeStringList (raw ''domain_suffix'') of
             None \<Rightarrow> Err BadSuffix
           | Some ss \<Rightarrow>
          (case decodeStringList (raw ''domain_keyword'') of
             None \<Rightarrow> Err BadKeyword
           | Some ks \<Rightarrow>
          (case decodeStringList (raw ''ip_cidr'') of
             None \<Rightarrow> Err BadCIDRList
           | Some ps \<Rightarrow> add_prefixes ps prefixSeen (add_keywords ks (add_suffixes ss (add_domains ds s))))))))"

fun parse_rules :: "json list \<Rightarrow> ip_prefix list \<Rightarrow> ruleset \<Rightarrow> (ruleset_error, ruleset) go" where
  "parse_rules [] prefixSeen s = Ret s"
| "parse_rules (r # rs) prefixSeen s =
     gbind (parse_rule r prefixSeen s) (\<lambda>(prefixSeen', s'). parse_rules rs prefixSeen' s')"

text \<open>
  \<^verbatim>\<open>sort.Slice\<close> leaves the order of keywords of equal length open; the model takes the stable
  order. The second \<^verbatim>\<open>Decode\<close> must report the end of the text.
\<close>

definition ParseSource :: "string \<Rightarrow> json_text \<Rightarrow> (ruleset_error, ruleset) go" where
  "ParseSource i data =
     (case text_values data of
        [] \<Rightarrow> Err DecodeError
      | v # rest \<Rightarrow>
          (case decode_raw_map v of
             None \<Rightarrow> Err DecodeError
           | Some kvs \<Rightarrow>
               (case decode_document kvs [] of
                  None \<Rightarrow> Err DecodeError
                | Some rules \<Rightarrow>
                    (if rest \<noteq> [] \<or> \<not> text_clean data then Err TrailingData
                     else if length rules = 0 then Err NoRules
                     else gbind (parse_rules rules [] (NewEmpty i)) (\<lambda>s.
                       if domains s = [] \<and> suffixes s = [] \<and> kwords s = [] \<and> prefixCount s = 0
                       then Err NoEntries
                       else Ret (s\<lparr>kwords := sort_key (\<lambda>k. - int (length k)) (kwords s)\<rparr>))))))"

section \<open>The trie is a set of bit strings\<close>

lemma bit_of_addr_bit: "i < 8 * length a \<Longrightarrow> bit_of a i = Ret (addr_bit a i)"
proof -
  assume i: "i < 8 * length a"
  have "(drop_bit n b AND 1 = (1 :: u8)) = bit b n" for b n
    by (simp add: and_one_eq mod_2_eq_odd bit_iff_odd_drop_bit)
  with i show ?thesis by (simp add: bit_of_def addr_bit_def)
qed

text \<open>
  Every node carries the bit string that leads to it: \<open>lab\<close> lists these labels. A child is
  present exactly when its label is, and labels are closed under prefixes.
\<close>

definition trie_ok :: "bool list list \<Rightarrow> prefixTrie \<Rightarrow> bool" where
  "trie_ok lab t \<longleftrightarrow> length lab = length t \<and> t \<noteq> [] \<and> lab ! 0 = [] \<and> distinct lab \<and>
     (\<forall>w b. w @ [b] \<in> set lab \<longrightarrow> w \<in> set lab) \<and>
     (\<forall>i<length t. \<forall>b. case children (t ! i) b of
        0 \<Rightarrow> lab ! i @ [b] \<notin> set lab
      | Suc j \<Rightarrow> j < length t \<and> lab ! j = lab ! i @ [b])"

definition trie_keys :: "bool list list \<Rightarrow> prefixTrie \<Rightarrow> bool list set" where
  "trie_keys lab t = (!) lab ` {j. j < length t \<and> terminal (t ! j)}"

lemma children_empty [simp]: "children empty_node b = 0" "terminal empty_node = False"
  by (simp_all add: children_def empty_node_def)

lemma children_set_child [simp]:
  "children (set_child n b v) c = (if c = b then v else children n c)"
  "terminal (set_child n b v) = terminal n"
  "children (n\<lparr>terminal := x\<rparr>) c = children n c"
  by (simp_all add: children_def set_child_def)

lemma trie_okD:
  assumes "trie_ok lab t" "i < length t"
  shows "children (t ! i) b = 0 \<Longrightarrow> lab ! i @ [b] \<notin> set lab"
    and "children (t ! i) b = Suc j \<Longrightarrow> j < length t \<and> lab ! j = lab ! i @ [b]"
  using assms by (auto simp: trie_ok_def dest!: spec [of _ i] spec [of _ b] split: nat.splits)

lemma trie_keys_nth:
  assumes "trie_ok lab t" "j < length t"
  shows "lab ! j \<in> trie_keys lab t \<longleftrightarrow> terminal (t ! j)"
  using assms by (auto simp: trie_keys_def trie_ok_def nth_eq_iff_index_eq)

text \<open>Appending a node below node \<open>i\<close> on the side \<open>b\<close>: the nodes, and the labels of their children.\<close>

definition new_child :: "prefixTrieNode list \<Rightarrow> nat \<Rightarrow> bool \<Rightarrow> prefixTrieNode list" where
  "new_child t i b = (t @ [empty_node])[i := set_child (t ! i) b (Suc (length t))]"

lemma new_child_nth:
  assumes "i < length t" "k < Suc (length t)"
  shows "new_child t i b ! k = (if k = i then set_child (t ! i) b (Suc (length t)) else if k < length t then t ! k else empty_node)"
  using assms by (auto simp: new_child_def nth_append)

lemma new_child_length [simp]: "length (new_child t i b) = Suc (length t)"
  by (simp add: new_child_def)

lemma new_child_kids:
  assumes ok: "trie_ok lab t" and i: "i < length t" and c: "children (t ! i) b = 0" and k: "k < Suc (length t)"
  defines "lab' \<equiv> lab @ [lab ! i @ [b]]"
  shows "case children (new_child t i b ! k) d of
      0 \<Rightarrow> lab' ! k @ [d] \<notin> set lab' | Suc j \<Rightarrow> j < Suc (length t) \<and> lab' ! j = lab' ! k @ [d]"
proof (cases "k < length t")
  case True
  have len: "length lab = length t" using ok by (simp add: trie_ok_def)
  have same: "lab ! k @ [d] = lab ! i @ [b] \<longleftrightarrow> k = i \<and> d = b"
    using ok True i len nth_eq_iff_index_eq [of lab k i] by (auto simp: trie_ok_def)
  show ?thesis
  proof (cases "k = i \<and> d = b")
    case at: True
    then have "children (new_child t i b ! k) d = Suc (length t)" using new_child_nth [OF i k] i by simp
    with at i len show ?thesis by (simp add: nth_append lab'_def)
  next
    case off: False
    then have kid: "children (new_child t i b ! k) d = children (t ! k) d" using new_child_nth [OF i k] True by auto
    have new: "lab' ! k = lab ! k" using True len by (simp add: nth_append lab'_def)
    show ?thesis
    proof (cases "children (t ! k) d")
      case 0
      with trie_okD(1) [OF ok True 0] off same show ?thesis unfolding kid new by (simp add: lab'_def)
    next
      case (Suc j)
      with trie_okD(2) [OF ok True Suc] len show ?thesis unfolding kid new by (simp add: nth_append lab'_def)
    qed
  qed
next
  case False
  have len: "length lab = length t" using ok by (simp add: trie_ok_def)
  have "lab ! i @ [b] \<notin> set lab" using trie_okD(1) [OF ok i c] .
  then have leaf: "(lab ! i @ [b]) @ [d] \<notin> set lab" using ok by (metis trie_ok_def)
  from False k have "k = length t" by simp
  then have "children (new_child t i b ! k) d = 0" "lab' ! k = lab ! i @ [b]"
    using new_child_nth [OF i k] i len by (simp_all add: nth_append lab'_def)
  then show ?thesis using leaf by (simp add: lab'_def)
qed

lemma trie_ok_new_child:
  assumes ok: "trie_ok lab t" and i: "i < length t" and c: "children (t ! i) b = 0"
  shows "trie_ok (lab @ [lab ! i @ [b]]) (new_child t i b) \<and> trie_keys (lab @ [lab ! i @ [b]]) (new_child t i b) = trie_keys lab t"
proof
  let ?w = "lab ! i @ [b]"
  have len: "length lab = length t" using ok by (simp add: trie_ok_def)
  have fresh: "?w \<notin> set lab" using trie_okD(1) [OF ok i c] .
  have "length (lab @ [?w]) = length (new_child t i b)" "new_child t i b \<noteq> []" "(lab @ [?w]) ! 0 = []" "distinct (lab @ [?w])"
    "\<forall>w b. w @ [b] \<in> set (lab @ [?w]) \<longrightarrow> w \<in> set (lab @ [?w])"
    using ok i fresh len by (auto simp: trie_ok_def new_child_def nth_append)
  with new_child_kids [OF ok i c] show "trie_ok (lab @ [?w]) (new_child t i b)" unfolding trie_ok_def new_child_length by blast
  have "{j. j < Suc (length t) \<and> terminal (new_child t i b ! j)} = {j. j < length t \<and> terminal (t ! j)}"
    using i new_child_nth [OF i] by (auto simp: less_Suc_eq split: if_splits)
  then show "trie_keys (lab @ [?w]) (new_child t i b) = trie_keys lab t"
    unfolding trie_keys_def using len by (simp add: nth_append)
qed

lemma insert_loop_ok:
  "trie_ok lab t \<Longrightarrow> node < length t \<Longrightarrow> lab ! node = take i (addr_bits a) \<Longrightarrow> i + k \<le> 8 * length a \<Longrightarrow>
   \<exists>node' t' lab'. insert_loop k i a node t = Ret (node', t') \<and> trie_ok lab' t' \<and> node' < length t' \<and>
     lab' ! node' = take (i + k) (addr_bits a) \<and> trie_keys lab' t' = trie_keys lab t"
proof (induction k arbitrary: i node t lab)
  case (Suc k)
  let ?b = "addr_bit a i"
  have i: "i < 8 * length a" using Suc.prems(4) by simp
  have ext: "take i (addr_bits a) @ [?b] = take (Suc i) (addr_bits a)"
    using i by (simp add: take_Suc_conv_app_nth)
  note step = bit_of_addr_bit [OF i]
  show ?case
  proof (cases "children (t ! node) ?b")
    case 0
    let ?t = "(t @ [empty_node])[node := set_child (t ! node) ?b (Suc (length t))]"
    let ?l = "lab @ [lab ! node @ [?b]]"
    have new: "trie_ok ?l ?t" "trie_keys ?l ?t = trie_keys lab t"
      using trie_ok_new_child [OF Suc.prems(1,2) 0] by (simp_all add: new_child_def)
    have "?l ! length t = take (Suc i) (addr_bits a)"
      using Suc.prems(1,3) ext by (simp add: trie_ok_def nth_append)
    from Suc.IH [OF new(1) _ this] Suc.prems(2,4) new(2) show ?thesis
      by (simp add: Let_def step 0)
  next
    case (Suc j)
    with trie_okD(2) [OF Suc.prems(1,2) Suc] Suc.prems(3) ext
    have "j < length t" "lab ! j = take (Suc i) (addr_bits a)" by simp_all
    from Suc.IH [OF Suc.prems(1) this] Suc.prems(2,4) show ?thesis by (simp add: step Suc)
  qed
qed auto

lemma trie_keys_mark:
  assumes "trie_ok lab t" "node < length t"
  defines "t' \<equiv> t[node := (t ! node)\<lparr>terminal := True\<rparr>]"
  shows "trie_ok lab t' \<and> trie_keys lab t' = insert (lab ! node) (trie_keys lab t)"
proof -
  have nth: "children (t' ! k) b = children (t ! k) b" for k b
    by (cases "k = node") (simp_all add: t'_def assms(2))
  have len: "length t' = length t" by (simp add: t'_def)
  then have "t' \<noteq> [] \<longleftrightarrow> t \<noteq> []" by auto
  then have "trie_ok lab t'" using assms(1) unfolding trie_ok_def len nth by simp
  moreover have "trie_keys lab t' = insert (lab ! node) (trie_keys lab t)"
    using assms(2) by (auto simp: trie_keys_def t'_def nth_list_update split: if_splits)
  ultimately show ?thesis by simp
qed

text \<open>The abstraction: a trie represents a set of bit strings; no nodes represent the empty set.\<close>

definition trie_abs :: "prefixTrie \<Rightarrow> bool list set \<Rightarrow> bool" where
  "trie_abs t K \<longleftrightarrow> (if t = [] then K = {} else \<exists>lab. trie_ok lab t \<and> K = trie_keys lab t)"

lemma trie_insert_abs:
  assumes "trie_abs t K" "bits \<le> 8 * length a"
  shows "\<exists>t'. (trie_insert a bits t :: ('e, prefixTrie) go) = Ret t' \<and> trie_abs t' (insert (take bits (addr_bits a)) K)"
proof -
  let ?t0 = "if length t = 0 then [empty_node] else t"
  have "trie_ok [[]] [empty_node]" by (auto simp: trie_ok_def)
  moreover have "trie_keys [[]] [empty_node] = {}" by (auto simp: trie_keys_def)
  ultimately obtain lab where lab: "trie_ok lab ?t0" "K = trie_keys lab ?t0"
    using assms(1) by (auto simp: trie_abs_def split: if_splits)
  then have "lab ! 0 = []" "0 < length ?t0" by (auto simp: trie_ok_def)
  then obtain node t' lab' where r: "(insert_loop bits 0 a 0 ?t0 :: ('e, nat \<times> prefixTrie) go) = Ret (node, t')" "trie_ok lab' t'"
    "node < length t'" "lab' ! node = take bits (addr_bits a)" "trie_keys lab' t' = K"
    using insert_loop_ok [OF lab(1), of 0 0 a bits] assms(2) lab(2) by auto
  have t': "t' \<noteq> []" using r(3) by auto
  have "(trie_insert a bits t :: ('e, prefixTrie) go) = Ret (t'[node := (t' ! node)\<lparr>terminal := True\<rparr>])"
    unfolding trie_insert_def Let_def r(1) using r(3) by simp
  with trie_keys_mark [OF r(2,3)] r(4,5) t' show ?thesis by (auto simp: trie_abs_def)
qed

lemma contains_loop_keys:
  "trie_ok lab t \<Longrightarrow> node < length t \<Longrightarrow> lab ! node = take i (addr_bits a) \<Longrightarrow> i + k = 8 * length a \<Longrightarrow>
   contains_loop k i a node t = Ret (\<exists>n. i < n \<and> n \<le> 8 * length a \<and> take n (addr_bits a) \<in> trie_keys lab t)"
proof (induction k arbitrary: i node)
  case (Suc k)
  let ?b = "addr_bit a i"
  have i: "i < 8 * length a" using Suc.prems(4) by simp
  have ext: "take i (addr_bits a) @ [?b] = take (Suc i) (addr_bits a)"
    using i by (simp add: take_Suc_conv_app_nth)
  note step = bit_of_addr_bit [OF i]
  have closed: "w \<in> set lab" if "w @ v \<in> set lab" for w v
    using that
  proof (induction v rule: rev_induct)
    case (snoc x v)
    then show ?case using Suc.prems(1) by (metis append.assoc trie_ok_def)
  qed simp
  have keys: "trie_keys lab t \<subseteq> set lab" using Suc.prems(1) by (auto simp: trie_keys_def trie_ok_def)
  have split: "(\<exists>n. i < n \<and> n \<le> 8 * length a \<and> take n (addr_bits a) \<in> K) \<longleftrightarrow>
     take (Suc i) (addr_bits a) \<in> K \<or> (\<exists>n. Suc i < n \<and> n \<le> 8 * length a \<and> take n (addr_bits a) \<in> K)" for K
    using i by (metis Suc_leI Suc_lessI lessI less_SucI order_less_trans)
  show ?case
  proof (cases "children (t ! node) ?b")
    case 0
    have "take n (addr_bits a) \<notin> trie_keys lab t" if "i < n" for n
    proof
      assume "take n (addr_bits a) \<in> trie_keys lab t"
      moreover have "take n (addr_bits a) = take (Suc i) (addr_bits a) @ drop (Suc i) (take n (addr_bits a))"
        using that by (metis append_take_drop_id min.absorb1 Suc_leI take_take)
      ultimately have "take (Suc i) (addr_bits a) \<in> set lab" using keys closed by (metis subsetD)
      with trie_okD(1) [OF Suc.prems(1,2) 0] Suc.prems(3) ext show False by simp
    qed
    with Suc.prems(2) show ?thesis by (auto simp: step 0)
  next
    case (Suc j)
    with trie_okD(2) [OF Suc.prems(1,2) Suc] Suc.prems(3) ext
    have j: "j < length t" "lab ! j = take (Suc i) (addr_bits a)" by simp_all
    have "terminal (t ! j) \<longleftrightarrow> take (Suc i) (addr_bits a) \<in> trie_keys lab t"
      using trie_keys_nth [OF Suc.prems(1) j(1)] j(2) by simp
    with Suc.IH [OF Suc.prems(1) j] Suc.prems(2,4) j(1) split [of "trie_keys lab t"] show ?thesis
      by (simp add: step Suc)
  qed
qed simp

lemma trie_contains_abs:
  assumes "trie_abs t K"
  shows "trie_contains a t = Ret (\<exists>n \<le> 8 * length a. take n (addr_bits a) \<in> K)"
proof (cases "t = []")
  case True
  with assms show ?thesis by (simp add: trie_contains_def trie_abs_def)
next
  case False
  with assms obtain lab where lab: "trie_ok lab t" "K = trie_keys lab t" by (auto simp: trie_abs_def)
  then have 0: "lab ! 0 = []" "0 < length t" by (auto simp: trie_ok_def)
  have "terminal (t ! 0) \<longleftrightarrow> [] \<in> K"
    using trie_keys_nth [OF lab(1) 0(2)] 0(1) lab(2) by simp
  moreover have "(\<exists>n \<le> 8 * length a. take n (addr_bits a) \<in> K) \<longleftrightarrow>
      [] \<in> K \<or> (\<exists>n. 0 < n \<and> n \<le> 8 * length a \<and> take n (addr_bits a) \<in> K)"
    by (metis gr0I le0 take0)
  ultimately show ?thesis
    using contains_loop_keys [OF lab(1) 0(2), of 0 a "length a * 8"] 0 lab(2) False
    by (auto simp: trie_contains_def)
qed

text \<open>
  The interface the matcher relies on: a store of address prefixes in which, after an insertion,
  an address is contained exactly when it was before or has the inserted prefix.
\<close>

locale prefix_store =
  fixes ins :: "bytes \<Rightarrow> nat \<Rightarrow> 't \<Rightarrow> (ruleset_error, 't) go"
    and mem :: "bytes \<Rightarrow> 't \<Rightarrow> (ruleset_error, bool) go"
    and emp :: 't
    and rel :: "'t \<Rightarrow> bool list set \<Rightarrow> bool"
  assumes rel_emp: "rel emp {}"
    and rel_ins: "rel t K \<Longrightarrow> bits \<le> 8 * length a \<Longrightarrow>
      \<exists>t'. ins a bits t = Ret t' \<and> rel t' (insert (take bits (addr_bits a)) K)"
    and rel_mem: "rel t K \<Longrightarrow> mem a t = Ret (\<exists>n \<le> 8 * length a. take n (addr_bits a) \<in> K)"
begin

definition keys_of :: "(bytes \<times> nat) list \<Rightarrow> bool list set" where
  "keys_of ps = (\<lambda>(b, n). take n (addr_bits b)) ` set ps"

lemma ins_keys:
  "rel t (keys_of ps) \<Longrightarrow> bits \<le> 8 * length a \<Longrightarrow> \<exists>t'. ins a bits t = Ret t' \<and> rel t' (keys_of ((a, bits) # ps))"
  using rel_ins [of t "keys_of ps" bits a] by (simp add: keys_of_def)

lemma mem_keys:
  assumes "rel t (keys_of ps)" "\<And>b n. (b, n) \<in> set ps \<Longrightarrow> n \<le> 8 * length b \<and> length b = length a"
  shows "mem a t = Ret (\<exists>(b, n)\<in>set ps. take n (addr_bits b) = take n (addr_bits a))"
proof -
  have "(\<exists>m \<le> 8 * length a. take m (addr_bits a) \<in> keys_of ps) \<longleftrightarrow>
        (\<exists>(b, n)\<in>set ps. take n (addr_bits b) = take n (addr_bits a))" (is "?l \<longleftrightarrow> ?r")
  proof
    assume ?l
    then obtain m b n where m: "m \<le> 8 * length a" "(b, n) \<in> set ps" "take n (addr_bits b) = take m (addr_bits a)"
      by (force simp: keys_of_def)
    then have "m = n" using assms(2) [OF m(2)] by (auto dest: arg_cong [where f = length])
    with m show ?r by auto
  next
    assume ?r
    then show ?l using assms(2) by (force simp: keys_of_def image_iff)
  qed
  with rel_mem [OF assms(1)] show ?thesis by simp
qed

end

interpretation trie: prefix_store trie_insert trie_contains "[]" trie_abs
proof unfold_locales
  show "trie_abs [] {}" by (simp add: trie_abs_def)
qed (rule trie_insert_abs trie_contains_abs; assumption)+

section \<open>The loops over the items of a rule\<close>

lemma suffix_loop_iff:
  "suffix_loop sfx part \<longleftrightarrow> (\<exists>s\<in>set sfx. part = s \<or> (\<exists>a. part = a @ CHR ''.'' # s))"
proof (induction sfx part rule: suffix_loop.induct)
  case (1 sfx part)
  show ?case
  proof (cases "IndexByte part (CHR ''.'')")
    case None
    then have "suffix_loop sfx part \<longleftrightarrow> part \<in> set sfx"
      by (subst suffix_loop.simps) (simp del: IndexByte_None)
    moreover from None have "CHR ''.'' \<notin> set part" by simp
    ultimately show ?thesis by auto
  next
    case (Some d)
    then have d: "d < length part" "part ! d = CHR ''.''" "CHR ''.'' \<notin> set (take d part)"
      by (simp_all add: IndexByte_Some)
    have part: "part = take d part @ CHR ''.'' # drop (d + 1) part"
      using d id_take_nth_drop [of d part] by simp
    have no: "take d part \<noteq> a @ CHR ''.'' # ys" for a ys using d(3) by (metis in_set_conv_decomp)
    have "(\<exists>a. part = a @ CHR ''.'' # s) \<longleftrightarrow>
        drop (d + 1) part = s \<or> (\<exists>a. drop (d + 1) part = a @ CHR ''.'' # s)" for s
      by (subst (1) part) (auto simp: append_eq_append_conv2 append_eq_Cons_conv Cons_eq_append_conv no
          intro: exI [of _ "take d part"] exI [of _ "take d part @ CHR ''.'' # _"])
    with 1 Some show ?thesis by (subst suffix_loop.simps) auto
  qed
qed

lemma add_domains_sets:
  "set (domains (add_domains items s)) = set (domains s) \<union> (normalizeDomain ` set items - {[]})"
  "suffixes (add_domains items s) = suffixes s" "kwords (add_domains items s) = kwords s"
  "ipv4 (add_domains items s) = ipv4 s" "ipv6 (add_domains items s) = ipv6 s"
  "prefixCount (add_domains items s) = prefixCount s"
  unfolding add_domains_def by (induction items arbitrary: s) (auto simp: Let_def)

lemma add_suffixes_sets:
  "set (suffixes (add_suffixes items s)) =
     set (suffixes s) \<union> ((\<lambda>x. normalizeDomain (TrimPrefix x ''.'')) ` set items - {[]})"
  "domains (add_suffixes items s) = domains s" "kwords (add_suffixes items s) = kwords s"
  "ipv4 (add_suffixes items s) = ipv4 s" "ipv6 (add_suffixes items s) = ipv6 s"
  "prefixCount (add_suffixes items s) = prefixCount s"
  unfolding add_suffixes_def by (induction items arbitrary: s) (auto simp: Let_def)

lemma add_keywords_sets:
  "set (kwords (add_keywords items s)) = set (kwords s) \<union> ((\<lambda>x. ToLower (TrimSpace x)) ` set items - {[]})"
  "domains (add_keywords items s) = domains s" "suffixes (add_keywords items s) = suffixes s"
  "ipv4 (add_keywords items s) = ipv4 s" "ipv6 (add_keywords items s) = ipv6 s"
  "prefixCount (add_keywords items s) = prefixCount s"
  unfolding add_keywords_def by (induction items arbitrary: s) (auto simp: Let_def)

lemmas add_item_sets = add_domains_sets add_suffixes_sets add_keywords_sets

lemma ParsePrefix_wf:
  assumes "ParsePrefix s = Some p"
  shows "(\<exists>b. fst p = Addr4 b \<and> length b = 4 \<and> snd p \<le> 32) \<or> (\<exists>b. fst p = Addr6 b [] \<and> length b = 16 \<and> snd p \<le> 128)"
proof -
  from assms obtain i a n where a: "ParseAddr (take i s) = Some a" "p = (a, nat n)"
    "\<not> (case a of Addr6 _ z \<Rightarrow> z \<noteq> [] | _ \<Rightarrow> False)"
    "n \<le> int (case a of Addr6 _ _ \<Rightarrow> 128 | _ \<Rightarrow> 32)"
    by (auto simp: ParsePrefix_def Let_def split: option.splits if_splits)
  with ParseAddr_wf [OF a(1)] show ?thesis by (cases a) (auto simp: wf_addr_def)
qed

definition prefix_wf :: "ip_prefix \<Rightarrow> bool" where
  "prefix_wf p \<longleftrightarrow> (\<exists>b. fst p = Addr4 b \<and> length b = 4 \<and> snd p \<le> 32) \<or>
     (\<exists>b. fst p = Addr6 b [] \<and> length b = 16 \<and> snd p \<le> 128)"

lemma ParsePrefix_prefix_wf: "ParsePrefix s = Some p \<Longrightarrow> prefix_wf p \<and> prefix_wf (Masked p)"
  using ParsePrefix_wf [of s p] by (cases p) (auto simp: prefix_wf_def Masked_def)

text \<open>The prefixes inserted so far, by address family.\<close>

definition v4_of :: "ip_prefix list \<Rightarrow> (bytes \<times> nat) list" where
  "v4_of ps = concat (map (\<lambda>p. case fst p of Addr4 b \<Rightarrow> [(b, snd p)] | _ \<Rightarrow> []) ps)"

definition v6_of :: "ip_prefix list \<Rightarrow> (bytes \<times> nat) list" where
  "v6_of ps = concat (map (\<lambda>p. case fst p of Addr6 b _ \<Rightarrow> [(b, snd p)] | _ \<Rightarrow> []) ps)"

definition ips_ok :: "ip_prefix list \<Rightarrow> ruleset \<Rightarrow> bool" where
  "ips_ok seen s \<longleftrightarrow> list_all prefix_wf seen \<and> prefixCount s = length seen \<and>
     trie_abs (ipv4 s) (trie.keys_of (v4_of seen)) \<and> trie_abs (ipv6 s) (trie.keys_of (v6_of seen))"

lemma add_prefix_ok:
  assumes "ips_ok seen s" "prefix_wf p"
  shows "\<exists>s'. add_prefix p s = Ret s' \<and> ips_ok (p # seen) s' \<and>
    domains s' = domains s \<and> suffixes s' = suffixes s \<and> kwords s' = kwords s"
proof -
  obtain a n where p: "p = (a, n)" by (cases p)
  from assms(1) have ok: "list_all prefix_wf seen" "prefixCount s = length seen"
    "trie_abs (ipv4 s) (trie.keys_of (v4_of seen))" "trie_abs (ipv6 s) (trie.keys_of (v6_of seen))"
    by (simp_all add: ips_ok_def)
  from assms(2) consider b where "a = Addr4 b" "length b = 4" "n \<le> 32" | b where "a = Addr6 b []" "length b = 16" "n \<le> 128"
    by (auto simp: prefix_wf_def p)
  then show ?thesis
  proof cases
    case (1 b)
    then obtain t where "trie_insert b n (ipv4 s) = (Ret t :: (ruleset_error, _) go)" "trie_abs t (trie.keys_of ((b, n) # v4_of seen))"
      using trie.ins_keys [OF ok(3), of n b] by auto
    with ok 1 assms(2) show ?thesis by (auto simp: add_prefix_def p ips_ok_def v4_of_def v6_of_def)
  next
    case (2 b)
    then obtain t where "trie_insert b n (ipv6 s) = (Ret t :: (ruleset_error, _) go)" "trie_abs t (trie.keys_of ((b, n) # v6_of seen))"
      using trie.ins_keys [OF ok(4), of n b] by auto
    with ok 2 assms(2) show ?thesis by (auto simp: add_prefix_def p ips_ok_def v4_of_def v6_of_def As16_def)
  qed
qed

definition parsed_cidrs :: "string list \<Rightarrow> ip_prefix set" where
  "parsed_cidrs items = {p. \<exists>c\<in>set items. ParsePrefix (TrimSpace c) = Some p}"

lemma parsed_cidrs_simps [simp]:
  "parsed_cidrs [] = {}"
  "ParsePrefix (TrimSpace c) = Some p \<Longrightarrow> parsed_cidrs (c # cs) = insert p (parsed_cidrs cs)"
  by (auto simp: parsed_cidrs_def)

lemma add_prefixes_ok:
  "ips_ok seen s \<Longrightarrow> add_prefixes items seen s \<noteq> Panic \<and>
   (\<forall>seen' s'. add_prefixes items seen s = Ret (seen', s') \<longrightarrow> ips_ok seen' s' \<and>
      domains s' = domains s \<and> suffixes s' = suffixes s \<and> kwords s' = kwords s \<and>
      set seen' = set seen \<union> Masked ` parsed_cidrs items)"
proof (induction items seen s rule: add_prefixes.induct)
  case (2 item items seen s)
  show ?case
  proof (cases "ParsePrefix (TrimSpace item)")
    case (Some p)
    note wf = ParsePrefix_prefix_wf [OF Some]
    show ?thesis
    proof (cases "Masked p \<in> set seen")
      case True
      with "2.IH"(1) [OF Some refl True "2.prems"] Some show ?thesis by (auto simp: Let_def)
    next
      case False
      obtain s1 where s1: "add_prefix (Masked p) s = Ret s1" "ips_ok (Masked p # seen) s1"
        "domains s1 = domains s" "suffixes s1 = suffixes s" "kwords s1 = kwords s"
        using add_prefix_ok [OF "2.prems"] wf by blast
      with "2.IH"(2) [OF Some refl False s1(1,2)] Some False show ?thesis by (auto simp: Let_def)
    qed
  qed simp
qed simp

section \<open>Parsed rule sets\<close>

definition items_of :: "string \<Rightarrow> json \<Rightarrow> string list" where
  "items_of field r =
     (case decode_raw_map r of
        None \<Rightarrow> []
      | Some kvs \<Rightarrow> (case decodeStringList (jmap kvs field) of None \<Rightarrow> [] | Some xs \<Rightarrow> xs))"

lemma parse_rule_ok:
  assumes "ips_ok seen s"
  shows "parse_rule r seen s \<noteq> Panic"
    and "parse_rule r seen s = Ret (seen', s') \<Longrightarrow> ips_ok seen' s' \<and>
      set (domains s') = set (domains s) \<union> (normalizeDomain ` set (items_of ''domain'' r) - {[]}) \<and>
      set (suffixes s') = set (suffixes s) \<union> ((\<lambda>x. normalizeDomain (TrimPrefix x ''.'')) ` set (items_of ''domain_suffix'' r) - {[]}) \<and>
      set (kwords s') = set (kwords s) \<union> ((\<lambda>x. ToLower (TrimSpace x)) ` set (items_of ''domain_keyword'' r) - {[]}) \<and>
      set seen' = set seen \<union> Masked ` parsed_cidrs (items_of ''ip_cidr'' r)"
proof -
  have ok: "ips_ok seen (add_keywords ks (add_suffixes ss (add_domains ds s)))" for ks ss ds
    using assms by (simp add: ips_ok_def add_item_sets)
  show "parse_rule r seen s \<noteq> Panic"
    using add_prefixes_ok [OF ok] by (auto simp: parse_rule_def Let_def split: option.splits)
  assume "parse_rule r seen s = Ret (seen', s')"
  then obtain kvs ds ss ks ps where d: "decode_raw_map r = Some kvs" "decodeStringList (jmap kvs ''domain'') = Some ds"
    "decodeStringList (jmap kvs ''domain_suffix'') = Some ss" "decodeStringList (jmap kvs ''domain_keyword'') = Some ks"
    "decodeStringList (jmap kvs ''ip_cidr'') = Some ps"
    and a: "add_prefixes ps seen (add_keywords ks (add_suffixes ss (add_domains ds s))) = Ret (seen', s')"
    by (auto simp: parse_rule_def Let_def split: option.splits if_splits)
  have "items_of ''domain'' r = ds" "items_of ''domain_suffix'' r = ss" "items_of ''domain_keyword'' r = ks"
    "items_of ''ip_cidr'' r = ps"
    using d by (simp_all add: items_of_def)
  with conjunct2 [OF add_prefixes_ok [OF ok], rule_format, OF a] show "ips_ok seen' s' \<and>
      set (domains s') = set (domains s) \<union> (normalizeDomain ` set (items_of ''domain'' r) - {[]}) \<and>
      set (suffixes s') = set (suffixes s) \<union> ((\<lambda>x. normalizeDomain (TrimPrefix x ''.'')) ` set (items_of ''domain_suffix'' r) - {[]}) \<and>
      set (kwords s') = set (kwords s) \<union> ((\<lambda>x. ToLower (TrimSpace x)) ` set (items_of ''domain_keyword'' r) - {[]}) \<and>
      set seen' = set seen \<union> Masked ` parsed_cidrs (items_of ''ip_cidr'' r)"
    by (simp add: add_item_sets)
qed

lemma parse_rules_ok:
  "ips_ok seen s \<Longrightarrow> parse_rules rs seen s \<noteq> Panic \<and> (\<forall>s'. parse_rules rs seen s = Ret s' \<longrightarrow>
      (\<exists>seen'. ips_ok seen' s' \<and> set seen' = set seen \<union> (\<Union>r\<in>set rs. Masked ` parsed_cidrs (items_of ''ip_cidr'' r))) \<and>
      set (domains s') = set (domains s) \<union> (\<Union>r\<in>set rs. normalizeDomain ` set (items_of ''domain'' r) - {[]}) \<and>
      set (suffixes s') = set (suffixes s) \<union> (\<Union>r\<in>set rs. (\<lambda>x. normalizeDomain (TrimPrefix x ''.'')) ` set (items_of ''domain_suffix'' r) - {[]}) \<and>
      set (kwords s') = set (kwords s) \<union> (\<Union>r\<in>set rs. (\<lambda>x. ToLower (TrimSpace x)) ` set (items_of ''domain_keyword'' r) - {[]}))"
proof (induction rs arbitrary: seen s)
  case (Cons r rs)
  show ?case
  proof (cases "parse_rule r seen s")
    case (Ret x)
    obtain seen1 s1 where x: "x = (seen1, s1)" by (cases x)
    note step = parse_rule_ok(2) [OF Cons.prems Ret [unfolded x]]
    from Cons.IH [OF conjunct1 [OF step]] step Ret x show ?thesis by (simp add: Un_assoc)
  qed (use parse_rule_ok(1) [OF Cons.prems] in auto)
qed auto

lemma ips_ok_NewEmpty: "ips_ok [] (NewEmpty i)"
  by (simp add: ips_ok_def NewEmpty_def trie_abs_def v4_of_def v6_of_def trie.keys_of_def)

text \<open>The rules of the document a text holds.\<close>

definition doc_rules :: "json_text \<Rightarrow> json list" where
  "doc_rules data =
     (case text_values data of
        [] \<Rightarrow> []
      | v # _ \<Rightarrow> (case decode_raw_map v of
            None \<Rightarrow> []
          | Some kvs \<Rightarrow> (case decode_document kvs [] of None \<Rightarrow> [] | Some rs \<Rightarrow> rs)))"

lemma mem_Union_image:
  "y \<noteq> e \<Longrightarrow> y \<in> (\<Union>r\<in>R. f ` I r - {e}) \<longleftrightarrow> (\<exists>r\<in>R. \<exists>x\<in>I r. f x = y)"
  by auto

lemma ParseSource_rules:
  assumes "ParseSource i data = Ret s"
  obtains s0 where "parse_rules (doc_rules data) [] (NewEmpty i) = Ret s0"
    "s = s0\<lparr>kwords := sort_key (\<lambda>k. - int (length k)) (kwords s0)\<rparr>"
  using assms by (auto simp: ParseSource_def doc_rules_def split: list.splits option.splits if_splits)

lemma ParseSource_np [np_rules]: "ParseSource i data \<noteq> Panic"
  using parse_rules_ok [OF ips_ok_NewEmpty]
  by (auto simp: ParseSource_def split: list.splits option.splits)

text \<open>What a rule of a document says about a normalised host and about an address.\<close>

definition rule_says_domain :: "json \<Rightarrow> string \<Rightarrow> bool" where
  "rule_says_domain r h \<longleftrightarrow>
     (\<exists>x\<in>set (items_of ''domain'' r). normalizeDomain x = h) \<or>
     (\<exists>x\<in>set (items_of ''domain_suffix'' r). let p = normalizeDomain (TrimPrefix x ''.'') in
        p \<noteq> [] \<and> (h = p \<or> HasSuffix h (CHR ''.'' # p))) \<or>
     (\<exists>x\<in>set (items_of ''domain_keyword'' r). let k = ToLower (TrimSpace x) in k \<noteq> [] \<and> Contains h k)"

definition rule_says_ip :: "json \<Rightarrow> addr \<Rightarrow> bool" where
  "rule_says_ip r a \<longleftrightarrow> (\<exists>p\<in>parsed_cidrs (items_of ''ip_cidr'' r). prefix_Contains p a)"

definition strip_zone :: "addr \<Rightarrow> addr" where
  "strip_zone a = (case a of Addr6 b z \<Rightarrow> Addr6 b [] | _ \<Rightarrow> a)"

lemma prefix_Contains_Masked: "prefix_Contains (Masked p) a = prefix_Contains p a"
  by (cases p; cases "fst p"; cases a) (auto simp: Masked_def prefix_Contains_def take_addr_bits_mask)

lemma prefix_Contains_Zero [simp]: "\<not> prefix_Contains p AddrZero"
  by (cases p; cases "fst p") (auto simp: prefix_Contains_def)

lemma v4_of_contains:
  "(\<exists>(b, n)\<in>set (v4_of ps). take n (addr_bits b) = take n (addr_bits v)) \<longleftrightarrow> (\<exists>p\<in>set ps. prefix_Contains p (Addr4 v))"
proof (induction ps)
  case (Cons p ps)
  then show ?case by (cases p; cases "fst p") (simp_all add: v4_of_def prefix_Contains_def)
qed (simp add: v4_of_def)

lemma v6_of_contains:
  "(\<exists>(b, n)\<in>set (v6_of ps). take n (addr_bits b) = take n (addr_bits v)) \<longleftrightarrow> (\<exists>p\<in>set ps. prefix_Contains p (Addr6 v []))"
proof (induction ps)
  case (Cons p ps)
  then show ?case by (cases p; cases "fst p") (simp_all add: v6_of_def prefix_Contains_def)
qed (simp add: v6_of_def)

lemma MatchIP_ips_ok:
  assumes "ips_ok seen s" "wf_addr a"
  shows "MatchIP s a = (Ret (\<exists>p\<in>set seen. prefix_Contains p (strip_zone (Unmap a))) :: (ruleset_error, bool) go)"
proof -
  from assms(1) have ok: "list_all prefix_wf seen" "trie_abs (ipv4 s) (trie.keys_of (v4_of seen))"
    "trie_abs (ipv6 s) (trie.keys_of (v6_of seen))"
    by (simp_all add: ips_ok_def)
  have wf4: "(b, n) \<in> set (v4_of seen) \<Longrightarrow> n \<le> 8 * length b \<and> length b = 4"
    and wf6: "(b, n) \<in> set (v6_of seen) \<Longrightarrow> n \<le> 8 * length b \<and> length b = 16" for b n
    using ok(1) by (fastforce simp: v4_of_def v6_of_def list_all_iff prefix_wf_def split: addr.splits)+
  have wf: "wf_addr (Unmap a)" using assms(2) by (rule wf_Unmap)
  show ?thesis
  proof (cases "Unmap a")
    case AddrZero
    then have "a = AddrZero" by simp
    moreover from this have "strip_zone (Unmap a) = AddrZero" by (simp add: strip_zone_def Unmap_def)
    ultimately show ?thesis by (simp add: MatchIP_def)
  next
    case (Addr4 v)
    with wf have "length v = 4" by (simp add: wf_addr_def)
    with trie.mem_keys [OF ok(2), of v] wf4
    have "trie_contains v (ipv4 s) = (Ret (\<exists>(b, n)\<in>set (v4_of seen). take n (addr_bits b) = take n (addr_bits v)) :: (ruleset_error, bool) go)"
      by fastforce
    with v4_of_contains [of seen v] show ?thesis using Addr4 by (auto simp: MatchIP_def strip_zone_def)
  next
    case (Addr6 v z)
    with wf have "length v = 16" by (simp add: wf_addr_def)
    with trie.mem_keys [OF ok(3), of v] wf6
    have "trie_contains v (ipv6 s) = (Ret (\<exists>(b, n)\<in>set (v6_of seen). take n (addr_bits b) = take n (addr_bits v)) :: (ruleset_error, bool) go)"
      by fastforce
    with v6_of_contains [of seen v] show ?thesis using Addr6 by (auto simp: MatchIP_def strip_zone_def As16_def)
  qed
qed

section \<open>Properties\<close>

text \<open>
  C7: a rule set matches exactly the domains its source document describes: after normalisation
  the host equals a \<open>domain\<close> item, equals or ends on a label boundary with a \<open>domain_suffix\<close>
  item, or contains a \<open>domain_keyword\<close> item of some rule.
\<close>

theorem ParseSource_MatchDomain:
  assumes "ParseSource i data = Ret s"
  shows "MatchDomain s host \<longleftrightarrow>
    normalizeDomain host \<noteq> [] \<and> (\<exists>r\<in>set (doc_rules data). rule_says_domain r (normalizeDomain host))"
proof -
  from assms obtain s0 where s0: "parse_rules (doc_rules data) [] (NewEmpty i) = Ret s0"
    and s: "s = s0\<lparr>kwords := sort_key (\<lambda>k. - int (length k)) (kwords s0)\<rparr>"
    by (rule ParseSource_rules)
  note sets = conjunct2 [OF parse_rules_ok [OF ips_ok_NewEmpty], rule_format, OF s0]
  let ?h = "normalizeDomain host"
  let ?sfx = "\<lambda>x. normalizeDomain (TrimPrefix x ''.'')"
  let ?kw = "\<lambda>x. ToLower (TrimSpace x)"
  have D: "set (domains s) = (\<Union>r\<in>set (doc_rules data). normalizeDomain ` set (items_of ''domain'' r) - {[]})"
    and X: "set (suffixes s) = (\<Union>r\<in>set (doc_rules data). ?sfx ` set (items_of ''domain_suffix'' r) - {[]})"
    and K: "set (kwords s) = (\<Union>r\<in>set (doc_rules data). ?kw ` set (items_of ''domain_keyword'' r) - {[]})"
    using sets by (simp_all add: s NewEmpty_def)
  have d: "?h \<noteq> [] \<Longrightarrow> ?h \<in> set (domains s) \<longleftrightarrow>
      (\<exists>r\<in>set (doc_rules data). \<exists>x\<in>set (items_of ''domain'' r). normalizeDomain x = ?h)"
    unfolding D by (rule mem_Union_image)
  have "suffix_loop (suffixes s) ?h \<longleftrightarrow> (\<exists>p\<in>set (suffixes s). ?h = p \<or> HasSuffix ?h (CHR ''.'' # p))"
    by (simp add: suffix_loop_iff HasSuffix_iff)
  also have "\<dots> \<longleftrightarrow> (\<exists>r\<in>set (doc_rules data). \<exists>x\<in>set (items_of ''domain_suffix'' r).
      ?sfx x \<noteq> [] \<and> (?h = ?sfx x \<or> HasSuffix ?h (CHR ''.'' # ?sfx x)))"
    unfolding X by blast
  finally have x: "suffix_loop (suffixes s) ?h \<longleftrightarrow> \<dots>" .
  have k: "list_ex (\<lambda>k. Contains ?h k) (kwords s) \<longleftrightarrow> (\<exists>r\<in>set (doc_rules data).
      \<exists>x\<in>set (items_of ''domain_keyword'' r). ?kw x \<noteq> [] \<and> Contains ?h (?kw x))"
    unfolding list_ex_iff K by blast
  show ?thesis
    unfolding MatchDomain_def Let_def x k rule_says_domain_def using d by auto
qed

text \<open>
  C6: a rule set matches exactly the addresses its source document describes, and never panics:
  a 4-in-6 address counts as its IPv4 address, an IPv6 zone is ignored, and the address lies in
  one of the \<open>ip_cidr\<close> prefixes. A rule set that reports no IP rules matches no address.
\<close>

theorem ParseSource_MatchIP:
  assumes "ParseSource i data = Ret s" "wf_addr a"
  shows "MatchIP s a = (Ret (\<exists>r\<in>set (doc_rules data). rule_says_ip r (strip_zone (Unmap a))) :: (ruleset_error, bool) go)
    \<and> (MatchIP s a = (Ret True :: (ruleset_error, bool) go) \<longrightarrow> HasIPRules s)"
proof -
  from assms(1) obtain s0 where s0: "parse_rules (doc_rules data) [] (NewEmpty i) = Ret s0"
    and s: "s = s0\<lparr>kwords := sort_key (\<lambda>k. - int (length k)) (kwords s0)\<rparr>"
    by (rule ParseSource_rules)
  note sets = conjunct2 [OF parse_rules_ok [OF ips_ok_NewEmpty], rule_format, OF s0]
  then obtain seen where seen: "ips_ok seen s0"
    "set seen = (\<Union>r\<in>set (doc_rules data). Masked ` parsed_cidrs (items_of ''ip_cidr'' r))"
    by auto
  have ok: "ips_ok seen s" using seen(1) by (simp add: s ips_ok_def)
  have "(\<exists>p\<in>set seen. prefix_Contains p x) \<longleftrightarrow> (\<exists>r\<in>set (doc_rules data). rule_says_ip r x)" for x
    unfolding seen(2) rule_says_ip_def using prefix_Contains_Masked by simp
  with MatchIP_ips_ok [OF ok assms(2)] show ?thesis
    using ok by (auto simp: ips_ok_def HasIPRules_def)
qed

definition source_example :: json_text where
  "source_example = \<lparr>text_values = [JObj [(''version'', JInt 1), (''rules'', JArr
     [JObj [(''domain_suffix'', JArr [JStr ''.Example.com'']), (''ip_cidr'', JStr ''10.0.0.0/8'')]])]],
   text_clean = True\<rparr>"

text \<open>The rule set parsed from the example document.\<close>

definition source_example_set :: ruleset where
  "source_example_set = (case ParseSource ''s'' source_example of Ret s \<Rightarrow> s | _ \<Rightarrow> NewEmpty ''s'')"

lemma source_example_parses: "ParseSource ''s'' source_example = Ret source_example_set"
  by code_simp

theorem ParseSource_MatchDomain_witness:
  "MatchDomain source_example_set ''www.EXAMPLE.com.'' \<and> \<not> MatchDomain source_example_set ''badexample.com''"
  using ParseSource_MatchDomain [OF source_example_parses, of "''www.EXAMPLE.com.''"]
    ParseSource_MatchDomain [OF source_example_parses, of "''badexample.com''"]
  by code_simp

theorem ParseSource_MatchIP_witness:
  "MatchIP source_example_set (Addr4 [10, 1, 2, 3]) = (Ret True :: (ruleset_error, bool) go) \<and> HasIPRules source_example_set"
proof -
  have "wf_addr (Addr4 [10, 1, 2, 3])" by (simp add: wf_addr_def)
  moreover have "MatchIP source_example_set (Addr4 [10, 1, 2, 3]) = (Ret True :: (ruleset_error, bool) go)" by code_simp
  ultimately show ?thesis using ParseSource_MatchIP [OF source_example_parses] by blast
qed

end
