(* ===== verification/Strategy.thy ===== *)
theory Strategy
  imports Model "HOL-Library.Char_ord" "HOL-Library.List_Lexorder" "HOL-Library.Product_Lexorder"
begin

text \<open>
  The strategy groups of \<^verbatim>\<open>hongda-core/strategy\<close>: the shared \<^verbatim>\<open>base\<close>, the manual \<^verbatim>\<open>Select\<close>
  group and the latency-driven \<^verbatim>\<open>URLTest\<close> group. The members of a group are a Go map from
  names to outbounds, here an association list with distinct names; the type of outbounds is
  a parameter. A lock protects \<^verbatim>\<open>current\<close> and \<^verbatim>\<open>health\<close>, so each operation is one atomic
  state transformer.
\<close>

section \<open>base.go\<close>

record GroupHealth =
  Ready :: bool
  LastError :: string

record 'o base =
  b_id :: string
  b_typ :: string
  members :: "(string \<times> 'o) list"
  order :: "string list"
  current :: string
  health :: GroupHealth

definition newBase :: "string \<Rightarrow> string \<Rightarrow> 'o base" where
  "newBase i t = \<lparr>b_id = i, b_typ = t, members = [], order = [], current = [],
     health = \<lparr>Ready = False, LastError = []\<rparr>\<rparr>"

definition addMember :: "string \<Rightarrow> 'o \<Rightarrow> ('o, 'x) base_scheme \<Rightarrow> ('o, 'x) base_scheme" where
  "addMember name ob b =
     (let b1 = b\<lparr>members := AList.update name ob (members b), order := order b @ [name]\<rparr> in
      if current b1 = [] then b1\<lparr>current := name\<rparr> else b1)"

definition Members :: "('o, 'x) base_scheme \<Rightarrow> string list" where
  "Members b = order b"

definition Current :: "('o, 'x) base_scheme \<Rightarrow> string" where
  "Current b = current b"

definition currentOutbound :: "('o, 'x) base_scheme \<Rightarrow> 'o option" where
  "currentOutbound b = map_of (members b) (current b)"

text \<open>
  \<^verbatim>\<open>DialContext\<close> and \<^verbatim>\<open>ListenPacket\<close> forward to the current member; \<open>dial\<close> stands for the
  member's own operation and \<open>Err e\<close> for its failure, \<open>ErrClosed\<close> for \<^verbatim>\<open>net.ErrClosed\<close>.
\<close>

datatype 'e group_error = ErrClosed | MemberError 'e

definition DialContext ::
  "('o \<Rightarrow> string \<Rightarrow> string \<Rightarrow> ('e, 'c) go) \<Rightarrow> ('o, 'x) base_scheme \<Rightarrow> string \<Rightarrow> string \<Rightarrow> ('e group_error, 'c) go" where
  "DialContext dial b network address =
     (case currentOutbound b of
        None \<Rightarrow> Err ErrClosed
      | Some ob \<Rightarrow> gtry (dial ob network address) (\<lambda>e. Err (MemberError e)) Ret)"

definition ListenPacket ::
  "('o \<Rightarrow> string \<Rightarrow> ('e, 'c) go) \<Rightarrow> ('o, 'x) base_scheme \<Rightarrow> string \<Rightarrow> ('e group_error, 'c) go" where
  "ListenPacket listen b address =
     (case currentOutbound b of
        None \<Rightarrow> Err ErrClosed
      | Some ob \<Rightarrow> gtry (listen ob address) (\<lambda>e. Err (MemberError e)) Ret)"

section \<open>select.go\<close>

definition orderedNames :: "(string \<times> 'o) list \<Rightarrow> string list" where
  "orderedNames m = sort (map fst m)"

text \<open>The loop that adds every member in name order; \<^verbatim>\<open>members[name]\<close> is present for each of them.\<close>

definition add_all :: "(string \<times> 'o) list \<Rightarrow> ('o, 'x) base_scheme \<Rightarrow> ('o, 'x) base_scheme" where
  "add_all m b = foldl (\<lambda>b name. case map_of m name of None \<Rightarrow> b | Some ob \<Rightarrow> addMember name ob b) b (orderedNames m)"

definition NewSelect :: "string \<Rightarrow> (string \<times> 'o) list \<Rightarrow> string \<Rightarrow> 'o base" where
  "NewSelect i m initial =
     (let s = add_all m (newBase i ''select'') in
      if initial \<noteq> [] \<and> map_of m initial \<noteq> None then s\<lparr>current := initial\<rparr> else s)"

definition SetCurrent :: "string \<Rightarrow> 'o base \<Rightarrow> bool \<times> 'o base" where
  "SetCurrent name s =
     (if map_of (members s) name = None then (False, s) else (True, s\<lparr>current := name\<rparr>))"

section \<open>urltest.go\<close>

record 'o URLTest = "'o base" +
  target :: string
  tolerance :: int

record urlTestResult =
  u_name :: string
  u_latency :: int
  u_err :: bool

definition NewURLTest :: "string \<Rightarrow> (string \<times> 'o) list \<Rightarrow> string \<Rightarrow> int \<Rightarrow> 'o URLTest" where
  "NewURLTest i m tgt toleranceMillis =
     (let t = (if toleranceMillis < 0 then 0 else toleranceMillis) in
      add_all m (base.extend (newBase i ''urltest'') \<lparr>target = tgt, tolerance = t * 1000000\<rparr>))"

text \<open>
  The first result in order of the sorted list for the current member decides; the loop body
  either continues, returns or breaks.
\<close>

fun choose_loop :: "string \<Rightarrow> int \<Rightarrow> urlTestResult \<Rightarrow> urlTestResult list \<Rightarrow> string" where
  "choose_loop cur tol best [] = u_name best"
| "choose_loop cur tol best (candidate # cs) =
     (if u_name candidate \<noteq> cur \<or> u_err candidate then choose_loop cur tol best cs
      else if u_latency candidate \<le> u_latency best + tol then cur
      else u_name best)"

definition chooseURLTestCurrent :: "string \<Rightarrow> int \<Rightarrow> urlTestResult list \<Rightarrow> string \<times> bool" where
  "chooseURLTestCurrent cur tol collected =
     (case collected of
        [] \<Rightarrow> (cur, False)
      | best # _ \<Rightarrow> if u_err best then (cur, False) else (choose_loop cur tol best collected, True))"

text \<open>
  \<^verbatim>\<open>sort.SliceStable\<close> with the comparison of the code: results without an error first, by
  latency; failed results keep their order behind them.
\<close>

definition sort_results :: "urlTestResult list \<Rightarrow> urlTestResult list" where
  "sort_results = sort_key (\<lambda>r. (u_err r, if u_err r then 0 else u_latency r))"

datatype refresh_error = InvalidTestURL string | DeadlineExceeded

definition testTarget :: "string \<Rightarrow> string" where
  "testTarget t =
     (let target = TrimSpace t in
      if target = [] then ''https://www.gstatic.com/generate_204''
      else if \<not> Contains target ''://'' then ''https://'' @ target
      else target)"

text \<open>
  \<^verbatim>\<open>Refresh\<close>. \<open>urlParse\<close> stands for \<^verbatim>\<open>url.Parse\<close> (scheme and host name of a valid URL),
  \<open>probe\<close> for \<^verbatim>\<open>probe.Measure\<close> of one member, and \<open>arrival\<close> is the order in which the worker
  pool delivers the results: a permutation of the member names.
\<close>

definition URLTest_Refresh ::
  "(string \<Rightarrow> (string \<times> string) option) \<Rightarrow> (string \<Rightarrow> int \<times> bool) \<Rightarrow> string list \<Rightarrow> 'o URLTest \<Rightarrow>
   refresh_error option \<times> 'o URLTest" where
  "URLTest_Refresh urlParse probe arrival u =
     (let tgt = testTarget (target u) in
      case urlParse tgt of
        None \<Rightarrow> (Some (InvalidTestURL tgt), u)
      | Some (scheme, host) \<Rightarrow>
          (if host = [] \<or> (scheme \<noteq> ''http'' \<and> scheme \<noteq> ''https'') then (Some (InvalidTestURL tgt), u)
           else
             (let collected = sort_results
                (map (\<lambda>name. \<lparr>u_name = name, u_latency = fst (probe name), u_err = snd (probe name)\<rparr>) arrival);
                (selected, ready) = chooseURLTestCurrent (current u) (tolerance u) collected in
              if ready then (None, u\<lparr>current := selected, health := \<lparr>Ready = True, LastError = []\<rparr>\<rparr>)
              else (Some DeadlineExceeded,
                    u\<lparr>health := \<lparr>Ready = False, LastError = ''all members failed''\<rparr>\<rparr>))))"

section \<open>The invariant of a group\<close>

definition base_ok :: "('o, 'x) base_scheme \<Rightarrow> bool" where
  "base_ok b \<longleftrightarrow> distinct (map fst (members b)) \<and> set (order b) = fst ` set (members b) \<and>
     distinct (order b) \<and> sorted (order b) \<and> (order b \<noteq> [] \<longrightarrow> current b \<in> set (order b))"

lemma base_ok_cur: "base_ok b \<Longrightarrow> order b \<noteq> [] \<Longrightarrow> current b \<in> set (order b)"
  unfolding base_ok_def by blast

lemma base_ok_outbound: "base_ok b \<Longrightarrow> order b \<noteq> [] \<Longrightarrow> currentOutbound b \<noteq> None"
  unfolding base_ok_def currentOutbound_def map_of_eq_None_iff by blast

lemma base_ok_set_current:
  "base_ok b \<Longrightarrow> name \<in> set (order b) \<Longrightarrow> base_ok (b\<lparr>current := name\<rparr>)"
  by (simp add: base_ok_def)

lemma base_ok_health [simp]: "base_ok (b\<lparr>health := h\<rparr>) = base_ok b"
  by (simp add: base_ok_def)

text \<open>The state of the loop that adds the members in name order.\<close>

definition adding :: "string list \<Rightarrow> (string \<times> 'o) list \<Rightarrow> ('o, 'x) base_scheme \<Rightarrow> bool" where
  "adding ns m b \<longleftrightarrow> order b = ns \<and> distinct (map fst (members b)) \<and>
     map_of (members b) = map_of m |` set ns \<and> (ns \<noteq> [] \<longrightarrow> current b \<in> set ns) \<and> (ns = [] \<longrightarrow> current b = [])"

lemma addMember_adding:
  assumes "adding ns m b" "map_of m n = Some ob"
  shows "adding (ns @ [n]) m (addMember n ob b)"
  using assms by (auto simp: adding_def addMember_def Let_def distinct_update update_conv' restrict_map_def fun_eq_iff)

lemma add_all_adding:
  assumes "adding [] m b"
  shows "adding (orderedNames m) m (add_all m b)"
proof -
  have "adding ns m b \<Longrightarrow> set ns' \<subseteq> dom (map_of m) \<Longrightarrow>
      adding (ns @ ns') m (foldl (\<lambda>b name. case map_of m name of None \<Rightarrow> b | Some ob \<Rightarrow> addMember name ob b) b ns')"
    for ns ns' b
  proof (induction ns' arbitrary: ns b)
    case (Cons n ns')
    then obtain ob where ob: "map_of m n = Some ob" by auto
    from Cons.IH [OF addMember_adding [OF Cons.prems(1) ob]] Cons.prems(2) ob show ?case by simp
  qed simp
  from this [OF assms, of "orderedNames m"] show ?thesis
    unfolding add_all_def by (simp add: orderedNames_def dom_map_of_conv_image_fst)
qed

lemma adding_base_ok:
  assumes "adding (orderedNames m) m b" "distinct (map fst m)"
  shows "base_ok b \<and> order b = orderedNames m \<and> map_of (members b) = map_of m"
proof -
  have ns: "set (orderedNames m) = dom (map_of m)" "distinct (orderedNames m)" "sorted (orderedNames m)"
    using assms(2) by (auto simp: orderedNames_def dom_map_of_conv_image_fst)
  have mem: "map_of (members b) = map_of m"
    using assms(1) ns(1) by (auto simp: adding_def restrict_map_def fun_eq_iff dom_def split: if_splits)
  then have "fst ` set (members b) = dom (map_of m)" by (metis dom_map_of_conv_image_fst)
  with mem ns assms(1) show ?thesis by (auto simp: base_ok_def adding_def)
qed

lemma adding_new:
  "adding [] m (newBase i t)" "adding [] m (base.extend (newBase i t) x)"
  by (simp_all add: adding_def newBase_def base.extend_def fun_eq_iff)

lemma NewSelect_ok:
  assumes "distinct (map fst m)"
  shows "base_ok (NewSelect i m initial) \<and> order (NewSelect i m initial) = orderedNames m \<and>
    map_of (members (NewSelect i m initial)) = map_of m"
proof -
  let ?b = "add_all m (newBase i ''select'')"
  have ok: "base_ok ?b" "order ?b = orderedNames m" "map_of (members ?b) = map_of m"
    using adding_base_ok [OF add_all_adding [OF adding_new(1)] assms] by auto
  have "map_of m initial \<noteq> None \<Longrightarrow> initial \<in> set (order ?b)"
    unfolding ok(2) orderedNames_def by (simp add: map_of_eq_None_iff)
  with ok base_ok_set_current [OF ok(1)] show ?thesis by (auto simp: NewSelect_def Let_def)
qed

lemma NewURLTest_ok:
  assumes "distinct (map fst m)"
  shows "base_ok (NewURLTest i m tgt t) \<and> order (NewURLTest i m tgt t) = orderedNames m \<and>
    map_of (members (NewURLTest i m tgt t)) = map_of m"
  unfolding NewURLTest_def Let_def by (rule adding_base_ok [OF add_all_adding [OF adding_new(2)] assms])

lemma addMember_more [simp]: "base.more (addMember n ob b) = base.more b"
  by (simp add: addMember_def Let_def)

lemma add_all_more: "base.more (add_all m b) = base.more b"
proof -
  have "base.more (foldl (\<lambda>b name. case map_of m name of None \<Rightarrow> b | Some ob \<Rightarrow> addMember name ob b) b ns) = base.more b" for ns
    by (induction ns arbitrary: b) (auto split: option.splits)
  then show ?thesis by (simp add: add_all_def)
qed

lemma SetCurrent_ok: "base_ok s \<Longrightarrow> base_ok (snd (SetCurrent n s)) \<and> order (snd (SetCurrent n s)) = order s"
  by (auto simp: SetCurrent_def base_ok_def map_of_eq_None_iff)

section \<open>Choosing by latency\<close>

lemma choose_loop_find:
  "choose_loop cur tol best cs =
     (case find (\<lambda>c. u_name c = cur \<and> \<not> u_err c) cs of
        None \<Rightarrow> u_name best
      | Some c \<Rightarrow> if u_latency c \<le> u_latency best + tol then cur else u_name best)"
  by (induction cs) auto

lemma find_SomeD: "find P xs = Some x \<Longrightarrow> x \<in> set xs \<and> P x"
  by (induction xs) (auto split: if_splits)

lemma orderedNames_simps [simp]: "set (orderedNames m) = fst ` set m" "orderedNames m = [] \<longleftrightarrow> m = []"
  unfolding orderedNames_def by (simp, metis list.map_disc_iff set_empty set_sort)

lemma sort_results_head:
  assumes "sort_results rs = best # rest"
  shows "best \<in> set rs" "u_err best \<Longrightarrow> r \<in> set rs \<Longrightarrow> u_err r"
    "\<not> u_err best \<Longrightarrow> r \<in> set rs \<Longrightarrow> \<not> u_err r \<Longrightarrow> u_latency best \<le> u_latency r"
proof -
  have set: "set rs = insert best (set rest)" using assms by (metis set_sort sort_results_def list.simps(15))
  then show "best \<in> set rs" by simp
  have "sorted (map (\<lambda>r. (u_err r, if u_err r then 0 else u_latency r)) (best # rest))"
    using assms by (metis sorted_sort_key sort_results_def)
  then have le: "r \<in> set rs \<Longrightarrow>
      (u_err best, if u_err best then 0 else u_latency best) \<le> (u_err r, if u_err r then 0 else u_latency r)" for r
    using set by auto
  show "u_err best \<Longrightarrow> r \<in> set rs \<Longrightarrow> u_err r"
    "\<not> u_err best \<Longrightarrow> r \<in> set rs \<Longrightarrow> \<not> u_err r \<Longrightarrow> u_latency best \<le> u_latency r"
    using le [of r] by auto
qed

definition results_of :: "(string \<Rightarrow> int \<times> bool) \<Rightarrow> string list \<Rightarrow> urlTestResult list" where
  "results_of probe arrival =
     map (\<lambda>name. \<lparr>u_name = name, u_latency = fst (probe name), u_err = snd (probe name)\<rparr>) arrival"

text \<open>
  What a choice among probed members has to satisfy: it is ready when some member is healthy; the
  selected member is then healthy and at most the tolerance slower than any healthy one; a
  current member within the tolerance is kept; a switch goes to a fastest member; and without a
  healthy member nothing changes.
\<close>

definition good_choice :: "(string \<Rightarrow> int \<times> bool) \<Rightarrow> string list \<Rightarrow> int \<Rightarrow> string \<Rightarrow> string \<Rightarrow> bool \<Rightarrow> bool" where
  "good_choice probe names tol cur sel ready \<longleftrightarrow>
     (let healthy = {n \<in> set names. \<not> snd (probe n)}; lat = (\<lambda>n. fst (probe n)) in
      (ready \<longleftrightarrow> healthy \<noteq> {}) \<and>
      (if ready then sel \<in> healthy \<and> (\<forall>n\<in>healthy. lat sel \<le> lat n + tol) \<and>
         (cur \<in> healthy \<and> (\<forall>n\<in>healthy. lat cur \<le> lat n + tol) \<longrightarrow> sel = cur) \<and>
         (sel \<noteq> cur \<longrightarrow> (\<forall>n\<in>healthy. lat sel \<le> lat n))
       else sel = cur))"

lemma results_of_iff:
  "r \<in> set (results_of probe ns) \<longleftrightarrow>
   u_name r \<in> set ns \<and> u_latency r = fst (probe (u_name r)) \<and> u_err r = snd (probe (u_name r))"
  by (cases r) (auto simp: results_of_def)

lemma results_of_mem:
  "n \<in> set ns \<Longrightarrow> \<lparr>u_name = n, u_latency = fst (probe n), u_err = snd (probe n)\<rparr> \<in> set (results_of probe ns)"
  by (simp add: results_of_iff)

lemma results_of_least:
  assumes "sort_results (results_of probe ns) = best # rest" "\<not> u_err best" "n \<in> set ns" "\<not> snd (probe n)"
  shows "fst (probe (u_name best)) \<le> fst (probe n)"
  using sort_results_head(3) [OF assms(1,2) results_of_mem [OF assms(3)]] assms(4)
    sort_results_head(1) [OF assms(1)] by (simp add: results_of_iff)

lemma chooseURLTestCurrent_good:
  assumes "0 \<le> tol" and choose: "chooseURLTestCurrent cur tol (sort_results (results_of probe ns)) = (sel, ready)"
  shows "good_choice probe ns tol cur sel ready"
proof (cases "sort_results (results_of probe ns)")
  case Nil
  then have "ns = []" by (metis results_of_def list.map_disc_iff set_sort sort_results_def set_empty)
  with choose Nil show ?thesis by (simp add: chooseURLTestCurrent_def good_choice_def)
next
  case (Cons best rest)
  note b = sort_results_head(1) [OF Cons, unfolded results_of_iff]
  show ?thesis
  proof (cases "u_err best")
    case True
    then have "\<forall>n\<in>set ns. snd (probe n)" using sort_results_head(2) [OF Cons True results_of_mem] by simp
    with True choose Cons show ?thesis by (simp add: chooseURLTestCurrent_def good_choice_def)
  next
    case False
    note least = results_of_least [OF Cons False]
    have set: "set (best # rest) = set (results_of probe ns)" using Cons by (metis set_sort sort_results_def)
    have ready: "ready" and sel: "sel = choose_loop cur tol best (best # rest)"
      using False choose Cons by (simp_all add: chooseURLTestCurrent_def)
    show ?thesis
    proof (cases "find (\<lambda>c. u_name c = cur \<and> \<not> u_err c) (best # rest)")
      case None
      then have "\<not> (cur \<in> set ns \<and> \<not> snd (probe cur))"
        using results_of_mem [of cur ns probe] unfolding find_None_iff set by (metis urlTestResult.select_convs(1,3))
      moreover from None have "sel = u_name best" using sel by (simp only: choose_loop_find) simp
      ultimately show ?thesis
        using b least False assms(1) ready by (fastforce simp: good_choice_def Let_def)
    next
      case (Some c)
      then have c: "u_name c = cur" "cur \<in> set ns" "u_latency c = fst (probe cur)" "\<not> snd (probe cur)"
        using find_SomeD [OF Some] results_of_iff [of c probe ns] unfolding set by auto
      have s: "sel = (if u_latency c \<le> u_latency best + tol then cur else u_name best)"
        using sel Some by (simp only: choose_loop_find) simp
      show ?thesis
        using s c b least False assms(1) ready by (fastforce simp: good_choice_def Let_def)
    qed
  qed
qed

section \<open>The contract of a strategy group\<close>

text \<open>
  What the router relies on: whatever events a group processes, its current member stays one of
  the members it was created with.
\<close>

locale strategy_group =
  fixes ok :: "'s \<Rightarrow> bool" and mems :: "'s \<Rightarrow> string list" and cur :: "'s \<Rightarrow> string"
    and upd :: "'ev \<Rightarrow> 's \<Rightarrow> 's" and legal :: "'ev \<Rightarrow> 's \<Rightarrow> bool"
  assumes cur_in: "ok s \<Longrightarrow> mems s \<noteq> [] \<Longrightarrow> cur s \<in> set (mems s)"
    and upd_ok: "ok s \<Longrightarrow> legal ev s \<Longrightarrow> ok (upd ev s)"
    and upd_mems: "ok s \<Longrightarrow> legal ev s \<Longrightarrow> mems (upd ev s) = mems s"
begin

fun legal_run :: "'ev list \<Rightarrow> 's \<Rightarrow> bool" where
  "legal_run [] s \<longleftrightarrow> True"
| "legal_run (ev # evs) s \<longleftrightarrow> legal ev s \<and> legal_run evs (upd ev s)"

lemma run_inv: "ok s \<Longrightarrow> legal_run evs s \<Longrightarrow> ok (fold upd evs s) \<and> mems (fold upd evs s) = mems s"
  by (induction evs arbitrary: s) (auto simp: upd_ok upd_mems)

lemma run_cur: "ok s \<Longrightarrow> legal_run evs s \<Longrightarrow> mems s \<noteq> [] \<Longrightarrow> cur (fold upd evs s) \<in> set (mems s)"
  using run_inv [of s evs] cur_in [of "fold upd evs s"] by simp

end

definition select_upd :: "string \<Rightarrow> 'o base \<Rightarrow> 'o base" where
  "select_upd name s = snd (SetCurrent name s)"

interpretation sel: strategy_group base_ok order current select_upd "\<lambda>_ _. True"
  by unfold_locales (simp_all add: base_ok_cur select_upd_def SetCurrent_ok)

text \<open>An event of a URL test group: the verdict on its target, the probe results and their order.\<close>

type_synonym probe_event = "(string \<Rightarrow> (string \<times> string) option) \<times> (string \<Rightarrow> int \<times> bool) \<times> string list"

definition urltest_upd :: "probe_event \<Rightarrow> 'o URLTest \<Rightarrow> 'o URLTest" where
  "urltest_upd ev u = (case ev of (p, probe, arrival) \<Rightarrow> snd (URLTest_Refresh p probe arrival u))"

definition urltest_legal :: "probe_event \<Rightarrow> 'o URLTest \<Rightarrow> bool" where
  "urltest_legal ev u = (case ev of (p, probe, arrival) \<Rightarrow> set arrival = set (order u))"

definition urltest_ok :: "'o URLTest \<Rightarrow> bool" where
  "urltest_ok u \<longleftrightarrow> base_ok u \<and> 0 \<le> tolerance u"

definition target_ok :: "(string \<Rightarrow> (string \<times> string) option) \<Rightarrow> string \<Rightarrow> bool" where
  "target_ok p t = (case p t of None \<Rightarrow> False | Some (scheme, host) \<Rightarrow> host \<noteq> [] \<and> scheme \<in> {''http'', ''https''})"

lemma URLTest_Refresh_eq:
  assumes "chooseURLTestCurrent (current u) (tolerance u) (sort_results (results_of probe arrival)) = (sel, ready)"
  shows "URLTest_Refresh p probe arrival u =
    (if \<not> target_ok p (testTarget (target u)) then (Some (InvalidTestURL (testTarget (target u))), u)
     else if ready then (None, u\<lparr>current := sel, health := \<lparr>Ready = True, LastError = []\<rparr>\<rparr>)
     else (Some DeadlineExceeded, u\<lparr>health := \<lparr>Ready = False, LastError = ''all members failed''\<rparr>\<rparr>))"
  unfolding URLTest_Refresh_def target_ok_def Let_def results_of_def [symmetric] assms prod.case
  by (cases "p (testTarget (target u))") (auto split: if_splits)

lemma URLTest_Refresh_cases:
  assumes "urltest_ok u" "set arrival = set (order u)"
  obtains sel ready where "good_choice probe (order u) (tolerance u) (current u) sel ready"
    "URLTest_Refresh p probe arrival u =
      (if \<not> target_ok p (testTarget (target u)) then (Some (InvalidTestURL (testTarget (target u))), u)
       else if ready then (None, u\<lparr>current := sel, health := \<lparr>Ready = True, LastError = []\<rparr>\<rparr>)
       else (Some DeadlineExceeded, u\<lparr>health := \<lparr>Ready = False, LastError = ''all members failed''\<rparr>\<rparr>))"
proof -
  obtain sel ready where c: "chooseURLTestCurrent (current u) (tolerance u) (sort_results (results_of probe arrival)) = (sel, ready)"
    by fastforce
  have "good_choice probe arrival (tolerance u) (current u) sel ready"
    using chooseURLTestCurrent_good [OF _ c] assms(1) by (simp add: urltest_ok_def)
  then have "good_choice probe (order u) (tolerance u) (current u) sel ready"
    using assms(2) by (simp add: good_choice_def)
  from that [OF this URLTest_Refresh_eq [OF c]] show thesis .
qed

interpretation ut: strategy_group urltest_ok order current urltest_upd urltest_legal
proof unfold_locales
  fix u :: "'o URLTest" and ev :: probe_event
  obtain p probe arrival where ev: "ev = (p, probe, arrival)" by (cases ev)
  assume ok: "urltest_ok u" and "urltest_legal ev u"
  then have "set arrival = set (order u)" by (simp add: ev urltest_legal_def)
  with ok obtain n ready where g: "good_choice probe (order u) (tolerance u) (current u) n ready"
    and r: "URLTest_Refresh p probe arrival u =
      (if \<not> target_ok p (testTarget (target u)) then (Some (InvalidTestURL (testTarget (target u))), u)
       else if ready then (None, u\<lparr>current := n, health := \<lparr>Ready = True, LastError = []\<rparr>\<rparr>)
       else (Some DeadlineExceeded, u\<lparr>health := \<lparr>Ready = False, LastError = ''all members failed''\<rparr>\<rparr>))"
    by (rule URLTest_Refresh_cases)
  have "ready \<Longrightarrow> n \<in> set (order u)" using g by (simp add: good_choice_def Let_def)
  then have "urltest_upd ev u = u \<or> (\<exists>n h. n \<in> set (order u) \<and> urltest_upd ev u = u\<lparr>current := n, health := h\<rparr>) \<or>
      (\<exists>h. urltest_upd ev u = u\<lparr>health := h\<rparr>)"
    by (auto simp: ev urltest_upd_def r)
  then show "urltest_ok (urltest_upd ev u)" "order (urltest_upd ev u) = order u"
    using ok by (auto simp: urltest_ok_def base_ok_set_current)
qed (auto simp: urltest_ok_def base_ok_cur)

section \<open>Properties\<close>

text \<open>
  A manual selector always has a usable current member: after any sequence of selections,
  accepted or refused, on a selector created with at least one member, the current name is one
  of its members and a dial through the group reaches that member's outbound.
\<close>

lemma Select_always_dialable:
  assumes "distinct (map fst m)" "m \<noteq> []"
  shows "\<exists>ob. currentOutbound (fold select_upd names (NewSelect i m initial)) = Some ob \<and>
    map_of m (current (fold select_upd names (NewSelect i m initial))) = Some ob"
proof -
  let ?s = "NewSelect i m initial"
  note new = NewSelect_ok [OF assms(1), of i initial]
  have ne: "order ?s \<noteq> []" using new assms(2) by simp
  have run: "sel.legal_run ns s" for ns and s :: "'a base"
    by (induction ns arbitrary: s) simp_all
  have "members (fold select_upd ns s) = members s" for ns and s :: "'a base"
    by (induction ns arbitrary: s) (simp_all add: select_upd_def SetCurrent_def)
  then have mem: "map_of (members (fold select_upd names ?s)) = map_of m" using new by simp
  have "current (fold select_upd names ?s) \<in> fst ` set m"
    using sel.run_cur [OF _ run ne, of names] new by simp
  then obtain ob where "map_of m (current (fold select_upd names ?s)) = Some ob"
    by (metis map_of_eq_None_iff not_None_eq)
  with mem show ?thesis by (simp add: currentOutbound_def)
qed



end
