(* ===== verification/Telemetry.thy ===== *)
theory Telemetry
  imports Go_Strings
begin

text \<open>
  The connection registry of \<^verbatim>\<open>hongda-core/telemetry/traffic.go\<close>: byte counters, the table of
  active connections, the bounded history of closed ones and the incremental snapshot the
  control API serves. Every operation of \<^verbatim>\<open>Connections\<close> holds its mutex for its whole body, so
  it is one state transformer. Byte counters are 64-bit integers that wrap around; the id and
  revision counters are natural numbers (a 64-bit counter that is incremented once per event
  does not wrap around). \<open>now\<close> is the value of \<^verbatim>\<open>time.Now()\<close> at the call.

  A \<^verbatim>\<open>*Connection\<close> in the table or in the history is its value; closing is recorded in the
  \<open>closeCalls\<close> field: how often the registered closer has run.
\<close>

section \<open>Counters\<close>

record Traffic =
  upload :: "64 word"
  download :: "64 word"

definition AddUpload :: "64 word \<Rightarrow> Traffic \<Rightarrow> Traffic" where
  "AddUpload n t = t\<lparr>upload := upload t + n\<rparr>"

definition AddDownload :: "64 word \<Rightarrow> Traffic \<Rightarrow> Traffic" where
  "AddDownload n t = t\<lparr>download := download t + n\<rparr>"

section \<open>Connection ids\<close>

text \<open>
  \<^verbatim>\<open>idStr\<close> fills a 20-byte buffer from the right: \<open>i\<close> is the write position; decrementing it
  below 0 would index out of range.
\<close>

function idStr_loop :: "nat \<Rightarrow> nat \<Rightarrow> string \<Rightarrow> (unit, nat \<times> string) go" where
  "idStr_loop v i buf =
     (if 0 < v then
        (if i = 0 then Panic
         else idStr_loop (v div 10) (i - 1) (buf[i - 1 := ''0123456789'' ! (v mod 10)]))
      else Ret (i, buf))"
  by auto
termination
  by (relation "measure (\<lambda>(v, _, _). v)") auto

declare idStr_loop.simps [simp del]

definition idStr :: "nat \<Rightarrow> (unit, string) go" where
  "idStr v =
     gbind (idStr_loop v 20 (replicate 20 (CHR 0x00))) (\<lambda>(i, buf).
       if i = 20 then slc (buf[19 := CHR ''0'']) 19 20 else slc buf i 20)"

section \<open>Connections\<close>

record ConnectionMetadata =
  md_Network :: string
  md_Source :: string
  md_Host :: string
  md_Destination :: string
  md_Domain :: string
  md_Route :: string
  md_Outbound :: string
  md_Rule :: string

record Connection =
  ID :: string
  Metadata :: ConnectionMetadata
  StartedAt :: int
  Upload :: "64 word"
  Download :: "64 word"
  Revision :: nat
  closedAt :: "int option"
  closeDone :: bool
  closeCalls :: nat

text \<open>\<^verbatim>\<open>closeOnce.Do\<close> runs the closer at most once.\<close>

definition conn_Close :: "Connection \<Rightarrow> Connection" where
  "conn_Close c = (if closeDone c then c else c\<lparr>closeDone := True, closeCalls := closeCalls c + 1\<rparr>)"

definition markClosed :: "int \<Rightarrow> Connection \<Rightarrow> Connection" where
  "markClosed at c = c\<lparr>closedAt := Some at\<rparr>"

record Connections =
  items :: "(string \<times> Connection) list"
  history :: "Connection list"
  next_id :: nat
  revision :: nat

definition NewConnections :: Connections where
  "NewConnections = \<lparr>items = [], history = [], next_id = 0, revision = 0\<rparr>"

definition AddDetailed :: "ConnectionMetadata \<Rightarrow> int \<Rightarrow> Connections \<Rightarrow> (unit, Connection \<times> Connections) go" where
  "AddDetailed metadata now c =
     (let c1 = c\<lparr>next_id := next_id c + 1, revision := revision c + 1\<rparr> in
      gbind (idStr (next_id c1)) (\<lambda>i.
        let conn = \<lparr>ID = i, Metadata = metadata, StartedAt = now, Upload = 0, Download = 0,
                    Revision = revision c1, closedAt = None, closeDone = False, closeCalls = 0\<rparr> in
        Ret (conn, c1\<lparr>items := AList.update i conn (items c1)\<rparr>)))"

definition Remove :: "string \<Rightarrow> int \<Rightarrow> Connections \<Rightarrow> Connections" where
  "Remove i now c =
     (case map_of (items c) i of
        None \<Rightarrow> c
      | Some conn \<Rightarrow>
          (let rev' = revision c + 1;
               conn' = (markClosed now conn)\<lparr>Revision := rev'\<rparr>;
               h = history c @ [conn'];
               h' = (if 1000 < length h then drop (length h - 1000) h else h) in
           c\<lparr>items := AList.delete i (items c), revision := rev', history := h'\<rparr>))"

definition Snapshot :: "Connections \<Rightarrow> Connection list" where
  "Snapshot c = map snd (items c)"

text \<open>The loop over the history from the newest entry down, until \<open>limit\<close> rows are collected.\<close>

fun closed_since :: "nat \<Rightarrow> nat \<Rightarrow> Connection list \<Rightarrow> Connection list" where
  "closed_since after k [] = []"
| "closed_since after k (conn # older) =
     (if k = 0 then []
      else if after < Revision conn then conn # closed_since after (k - 1) older
      else closed_since after k older)"

text \<open>
  \<^verbatim>\<open>sort.Slice\<close> by start time, newest first; rows with the same start time may come in any
  order, here in the stable one.
\<close>

definition HistorySnapshotSince :: "nat \<Rightarrow> int \<Rightarrow> Connections \<Rightarrow> Connection list \<times> nat" where
  "HistorySnapshotSince after limit0 c =
     (let limit = (if limit0 \<le> 0 \<or> 1000 < limit0 then 1000 else nat limit0);
          closed = closed_since after limit (rev (history c)) in
      (sort_key (\<lambda>x. - StartedAt x) (map snd (items c) @ closed), revision c))"

definition HistorySnapshot :: "Connections \<Rightarrow> Connection list" where
  "HistorySnapshot c = fst (HistorySnapshotSince 0 1000 c)"

definition ClearHistory :: "Connections \<Rightarrow> Connections" where
  "ClearHistory c = c\<lparr>history := []\<rparr>"

text \<open>The closers run after the mutex is released; the table keeps the rows until \<^verbatim>\<open>Remove\<close>.\<close>

definition CloseAll :: "Connections \<Rightarrow> Connections" where
  "CloseAll c = c\<lparr>items := map (\<lambda>(i, conn). (i, conn_Close conn)) (items c)\<rparr>"

text \<open>Traffic counted on an active connection (\<^verbatim>\<open>conn.Upload.Add\<close>, \<^verbatim>\<open>conn.Download.Add\<close>).\<close>

definition count_conn :: "string \<Rightarrow> 64 word \<Rightarrow> 64 word \<Rightarrow> Connections \<Rightarrow> Connections" where
  "count_conn i up down c =
     c\<lparr>items := map (\<lambda>(k, conn). (k, if k = i then conn\<lparr>Upload := Upload conn + up, Download := Download conn + down\<rparr> else conn)) (items c)\<rparr>"

section \<open>Ids are decimal numerals\<close>

lemma digits_nth: "d < 10 \<Longrightarrow> ''0123456789'' ! d = digit_char d"
proof -
  assume "d < 10"
  then have "d \<in> {0, 1, 2, 3, 4, 5, 6, 7, 8, 9}" by auto
  then show ?thesis by (auto simp: digit_char_def char_of_def bit_0)
qed

lemma Itoa_div: "10 \<le> v \<Longrightarrow> Itoa v = Itoa (v div 10) @ [digit_char (v mod 10)]"
  by (subst Itoa.simps) simp

lemma idStr_loop_Itoa:
  "0 < v \<Longrightarrow> length (Itoa v) \<le> i \<Longrightarrow> i \<le> length buf \<Longrightarrow>
   \<exists>buf'. idStr_loop v i buf = Ret (i - length (Itoa v), buf') \<and> length buf' = length buf \<and>
     drop (i - length (Itoa v)) buf' = Itoa v @ drop i buf"
proof (induction v i buf rule: idStr_loop.induct)
  case (1 v i buf)
  let ?b = "buf[i - 1 := digit_char (v mod 10)]"
  have i: "0 < i" using "1.prems" by (cases "Itoa v") auto
  have step: "idStr_loop v i buf = idStr_loop (v div 10) (i - 1) ?b"
    using "1.prems"(1) i by (subst idStr_loop.simps) (simp add: digits_nth)
  have drop_b: "drop (i - 1) ?b = digit_char (v mod 10) # drop i buf"
    using i "1.prems"(3) by (simp add: drop_update_swap Cons_nth_drop_Suc [symmetric] flip: drop_Suc)
  show ?case
  proof (cases "v < 10")
    case True
    then have "idStr_loop v i buf = Ret (i - 1, ?b)" "Itoa v = [digit_char (v mod 10)]"
      using step by (simp_all add: idStr_loop.simps Itoa.simps)
    with drop_b show ?thesis by simp
  next
    case False
    then have I: "Itoa v = Itoa (v div 10) @ [digit_char (v mod 10)]" by (simp add: Itoa_div)
    from False have "0 < v div 10" by simp
    moreover have "length (Itoa (v div 10)) \<le> i - 1" "i - 1 \<le> length ?b" using "1.prems" I by auto
    ultimately obtain buf' where
      buf': "idStr_loop (v div 10) (i - 1) ?b = Ret (i - 1 - length (Itoa (v div 10)), buf')"
      "length buf' = length buf" "drop (i - 1 - length (Itoa (v div 10))) buf' = Itoa (v div 10) @ drop (i - 1) ?b"
      using "1.IH" [OF "1.prems"(1)] i by (fastforce simp: digits_nth)
    from buf'(3) have "drop (i - 1 - length (Itoa (v div 10))) buf' = Itoa (v div 10) @ digit_char (v mod 10) # drop i buf"
      by (simp only: drop_b)
    with buf'(1,2) show ?thesis by (simp add: step I)
  qed
qed

lemma Itoa_len: "v < 10 ^ k \<Longrightarrow> 0 < k \<Longrightarrow> length (Itoa v) \<le> k"
proof (induction k arbitrary: v)
  case (Suc k)
  show ?case
  proof (cases "v < 10")
    case True
    then show ?thesis by (simp add: Itoa.simps)
  next
    case False
    then have "0 < k" using Suc.prems(1) by (cases k) auto
    moreover have "v div 10 < 10 ^ k" using Suc.prems(1) by (simp add: div_less_iff_less_mult mult.commute)
    ultimately show ?thesis using Suc.IH [of "v div 10"] False by (simp add: Itoa_div)
  qed
qed simp

lemma idStr_Itoa:
  assumes "int v < 2 ^ 64"
  shows "idStr v = Ret (Itoa v)"
proof (cases "v = 0")
  case True
  moreover have "idStr 0 = Ret (Itoa 0)" by code_simp
  ultimately show ?thesis by simp
next
  case False
  have "int v < int (10 ^ 20)" using assms by simp
  then have "v < 10 ^ 20" by (simp only: of_nat_less_iff)
  then have len: "length (Itoa v) \<le> 20" using Itoa_len [of v 20] by simp
  then obtain buf where buf: "idStr_loop v 20 (replicate 20 (CHR 0x00)) = Ret (20 - length (Itoa v), buf)"
    "length buf = 20" "drop (20 - length (Itoa v)) buf = Itoa v"
    using idStr_loop_Itoa [of v 20 "replicate 20 (CHR 0x00)"] False by auto
  moreover have "20 - length (Itoa v) \<noteq> 20" using Itoa_not_Nil [of v] len by (cases "Itoa v") auto
  ultimately show ?thesis unfolding idStr_def buf(1) using len by simp
qed

section \<open>Runs of the registry\<close>

datatype conn_op = OAdd ConnectionMetadata int | ORemove string int | OClear | OCloseAll | OCount string "64 word" "64 word"

fun conn_step :: "conn_op \<Rightarrow> Connections \<Rightarrow> (unit, Connections) go" where
  "conn_step (OAdd md now) c = gbind (AddDetailed md now c) (\<lambda>(_, c'). Ret c')"
| "conn_step (ORemove i now) c = Ret (Remove i now c)"
| "conn_step OClear c = Ret (ClearHistory c)"
| "conn_step OCloseAll c = Ret (CloseAll c)"
| "conn_step (OCount i up down) c = Ret (count_conn i up down c)"

fun conn_run :: "conn_op list \<Rightarrow> Connections \<Rightarrow> (unit, Connections) go" where
  "conn_run [] c = Ret c"
| "conn_run (x # xs) c = gbind (conn_step x c) (conn_run xs)"

definition id_below :: "nat \<Rightarrow> string \<Rightarrow> bool" where
  "id_below n i \<longleftrightarrow> (\<exists>k. 0 < k \<and> k \<le> n \<and> i = Itoa k)"

definition row_ok :: "nat \<Rightarrow> nat \<Rightarrow> string \<times> Connection \<Rightarrow> bool" where
  "row_ok nxt rv p \<longleftrightarrow> (case p of (k, conn) \<Rightarrow>
     ID conn = k \<and> id_below nxt k \<and> Revision conn \<le> rv \<and> closedAt conn = None)"

definition closed_ok :: "nat \<Rightarrow> nat \<Rightarrow> Connection \<Rightarrow> bool" where
  "closed_ok nxt rv conn \<longleftrightarrow> id_below nxt (ID conn) \<and> Revision conn \<le> rv \<and> closedAt conn \<noteq> None"

definition conns_ok :: "Connections \<Rightarrow> bool" where
  "conns_ok c \<longleftrightarrow> distinct (map fst (items c) @ map ID (history c)) \<and>
     list_all (row_ok (next_id c) (revision c)) (items c) \<and>
     list_all (closed_ok (next_id c) (revision c)) (history c) \<and>
     sorted_wrt (\<lambda>a b. Revision a < Revision b) (history c) \<and> length (history c) \<le> 1000"

definition lastn :: "nat \<Rightarrow> 'a list \<Rightarrow> 'a list" where
  "lastn n xs = drop (length xs - n) xs"

lemma lastn_append: "lastn n (lastn n xs @ ys) = lastn n (xs @ ys)"
proof (cases "length xs \<le> n")
  case False
  then have "length xs - n + length ys = length xs + length ys - n" by simp
  with False show ?thesis by (simp add: lastn_def add.commute)
qed (simp add: lastn_def)

lemma lastn_short: "length xs \<le> n \<Longrightarrow> lastn n xs = xs"
  by (simp add: lastn_def)

lemma lastn_keeps: "length ys \<le> n \<Longrightarrow> \<exists>k. lastn n (xs @ ys) = drop k xs @ ys"
  by (auto simp: lastn_def)

lemma set_lastn: "set (lastn n xs) \<subseteq> set xs"
  by (simp add: lastn_def set_drop_subset)

lemma map_lastn: "map f (lastn n xs) = lastn n (map f xs)"
  by (simp add: lastn_def drop_map)

lemma distinct_append_lastn: "distinct (xs @ ys) \<Longrightarrow> distinct (xs @ lastn n ys)"
  using set_lastn [of n ys] by (auto simp: lastn_def)

lemma map_fst_delete: "map fst (AList.delete k xs) = filter (\<lambda>x. x \<noteq> k) (map fst xs)"
  by (induction xs) (auto simp: AList.delete_eq)

definition closed_row :: "int \<Rightarrow> Connections \<Rightarrow> Connection \<Rightarrow> Connection" where
  "closed_row now c conn = (markClosed now conn)\<lparr>Revision := revision c + 1\<rparr>"

lemma closed_row_simps [simp]:
  "ID (closed_row now c conn) = ID conn" "Revision (closed_row now c conn) = revision c + 1"
  "closedAt (closed_row now c conn) = Some now"
  by (simp_all add: closed_row_def markClosed_def)

lemma Remove_Some:
  "map_of (items c) i = Some conn \<Longrightarrow>
   Remove i now c = c\<lparr>items := AList.delete i (items c), revision := revision c + 1,
     history := lastn 1000 (history c @ [closed_row now c conn])\<rparr>"
  by (simp add: Remove_def Let_def lastn_def closed_row_def)

lemma AddDetailed_eq:
  "int (next_id c) + 1 < 2 ^ 64 \<Longrightarrow> AddDetailed md now c =
   (let conn = \<lparr>ID = Itoa (next_id c + 1), Metadata = md, StartedAt = now, Upload = 0, Download = 0,
       Revision = revision c + 1, closedAt = None, closeDone = False, closeCalls = 0\<rparr> in
    Ret (conn, c\<lparr>next_id := next_id c + 1, revision := revision c + 1,
       items := AList.update (Itoa (next_id c + 1)) conn (items c)\<rparr>))"
  using idStr_Itoa [of "next_id c + 1"] by (simp add: AddDetailed_def Let_def)

lemma id_below_fresh: "\<not> id_below n (Itoa (n + 1))"
  by (auto simp: id_below_def)

lemma id_below_mono: "id_below n i \<Longrightarrow> n \<le> m \<Longrightarrow> id_below m i"
  by (auto simp: id_below_def)

lemma row_ok_mono: "row_ok n r p \<Longrightarrow> n \<le> n' \<Longrightarrow> r \<le> r' \<Longrightarrow> row_ok n' r' p"
  by (auto simp: row_ok_def intro: id_below_mono)

lemma closed_ok_mono: "closed_ok n r p \<Longrightarrow> n \<le> n' \<Longrightarrow> r \<le> r' \<Longrightarrow> closed_ok n' r' p"
  by (auto simp: closed_ok_def intro: id_below_mono)

lemma conns_ok_keys:
  "conns_ok c \<Longrightarrow> k \<in> fst ` set (items c) \<or> k \<in> ID ` set (history c) \<Longrightarrow> id_below (next_id c) k"
  by (fastforce simp: conns_ok_def list_all_iff row_ok_def closed_ok_def)

lemma update_fresh: "k \<notin> fst ` set xs \<Longrightarrow> AList.update k v xs = xs @ [(k, v)]"
  by (induction xs) auto

lemma AddDetailed_ok:
  assumes ok: "conns_ok c" and n: "int (next_id c) + 1 < 2 ^ 64"
  shows "\<exists>conn c'. AddDetailed md now c = Ret (conn, c') \<and> conns_ok c' \<and> next_id c' = next_id c + 1 \<and>
    revision c' = revision c + 1 \<and> history c' = history c \<and>
    items c' = items c @ [(ID conn, conn)] \<and> ID conn = Itoa (next_id c + 1)"
proof -
  let ?k = "Itoa (next_id c + 1)"
  have fresh: "?k \<notin> fst ` set (items c)" "?k \<notin> ID ` set (history c)"
    using conns_ok_keys [OF ok, of ?k] id_below_fresh by auto
  define conn where "conn = \<lparr>ID = ?k, Metadata = md, StartedAt = now, Upload = 0, Download = 0,
       Revision = revision c + 1, closedAt = None, closeDone = False, closeCalls = 0\<rparr>"
  let ?c = "c\<lparr>next_id := next_id c + 1, revision := revision c + 1, items := items c @ [(?k, conn)]\<rparr>"
  have "id_below (next_id c + 1) ?k" by (auto simp: id_below_def)
  then have new: "row_ok (next_id c + 1) (revision c + 1) (?k, conn)" by (simp add: row_ok_def conn_def)
  have old: "list_all (row_ok (next_id c + 1) (revision c + 1)) (items c)"
    "list_all (closed_ok (next_id c + 1) (revision c + 1)) (history c)"
    using ok by (auto simp: conns_ok_def list_all_iff intro: row_ok_mono closed_ok_mono)
  have "conns_ok ?c" using ok fresh new old by (simp add: conns_ok_def)
  moreover have "AddDetailed md now c = Ret (conn, ?c)"
    unfolding AddDetailed_eq [OF n] Let_def conn_def update_fresh [OF fresh(1)] by simp
  ultimately show ?thesis by (auto simp: conn_def)
qed

lemma Remove_ok:
  assumes ok: "conns_ok c" and i: "map_of (items c) i = Some conn"
  shows "conns_ok (Remove i now c)"
proof -
  let ?r = "closed_row now c conn"
  have mem: "(i, conn) \<in> set (items c)" using i by (rule map_of_SomeD)
  then have row: "ID conn = i" "id_below (next_id c) i" using ok by (auto simp: conns_ok_def list_all_iff row_ok_def)
  have keys: "i \<in> set (map fst (items c))" using mem by force
  have d: "distinct (map fst (AList.delete i (items c)) @ map ID (history c @ [?r]))"
    using ok row(1) keys unfolding conns_ok_def map_fst_delete by (simp del: set_map) blast
  have s: "sorted_wrt (\<lambda>a b. Revision a < Revision b) (history c @ [?r])"
    using ok by (auto simp: conns_ok_def sorted_wrt_append list_all_iff closed_ok_def intro: le_imp_less_Suc)
  have a: "list_all (closed_ok (next_id c) (revision c + 1)) (history c @ [?r])"
    using ok row by (auto simp: conns_ok_def list_all_iff closed_ok_def)
  have b: "list_all (row_ok (next_id c) (revision c + 1)) (AList.delete i (items c))"
    using ok by (auto simp: conns_ok_def list_all_iff AList.delete_eq intro: row_ok_mono)
  have "distinct (map fst (AList.delete i (items c)) @ map ID (lastn 1000 (history c @ [?r])))"
    using distinct_append_lastn [OF d] by (simp only: map_lastn)
  moreover have "sorted_wrt (\<lambda>a b. Revision a < Revision b) (lastn 1000 (history c @ [?r]))"
    using s unfolding lastn_def by (rule sorted_wrt_drop)
  moreover have "list_all (closed_ok (next_id c) (revision c + 1)) (lastn 1000 (history c @ [?r]))"
    using a set_lastn [of 1000 "history c @ [?r]"] by (auto simp: list_all_iff)
  moreover have "length (lastn 1000 (history c @ [?r])) \<le> 1000" by (simp add: lastn_def)
  ultimately show ?thesis unfolding Remove_Some [OF i] using b by (simp add: conns_ok_def)
qed

lemma Remove_None: "map_of (items c) i = None \<Longrightarrow> Remove i now c = c"
  by (simp add: Remove_def)

lemma map_items_ok:
  assumes "conns_ok c" "\<And>k conn. ID (f k conn) = ID conn \<and> Revision (f k conn) = Revision conn \<and> closedAt (f k conn) = closedAt conn"
  shows "conns_ok (c\<lparr>items := map (\<lambda>(k, conn). (k, f k conn)) (items c)\<rparr>)"
proof -
  have "map fst (map (\<lambda>(k, conn). (k, f k conn)) (items c)) = map fst (items c)" by auto
  moreover have "list_all (row_ok (next_id c) (revision c)) (map (\<lambda>(k, conn). (k, f k conn)) (items c))"
    using assms by (auto simp: conns_ok_def list_all_iff row_ok_def)
  ultimately show ?thesis using assms(1) by (simp add: conns_ok_def del: map_map)
qed

text \<open>What a step does to the parts an incremental reader depends on.\<close>

definition step_rel :: "Connections \<Rightarrow> Connections \<Rightarrow> Connection list \<Rightarrow> bool" where
  "step_rel c c' new \<longleftrightarrow> history c' = lastn 1000 (history c @ new) \<and> revision c \<le> revision c' \<and>
     (\<forall>r\<in>set new. revision c < Revision r \<and> closedAt r \<noteq> None) \<and>
     fst ` set (items c) \<subseteq> fst ` set (items c') \<union> ID ` set new"

fun is_remove :: "conn_op \<Rightarrow> bool" where
  "is_remove (ORemove _ _) = True"
| "is_remove _ = False"

lemma history_lastn: "conns_ok c \<Longrightarrow> lastn 1000 (history c) = history c"
  by (simp add: conns_ok_def lastn_short)

lemma conn_step_ok:
  assumes ok: "conns_ok c" and n: "int (next_id c) + 1 < 2 ^ 64"
  shows "\<exists>c'. conn_step x c = Ret c' \<and> conns_ok c' \<and> next_id c' \<le> next_id c + 1 \<and>
    (x \<noteq> OClear \<longrightarrow> (\<exists>new. step_rel c c' new \<and> length new \<le> (if is_remove x then 1 else 0)))"
proof (cases x)
  case (OAdd md now)
  with AddDetailed_ok [OF ok n, of md now] history_lastn [OF ok] show ?thesis by (auto simp: step_rel_def)
next
  case (ORemove i now)
  show ?thesis
  proof (cases "map_of (items c) i")
    case None
    then show ?thesis using ORemove ok history_lastn [OF ok]
      by (auto simp: Remove_None step_rel_def intro: exI [of _ "[]"])
  next
    case (Some conn)
    have "ID conn = i" using map_of_SomeD [OF Some] ok by (auto simp: conns_ok_def list_all_iff row_ok_def)
    then have "step_rel c (Remove i now c) [closed_row now c conn]"
      unfolding Remove_Some [OF Some] by (auto simp: step_rel_def AList.delete_eq image_iff)
    with Remove_ok [OF ok Some, of now] ORemove show ?thesis
      by (auto simp: Remove_Some [OF Some])
  qed
next
  case OClear
  with ok show ?thesis by (simp add: ClearHistory_def conns_ok_def)
next
  case OCloseAll
  have "conns_ok (CloseAll c)" unfolding CloseAll_def using ok by (rule map_items_ok) (simp add: conn_Close_def)
  with OCloseAll history_lastn [OF ok] show ?thesis by (force simp: step_rel_def CloseAll_def)
next
  case (OCount i up down)
  have "conns_ok (count_conn i up down c)" unfolding count_conn_def using ok by (rule map_items_ok) simp
  with OCount history_lastn [OF ok] show ?thesis by (force simp: step_rel_def count_conn_def)
qed

lemma step_rel_trans:
  assumes "step_rel a b xs" "step_rel b c ys"
  shows "step_rel a c (xs @ ys)"
proof -
  have "history c = lastn 1000 (history a @ xs @ ys)"
    using assms lastn_append [of 1000 "history a @ xs" ys] by (simp add: step_rel_def)
  moreover have "fst ` set (items a) \<subseteq> fst ` set (items c) \<union> ID ` set (xs @ ys)"
  proof -
    have "fst ` set (items a) \<subseteq> fst ` set (items b) \<union> ID ` set xs" "fst ` set (items b) \<subseteq> fst ` set (items c) \<union> ID ` set ys"
      using assms by (simp_all add: step_rel_def)
    then show ?thesis unfolding set_append image_Un by blast
  qed
  moreover have "\<forall>r\<in>set (xs @ ys). revision a < Revision r \<and> closedAt r \<noteq> None"
  proof
    fix r assume "r \<in> set (xs @ ys)"
    then show "revision a < Revision r \<and> closedAt r \<noteq> None"
      using assms by (cases "r \<in> set xs") (auto simp: step_rel_def dest: bspec intro: le_less_trans)
  qed
  moreover have "revision a \<le> revision c" using assms unfolding step_rel_def by linarith
  ultimately show ?thesis unfolding step_rel_def by blast
qed

lemma conn_run_ok:
  "conns_ok c \<Longrightarrow> int (next_id c) + int (length xs) < 2 ^ 64 \<Longrightarrow>
   \<exists>c'. conn_run xs c = Ret c' \<and> conns_ok c' \<and>
     (OClear \<notin> set xs \<longrightarrow> (\<exists>new. step_rel c c' new \<and> length new \<le> length (filter is_remove xs)))"
proof (induction xs arbitrary: c)
  case Nil
  then show ?case using history_lastn [of c] by (auto simp: step_rel_def)
next
  case (Cons x xs)
  from Cons.prems have "int (next_id c) + 1 < 2 ^ 64" by simp
  from conn_step_ok [OF Cons.prems(1) this, of x] obtain c1 where
    c1: "conn_step x c = Ret c1" "conns_ok c1" "next_id c1 \<le> next_id c + 1"
    "x \<noteq> OClear \<longrightarrow> (\<exists>new. step_rel c c1 new \<and> length new \<le> (if is_remove x then 1 else 0))" by blast
  with Cons.prems(2) Cons.IH [of c1] obtain c2 where
    c2: "conn_run xs c1 = Ret c2" "conns_ok c2"
    "OClear \<notin> set xs \<longrightarrow> (\<exists>new. step_rel c1 c2 new \<and> length new \<le> length (filter is_remove xs))" by auto
  have "OClear \<notin> set (x # xs) \<longrightarrow> (\<exists>new. step_rel c c2 new \<and> length new \<le> length (filter is_remove (x # xs)))"
  proof
    assume "OClear \<notin> set (x # xs)"
    then obtain n1 n2 where "step_rel c c1 n1" "length n1 \<le> (if is_remove x then 1 else 0)"
      "step_rel c1 c2 n2" "length n2 \<le> length (filter is_remove xs)"
      using c1(4) c2(3) by auto
    then show "\<exists>new. step_rel c c2 new \<and> length new \<le> length (filter is_remove (x # xs))"
      using step_rel_trans by (intro exI [of _ "n1 @ n2"]) (auto split: if_splits)
  qed
  with c1 c2 show ?case by simp
qed

lemma closed_since_all:
  "length xs \<le> k \<Longrightarrow> \<forall>x\<in>set xs. after < Revision x \<Longrightarrow> set xs \<subseteq> set (closed_since after k (xs @ ys))"
proof (induction xs arbitrary: k)
  case (Cons x xs)
  then show ?case using Cons.IH [of "k - 1"] by fastforce
qed simp

lemma conns_ok_New: "conns_ok NewConnections"
  by (simp add: conns_ok_def NewConnections_def)

section \<open>Properties\<close>

text \<open>
  C28: the registry keeps its invariant under every sequence of operations and never panics:
  the ids of active and remembered connections are all different decimal numerals, every
  active row is open and every remembered row closed, the history is ordered by revision and
  holds at most 1000 rows.
\<close>

theorem Connections_invariant:
  assumes "int (length ops) < 2 ^ 64"
  shows "\<exists>c. conn_run ops NewConnections = Ret c \<and> conns_ok c"
  using conn_run_ok [OF conns_ok_New, of ops] assms by (auto simp: NewConnections_def)

theorem Connections_invariant_witness:
  "\<exists>c. conn_run [OAdd \<lparr>md_Network = ''tcp'', md_Source = [], md_Host = [], md_Destination = [], md_Domain = [],
     md_Route = [], md_Outbound = [], md_Rule = []\<rparr> 5, ORemove ''1'' 9] NewConnections = Ret c \<and> conns_ok c"
  by (rule Connections_invariant) simp


definition registry_example :: Connections where
  "registry_example = \<lparr>items = [(''1'', \<lparr>ID = ''1'', Metadata = \<lparr>md_Network = ''tcp'', md_Source = [], md_Host = [],
      md_Destination = [], md_Domain = [], md_Route = [], md_Outbound = [], md_Rule = []\<rparr>, StartedAt = 5, Upload = 0,
      Download = 0, Revision = 1, closedAt = None, closeDone = False, closeCalls = 0\<rparr>)],
    history = [], next_id = 1, revision = 1\<rparr>"


end
