(* ===== verification/Router.thy ===== *)
theory Router
  imports DNS_Cache Ruleset_Set Strategy Telemetry
begin

text \<open>
  The traffic decision point (\<^verbatim>\<open>hongda-core/route/router.go\<close> and the lookup half of
  \<^verbatim>\<open>dns.go\<close>): rule matching, the routing decision, resolution of groups to outbounds, name
  lookup, DNS interception, dialling and connection tracking.

  The router record holds what is fixed after start-up (policy, rule sets, outbounds); the DNS
  state of \<^verbatim>\<open>DNS_Cache\<close> is threaded through every operation that looks up or prunes a cache.
  The record \<open>rworld\<close> holds what the operations obtain from outside: the clock before and
  after a network exchange, the scope hash, the system resolver, the DoH exchange, the result an
  awaited in-flight query shares, the map iteration choice and the dial results.
\<close>

section \<open>State\<close>

text \<open>
  An outbound behind the interface \<^verbatim>\<open>model.Outbound\<close>: the direct outbound with the adapter
  index its sockets are bound to (the only \<^verbatim>\<open>InterfaceAware\<close> one), a proxy node with its
  protocol type, or a strategy group.
\<close>

datatype outbound = Direct int | Leaf string | GSelect "unit base" | GURLTest "unit URLTest"

record router =
  rt_final :: string
  rt_outbounds :: "(string \<times> outbound) list"
  rt_rules :: "Rule list"
  rt_ruleSets :: "(string \<times> ruleset) list"
  rt_dns :: DNSOptions

record rworld =
  rw_now :: int
  rw_later :: int
  rw_pick :: nat
  rw_scope :: "DNSOptions \<Rightarrow> string \<Rightarrow> string"
  rw_lookup :: "string \<Rightarrow> unit + bytes list"
  rw_exchange :: "bytes \<Rightarrow> exchange_error + bytes"
  rw_shared :: "string \<Rightarrow> exchange_error + bytes"
  rw_canceled :: bool
  rw_dial :: "string \<Rightarrow> string \<Rightarrow> string \<Rightarrow> bool"

definition New :: "string \<Rightarrow> router" where
  "New final = \<lparr>rt_final = final, rt_outbounds = [], rt_rules = [], rt_ruleSets = [], rt_dns = zero_DNSOptions\<rparr>"

definition Register :: "string \<Rightarrow> outbound \<Rightarrow> router \<Rightarrow> router" where
  "Register i ob r = r\<lparr>rt_outbounds := AList.update i ob (rt_outbounds r)\<rparr>"

definition SetPolicy :: "Rule list \<Rightarrow> DNSOptions \<Rightarrow> router \<Rightarrow> router" where
  "SetPolicy rules dns r = r\<lparr>rt_rules := rules, rt_dns := dns\<rparr>"

fun set_index :: "int \<Rightarrow> outbound \<Rightarrow> outbound" where
  "set_index index (Direct _) = Direct index"
| "set_index index ob = ob"

definition SetDirectInterface :: "int \<Rightarrow> router \<Rightarrow> router" where
  "SetDirectInterface index r = r\<lparr>rt_outbounds := map (\<lambda>(i, ob). (i, set_index index ob)) (rt_outbounds r)\<rparr>"

definition SetRuleSets :: "(string \<times> ruleset) list \<Rightarrow> router \<Rightarrow> router" where
  "SetRuleSets sets r = r\<lparr>rt_ruleSets := sets\<rparr>"

datatype route_error =
    RuleReject string
  | UnknownOutbound string
  | DialFailed
  | BadAddress
  | NoAddresses
  | LookupFailed
  | ExchangeFailed exchange_error
  | ParseFailed dns_error
  | DNSModeNotDoH
  | DNSResponseError dns_error

section \<open>Resolution of groups\<close>

fun group_current :: "outbound \<Rightarrow> string option" where
  "group_current (Direct _) = None"
| "group_current (Leaf _) = None"
| "group_current (GSelect b) = Some (Current b)"
| "group_current (GURLTest u) = Some (Current u)"

function resolve_loop :: "(string \<times> outbound) list \<Rightarrow> string list \<Rightarrow> string \<Rightarrow> string" where
  "resolve_loop obs seen tag =
     (case map_of obs tag of
        None \<Rightarrow> tag
      | Some ob \<Rightarrow>
          (case group_current ob of
             None \<Rightarrow> tag
           | Some cur \<Rightarrow> if tag \<in> set seen then tag else resolve_loop obs (tag # seen) cur))"
  by auto
termination
proof (relation "measure (\<lambda>(obs, seen, tag). card (fst ` set obs - set seen))")
  fix obs :: "(string \<times> outbound) list" and seen tag ob cur
  assume "map_of obs tag = Some ob" "tag \<notin> set seen"
  then have "tag \<in> fst ` set obs - set seen" by (force dest: map_of_SomeD)
  then have "fst ` set obs - set (tag # seen) \<subset> fst ` set obs - set seen" by auto
  then show "((obs, tag # seen, cur), obs, seen, tag) \<in> measure (\<lambda>(obs, seen, tag). card (fst ` set obs - set seen))"
    by (simp only: in_measure prod.case) (rule psubset_card_mono, simp)
qed simp

declare resolve_loop.simps [simp del]

definition resolve :: "router \<Rightarrow> string \<Rightarrow> string" where
  "resolve r tag = resolve_loop (rt_outbounds r) [] tag"

section \<open>Name lookup\<close>

definition dnsTarget :: "router \<Rightarrow> string" where
  "dnsTarget r = (let target = dns_Detour (rt_dns r) in resolve r (if target = [] then ''direct'' else target))"

definition dnsCacheScope :: "rworld \<Rightarrow> router \<Rightarrow> string" where
  "dnsCacheScope w r = rw_scope w (rt_dns r) (dnsTarget r)"

text \<open>
  \<^verbatim>\<open>exchangeDoHCached\<close>: the two critical sections around the HTTP exchange. A response that
  comes with an error is dropped, as every caller does.
\<close>

definition remember :: "rworld \<Rightarrow> int \<Rightarrow> bytes \<Rightarrow> bytes \<Rightarrow> string \<Rightarrow> bytes \<Rightarrow> dns_state \<Rightarrow> (route_error, bytes) go \<times> dns_state" where
  "remember w now query response scope result st =
     (case rememberDNSResponseScoped (rw_pick w) now query response scope st of
        Ret st' \<Rightarrow> (Ret result, st')
      | Err e \<Rightarrow> (Ret result, st)
      | Panic \<Rightarrow> (Panic, st))"

definition exchangeDoHCached :: "rworld \<Rightarrow> router \<Rightarrow> bytes \<Rightarrow> dns_state \<Rightarrow> (route_error, bytes) go \<times> dns_state" where
  "exchangeDoHCached w r query st =
     (let target = dnsTarget r; scope = rw_scope w (rt_dns r) target in
      case dohHTTPClient scope target (map_of (rt_outbounds r) target \<noteq> None) st of
        (Some e, st1) \<Rightarrow> (Err (ExchangeFailed e), st1)
      | (None, st1) \<Rightarrow>
          (case exchange_begin scope (rw_now w) query st1 of
             Err e \<Rightarrow> (Err (ExchangeFailed e), st1)
           | Panic \<Rightarrow> (Panic, st1)
           | Ret (Hit response, st2) \<Rightarrow> remember w (rw_now w) query response scope response st2
           | Ret (Wait key, st2) \<Rightarrow>
               (case rw_shared w key of
                  Inl e \<Rightarrow> (Err (ExchangeFailed e), st2)
                | Inr response \<Rightarrow> (Ret (dnsResponseForQuery response query), st2))
           | Ret (Fetch key, st2) \<Rightarrow>
               (let reply = (if rw_canceled w then Inl Canceled else rw_exchange w query) in
                case exchange_finish (rw_pick w) (rw_now w) (rw_later w) key reply st2 of
                  Err e \<Rightarrow> (Err (ParseFailed e), st2)
                | Panic \<Rightarrow> (Panic, st2)
                | Ret (_, st3) \<Rightarrow>
                    (case reply of
                       Inl e \<Rightarrow> (Err (ExchangeFailed e), st3)
                     | Inr response \<Rightarrow> remember w (rw_later w) query response scope response st3))))"

definition queryTypes :: "DNSOptions \<Rightarrow> nat list" where
  "queryTypes dns =
     (if dns_Strategy dns = ''ipv6_only'' then [28]
      else if dns_Strategy dns = ''ipv4_only'' then [1] else [1, 28])"

fun lookup_types :: "rworld \<Rightarrow> router \<Rightarrow> string \<Rightarrow> nat list \<Rightarrow> bytes list \<Rightarrow> dns_state \<Rightarrow> (route_error, bytes list) go \<times> dns_state" where
  "lookup_types w r host [] ips st = ((if length ips = 0 then Err NoAddresses else Ret ips), st)"
| "lookup_types w r host (t # ts) ips st =
     (case exchangeDoHCached w r (buildDNSQuery host t) st of
        (Ret data, st') \<Rightarrow>
          (case parseDNSAnswers data t of
             Ret parsed \<Rightarrow> lookup_types w r host ts (ips @ parsed) st'
           | Err e \<Rightarrow> (Err (ParseFailed e), st')
           | Panic \<Rightarrow> (Panic, st'))
      | (Err e, st') \<Rightarrow> (Err e, st')
      | (Panic, st') \<Rightarrow> (Panic, st'))"

definition lookupDoH :: "rworld \<Rightarrow> router \<Rightarrow> string \<Rightarrow> dns_state \<Rightarrow> (route_error, bytes list) go \<times> dns_state" where
  "lookupDoH w r host st = lookup_types w r host (queryTypes (rt_dns r)) [] st"

definition doh_enabled :: "router \<Rightarrow> bool" where
  "doh_enabled r \<longleftrightarrow> dns_Mode (rt_dns r) = ''doh'' \<and> dns_Server (rt_dns r) \<noteq> []"

definition lookupIPs :: "rworld \<Rightarrow> router \<Rightarrow> string \<Rightarrow> dns_state \<Rightarrow> (route_error, bytes list) go \<times> dns_state" where
  "lookupIPs w r host st =
     (if doh_enabled r then lookupDoH w r host st
      else case lookupIPs_system (rw_pick w) (rw_now w) (dnsCacheScope w r) (rw_lookup w) host st of
        (Inl _, st') \<Rightarrow> (Err LookupFailed, st')
      | (Inr ips, st') \<Rightarrow> (Ret ips, st'))"

section \<open>Matching\<close>

definition containsString :: "string list \<Rightarrow> string \<Rightarrow> bool" where
  "containsString list value = (let v = ToLower (TrimSpace value) in list_ex (\<lambda>item. EqualFold item v) list)"

definition matchDomainSuffix :: "string list \<Rightarrow> string \<Rightarrow> bool" where
  "matchDomainSuffix list host =
     (let h = ToLower (TrimSpace host) in
      list_ex (\<lambda>item. let suffix = TrimPrefix (ToLower (TrimSpace item)) ''.'' in
        h = suffix \<or> HasSuffix h (''.'' @ suffix)) list)"

definition matchDomainKeyword :: "string list \<Rightarrow> string \<Rightarrow> bool" where
  "matchDomainKeyword list host =
     (let h = ToLower (TrimSpace host) in list_ex (\<lambda>item. Contains h (ToLower (TrimSpace item))) list)"

definition port_item :: "string \<Rightarrow> string \<Rightarrow> bool" where
  "port_item port item0 =
     (let item = TrimSpace item0 in
      item = port \<or>
      (Contains item ''-'' \<and>
       (case SplitN2 item (CHR ''-'') of
          [a, b] \<Rightarrow>
            (case (Atoi a, Atoi b, Atoi port) of
               (Some lo, Some hi, Some p) \<Rightarrow> lo \<le> p \<and> p \<le> hi
             | _ \<Rightarrow> False)
        | _ \<Rightarrow> False)))"

definition matchPort :: "string list \<Rightarrow> string \<Rightarrow> bool" where
  "matchPort list port = list_ex (port_item port) list"

definition matchRuleSetDomain :: "router \<Rightarrow> string list \<Rightarrow> string \<Rightarrow> bool" where
  "matchRuleSetDomain r ids host =
     list_ex (\<lambda>i. case map_of (rt_ruleSets r) i of None \<Rightarrow> False | Some s \<Rightarrow> MatchDomain s host) ids"

definition matchDomain :: "router \<Rightarrow> MatchExpr \<Rightarrow> string \<Rightarrow> bool" where
  "matchDomain r m host \<longleftrightarrow>
     containsString (m_Domain m) host \<or> matchDomainSuffix (m_DomainSuffix m) host \<or>
     matchDomainKeyword (m_DomainKeyword m) host \<or> matchRuleSetDomain r (m_RuleSet m) host"

definition hasIPMatchers :: "router \<Rightarrow> MatchExpr \<Rightarrow> bool" where
  "hasIPMatchers r m \<longleftrightarrow>
     0 < length (m_IPCIDR m) \<or>
     list_ex (\<lambda>i. case map_of (rt_ruleSets r) i of None \<Rightarrow> False | Some s \<Rightarrow> HasIPRules s) (m_RuleSet m)"

definition cidr_item :: "addr \<Rightarrow> string \<Rightarrow> bool" where
  "cidr_item address raw =
     (if raw = ''private'' then addr_IsPrivate address \<or> addr_IsLoopback address \<or> addr_IsLinkLocalUnicast address
      else case ParsePrefix raw of None \<Rightarrow> False | Some prefix \<Rightarrow> prefix_Contains prefix address)"

text \<open>A loop that returns \<^verbatim>\<open>true\<close> at the first element whose test succeeds.\<close>

fun any_go :: "('a \<Rightarrow> ('e, bool) go) \<Rightarrow> 'a list \<Rightarrow> ('e, bool) go" where
  "any_go f [] = Ret False"
| "any_go f (x # xs) = gbind (f x) (\<lambda>b. if b then Ret True else any_go f xs)"

text \<open>\<^verbatim>\<open>set.MatchIP\<close> has no error result.\<close>

definition set_MatchIP :: "ruleset \<Rightarrow> addr \<Rightarrow> (route_error, bool) go" where
  "set_MatchIP s a = (case (MatchIP s a :: (ruleset_error, bool) go) of Ret b \<Rightarrow> Ret b | _ \<Rightarrow> Panic)"

definition matchAddress :: "router \<Rightarrow> MatchExpr \<Rightarrow> addr \<Rightarrow> (route_error, bool) go" where
  "matchAddress r m address =
     (if list_ex (cidr_item address) (m_IPCIDR m) then Ret True
      else any_go (\<lambda>i. case map_of (rt_ruleSets r) i of None \<Rightarrow> Ret False | Some s \<Rightarrow> set_MatchIP s address) (m_RuleSet m))"

definition hasAddressMatcher :: "MatchExpr \<Rightarrow> bool" where
  "hasAddressMatcher m \<longleftrightarrow>
     0 < length (m_Domain m) \<or> 0 < length (m_DomainSuffix m) \<or> 0 < length (m_DomainKeyword m) \<or>
     0 < length (m_IPCIDR m) \<or> 0 < length (m_RuleSet m)"

definition ip_matches :: "router \<Rightarrow> MatchExpr \<Rightarrow> bytes \<Rightarrow> (route_error, bool) go" where
  "ip_matches r m ip = (case AddrFromSlice ip of None \<Rightarrow> Ret False | Some address \<Rightarrow> matchAddress r m (Unmap address))"

definition matchDestinationForIP ::
  "rworld \<Rightarrow> router \<Rightarrow> Rule \<Rightarrow> string \<Rightarrow> addr \<Rightarrow> dns_state \<Rightarrow> (route_error, bool) go \<times> dns_state" where
  "matchDestinationForIP w r rule host0 destinationIP st =
     (let m = r_Match rule in
      if \<not> hasAddressMatcher m then (Ret True, st)
      else
        (let host = TrimChars (TrimSpace host0) ''[]'' in
         case ParseAddr host of
           Some address0 \<Rightarrow>
             (let address = Unmap address0 in
              case matchAddress r m address of
                Ret True \<Rightarrow> (Ret True, st)
              | Ret False \<Rightarrow>
                  (let (domains, st') = domainsForAddress (dnsCacheScope w r) (rw_now w) address st in
                   (Ret (list_ex (matchDomain r m) domains), st'))
              | e \<Rightarrow> (e, st))
         | None \<Rightarrow>
             (if matchDomain r m host then (Ret True, st)
              else if destinationIP \<noteq> AddrZero then (matchAddress r m destinationIP, st)
              else if r_NoResolve rule \<or> \<not> hasIPMatchers r m then (Ret False, st)
              else (case lookupIPs w r host st of
                      (Ret ips, st') \<Rightarrow> (any_go (ip_matches r m) ips, st')
                    | (Err _, st') \<Rightarrow> (Ret False, st')
                    | (Panic, st') \<Rightarrow> (Panic, st')))))"

definition matchRuleForDestination ::
  "rworld \<Rightarrow> router \<Rightarrow> Rule \<Rightarrow> string \<Rightarrow> string \<Rightarrow> string \<Rightarrow> addr \<Rightarrow> dns_state \<Rightarrow> (route_error, bool) go \<times> dns_state" where
  "matchRuleForDestination w r rule network host port destinationIP st =
     (let m = r_Match rule in
      if m_Network m \<noteq> [] \<and> \<not> EqualFold (m_Network m) network then (Ret False, st)
      else if 0 < length (m_Port m) \<and> \<not> matchPort (m_Port m) port then (Ret False, st)
      else if 0 < length (m_ProcessName m) then (Ret False, st)
      else matchDestinationForIP w r rule host destinationIP st)"

section \<open>The routing decision\<close>

record routeDecisionResult =
  dec_target :: string
  dec_rule :: string

text \<open>
  The label of a rule; the non-ASCII literals are their UTF-8 bytes.
\<close>

definition lit_rule :: string where
  "lit_rule = [CHR 0xE8, CHR 0xA7, CHR 0x84, CHR 0xE5, CHR 0x88, CHR 0x99] @ '' ''"

definition lit_dot :: string where
  "lit_dot = '' '' @ [CHR 0xC2, CHR 0xB7] @ '' ''"

definition lit_domain :: string where
  "lit_domain = [CHR 0xE5, CHR 0x9F, CHR 0x9F, CHR 0xE5, CHR 0x90, CHR 0x8D]"

definition describeRouteRule :: "nat \<Rightarrow> Rule \<Rightarrow> string" where
  "describeRouteRule index rule =
     (let m = r_Match rule; prefix = lit_rule @ Itoa (index + 1) in
      if 0 < length (m_RuleSet m) then prefix @ lit_dot @ Join (m_RuleSet m) '',''
      else if 0 < length (m_Domain m) \<or> 0 < length (m_DomainSuffix m) \<or> 0 < length (m_DomainKeyword m)
      then prefix @ lit_dot @ lit_domain
      else if 0 < length (m_IPCIDR m) then prefix @ lit_dot @ ''IP''
      else if m_Network m \<noteq> [] \<or> 0 < length (m_Port m) then prefix @ lit_dot @ ToUpper (m_Network m)
      else prefix)"

text \<open>What a matching rule decides: \<^const>\<open>None\<close> when the loop goes on.\<close>

definition rule_outcome :: "nat \<Rightarrow> Rule \<Rightarrow> (route_error, routeDecisionResult) go option" where
  "rule_outcome index rule =
     (let label = describeRouteRule index rule in
      if r_Action rule = ActionReject then Some (Err (RuleReject (r_Target rule)))
      else if r_Action rule = ActionHijackDNS then
        Some (Ret \<lparr>dec_target = (if r_Target rule \<noteq> [] then r_Target rule else ''direct''), dec_rule = label\<rparr>)
      else if r_Action rule = ActionRoute \<or> r_Action rule = [] then
        (if r_Target rule \<noteq> [] then Some (Ret \<lparr>dec_target = r_Target rule, dec_rule = label\<rparr>) else None)
      else None)"

definition final_outcome :: "router \<Rightarrow> routeDecisionResult" where
  "final_outcome r = \<lparr>dec_target = (if rt_final r = [] then ''direct'' else rt_final r), dec_rule = ''final''\<rparr>"

fun decide_loop ::
  "rworld \<Rightarrow> router \<Rightarrow> nat \<Rightarrow> Rule list \<Rightarrow> string \<Rightarrow> string \<Rightarrow> string \<Rightarrow> addr \<Rightarrow> dns_state \<Rightarrow>
   (route_error, routeDecisionResult) go \<times> dns_state" where
  "decide_loop w r index [] network host port destinationIP st = (Ret (final_outcome r), st)"
| "decide_loop w r index (rule # rules) network host port destinationIP st =
     (case matchRuleForDestination w r rule network host port destinationIP st of
        (Ret True, st') \<Rightarrow>
          (case rule_outcome index rule of
             Some res \<Rightarrow> (res, st')
           | None \<Rightarrow> decide_loop w r (index + 1) rules network host port destinationIP st')
      | (Ret False, st') \<Rightarrow> decide_loop w r (index + 1) rules network host port destinationIP st'
      | (Err e, st') \<Rightarrow> (Err e, st')
      | (Panic, st') \<Rightarrow> (Panic, st'))"

definition split_address :: "string \<Rightarrow> string \<times> string" where
  "split_address address = (case SplitHostPort address of None \<Rightarrow> (address, []) | Some hp \<Rightarrow> hp)"

definition routeDecisionForDestination ::
  "rworld \<Rightarrow> router \<Rightarrow> string \<Rightarrow> string \<Rightarrow> addr \<Rightarrow> dns_state \<Rightarrow> (route_error, routeDecisionResult) go \<times> dns_state" where
  "routeDecisionForDestination w r network address destinationIP st =
     (let (host, port) = split_address address in
      decide_loop w r 0 (rt_rules r) network host port destinationIP st)"

definition routeDecision ::
  "rworld \<Rightarrow> router \<Rightarrow> string \<Rightarrow> string \<Rightarrow> dns_state \<Rightarrow> (route_error, routeDecisionResult) go \<times> dns_state" where
  "routeDecision w r network address st = routeDecisionForDestination w r network address AddrZero st"

text \<open>\<^verbatim>\<open>RejectPacket\<close>: \<open>destination\<close> is the printed address and port of a valid destination.\<close>

definition RejectPacket :: "rworld \<Rightarrow> router \<Rightarrow> string \<Rightarrow> string option \<Rightarrow> dns_state \<Rightarrow> bool \<times> dns_state" where
  "RejectPacket w r network destination st =
     (case destination of
        None \<Rightarrow> (False, st)
      | Some address \<Rightarrow>
          (case routeDecision w r network address st of
             (Err (RuleReject _), st') \<Rightarrow> (True, st')
           | (_, st') \<Rightarrow> (False, st')))"

section \<open>DNS interception\<close>

text \<open>The loop of \<^verbatim>\<open>rejectDNSQuestion\<close>: the first rule that applies to the domain decides.\<close>

fun reject_loop :: "router \<Rightarrow> string \<Rightarrow> Rule list \<Rightarrow> bool" where
  "reject_loop r domain [] = False"
| "reject_loop r domain (rule # rules) =
     (let m = r_Match rule in
      if r_Action rule = ActionHijackDNS \<or> 0 < length (m_ProcessName m) then reject_loop r domain rules
      else if m_Network m \<noteq> [] \<or> (0 < length (m_Port m) \<and> \<not> matchPort (m_Port m) ''53'') then reject_loop r domain rules
      else if \<not> (0 < length (m_Domain m) \<or> 0 < length (m_DomainSuffix m) \<or> 0 < length (m_DomainKeyword m) \<or>
                 0 < length (m_RuleSet m)) then reject_loop r domain rules
      else if \<not> matchDomain r m domain then reject_loop r domain rules
      else r_Action rule = ActionReject)"

definition rejectDNSQuestion :: "router \<Rightarrow> bytes \<Rightarrow> (dns_error, bool) go" where
  "rejectDNSQuestion r query =
     gtry (dnsQuestion query) (\<lambda>_. Ret False) (\<lambda>(domain, _). Ret (reject_loop r domain (rt_rules r)))"

definition ExchangeDNS :: "rworld \<Rightarrow> router \<Rightarrow> bytes \<Rightarrow> dns_state \<Rightarrow> (route_error, bytes) go \<times> dns_state" where
  "ExchangeDNS w r query st =
     (if \<not> doh_enabled r then (Err DNSModeNotDoH, st)
      else case rejectDNSQuestion r query of
        Ret True \<Rightarrow> (gtry (dnsErrorResponse query 3) (\<lambda>e. Err (DNSResponseError e)) Ret, st)
      | Ret False \<Rightarrow>
          (case suppressDNSQuery (dns_Strategy (rt_dns r)) query of
             Ret True \<Rightarrow> (gtry (emptyDNSResponse query) (\<lambda>e. Err (DNSResponseError e)) Ret, st)
           | Ret False \<Rightarrow> exchangeDoHCached w r query st
           | Err e \<Rightarrow> (Err (DNSResponseError e), st)
           | Panic \<Rightarrow> (Panic, st))
      | Err e \<Rightarrow> (Err (DNSResponseError e), st)
      | Panic \<Rightarrow> (Panic, st))"

section \<open>Dialling\<close>

record routedConnection =
  rc_dialed :: string
  rc_destination :: string
  rc_domain :: string
  rc_route :: string
  rc_outbound :: string
  rc_rule :: string

definition prefer_v4 :: "bytes list \<Rightarrow> bytes \<Rightarrow> bytes" where
  "prefer_v4 ips first = (case find (\<lambda>ip. To4 ip \<noteq> None) ips of None \<Rightarrow> first | Some ip \<Rightarrow> ip)"

definition resolveDirectAddress :: "rworld \<Rightarrow> router \<Rightarrow> string \<Rightarrow> dns_state \<Rightarrow> (route_error, string) go \<times> dns_state" where
  "resolveDirectAddress w r address st =
     (case SplitHostPort address of
        None \<Rightarrow> (Err BadAddress, st)
      | Some (host, port) \<Rightarrow>
          (if ParseIP host \<noteq> None then (Ret address, st)
           else case lookupIPs w r host st of
             (Ret ips, st') \<Rightarrow>
               (if length ips = 0 then (Err NoAddresses, st')
                else (gbind (idx ips 0) (\<lambda>first. Ret (JoinHostPort (IP_String (prefer_v4 ips first)) port)), st'))
           | (Err e, st') \<Rightarrow> (Err e, st')
           | (Panic, st') \<Rightarrow> (Panic, st')))"

fun outbound_type :: "outbound \<Rightarrow> string" where
  "outbound_type (Direct _) = ''direct''"
| "outbound_type (Leaf t) = t"
| "outbound_type (GSelect b) = b_typ b"
| "outbound_type (GURLTest u) = b_typ u"

text \<open>The last part of \<^verbatim>\<open>dialRouted\<close>: dial through the chosen outbound and describe the connection.\<close>

definition dial_outbound ::
  "rworld \<Rightarrow> string \<Rightarrow> string \<Rightarrow> string \<Rightarrow> string \<Rightarrow> string \<Rightarrow> routeDecisionResult \<Rightarrow> (route_error, routedConnection) go" where
  "dial_outbound w network originalAddress address routeAddress resolvedTarget decision =
     (if \<not> rw_dial w resolvedTarget network address then Err DialFailed
      else
        (let host = fst (split_address routeAddress);
             domain0 = TrimChars (TrimSpace host) ''[]'';
             domain = (if ParseIP domain0 \<noteq> None then [] else domain0) in
         Ret \<lparr>rc_dialed = address, rc_destination = originalAddress, rc_domain = domain,
              rc_route = dec_target decision, rc_outbound = resolvedTarget, rc_rule = dec_rule decision\<rparr>))"

definition dialRouted ::
  "rworld \<Rightarrow> router \<Rightarrow> string \<Rightarrow> string \<Rightarrow> string \<Rightarrow> dns_state \<Rightarrow> (route_error, routedConnection) go \<times> dns_state" where
  "dialRouted w r network address routeAddress st =
     (let destinationIP = (case SplitHostPort address of
            None \<Rightarrow> AddrZero
          | Some (host, _) \<Rightarrow> (case ParseAddr host of None \<Rightarrow> AddrZero | Some a \<Rightarrow> a)) in
      case routeDecisionForDestination w r network routeAddress (Unmap destinationIP) st of
        (Err e, st1) \<Rightarrow> (Err e, st1)
      | (Panic, st1) \<Rightarrow> (Panic, st1)
      | (Ret decision, st1) \<Rightarrow>
          (let resolvedTarget = resolve r (dec_target decision) in
           case map_of (rt_outbounds r) resolvedTarget of
             None \<Rightarrow> (Err (UnknownOutbound resolvedTarget), st1)
           | Some ob \<Rightarrow>
               (if outbound_type ob = ''direct'' \<and> doh_enabled r then
                  (case resolveDirectAddress w r address st1 of
                     (Ret resolved, st2) \<Rightarrow>
                       (dial_outbound w network address resolved routeAddress resolvedTarget decision, st2)
                   | (Err e, st2) \<Rightarrow> (Err e, st2)
                   | (Panic, st2) \<Rightarrow> (Panic, st2))
                else (dial_outbound w network address address routeAddress resolvedTarget decision, st1))))"

definition Dial :: "rworld \<Rightarrow> router \<Rightarrow> string \<Rightarrow> string \<Rightarrow> dns_state \<Rightarrow> (route_error, routedConnection) go \<times> dns_state" where
  "Dial w r network address st = dialRouted w r network address address st"

definition DialWithDomain ::
  "rworld \<Rightarrow> router \<Rightarrow> string \<Rightarrow> string \<Rightarrow> string \<Rightarrow> dns_state \<Rightarrow> (route_error, routedConnection) go \<times> dns_state" where
  "DialWithDomain w r network address domain0 st =
     (let domain = TrimSpace domain0;
          routeAddress = (if domain \<noteq> [] then
              (case SplitHostPort address of Some (_, port) \<Rightarrow> JoinHostPort domain port | None \<Rightarrow> domain)
            else address) in
      dialRouted w r network address routeAddress st)"

definition DialVia :: "rworld \<Rightarrow> router \<Rightarrow> string \<Rightarrow> string \<Rightarrow> string \<Rightarrow> (route_error, string) go" where
  "DialVia w r tag0 network address =
     (let tag = (if tag0 = [] then ''direct'' else tag0); target = resolve r tag in
      case map_of (rt_outbounds r) target of
        None \<Rightarrow> Err (UnknownOutbound target)
      | Some _ \<Rightarrow> if rw_dial w target network address then Ret target else Err DialFailed)"

section \<open>Connection tracking\<close>

definition TrackConnection ::
  "rworld \<Rightarrow> router \<Rightarrow> string \<Rightarrow> string \<Rightarrow> Connections \<Rightarrow> dns_state \<Rightarrow> (unit, Connection \<times> Connections) go \<times> dns_state" where
  "TrackConnection w r network destination conns st =
     (let host = fst (split_address destination);
          cleanHost = TrimChars host ''[]'';
          (domain, st1) = (case ParseAddr cleanHost of
              Some address \<Rightarrow>
                (let (domains, st') = domainsForAddress (dnsCacheScope w r) (rw_now w) (Unmap address) st in
                 (case domains of [] \<Rightarrow> [] | d # _ \<Rightarrow> d, st'))
            | None \<Rightarrow> (cleanHost, st));
          (decision, st2) = routeDecision w r network destination st1;
          (routeTag, outboundTag, rule) = (case decision of
              Ret d \<Rightarrow> (dec_target d, resolve r (dec_target d), dec_rule d)
            | _ \<Rightarrow> ([], [], [])) in
      if decision = Panic then (Panic, st2)
      else (AddDetailed \<lparr>md_Network = network, md_Source = [], md_Host = host, md_Destination = destination,
              md_Domain = domain, md_Route = routeTag, md_Outbound = outboundTag, md_Rule = rule\<rparr> (rw_now w) conns, st2))"

definition UntrackConnection :: "int \<Rightarrow> string option \<Rightarrow> Connections \<Rightarrow> Connections" where
  "UntrackConnection now conn c = (case conn of None \<Rightarrow> c | Some i \<Rightarrow> Remove i now c)"

text \<open>
  \<^verbatim>\<open>Pipe\<close>: the metadata of a relayed stream. \<open>routed\<close> is the connection if it came from
  \<^verbatim>\<open>dialRouted\<close>, \<open>remote\<close> the printed address of the upstream socket.
\<close>

definition pipe_metadata :: "string \<Rightarrow> string \<Rightarrow> routedConnection option \<Rightarrow> ConnectionMetadata" where
  "pipe_metadata source remote routed =
     (let dest = (case routed of
            Some rc \<Rightarrow> if rc_destination rc \<noteq> [] then rc_destination rc else remote
          | None \<Rightarrow> remote);
          host = fst (split_address dest);
          domain0 = (case routed of Some rc \<Rightarrow> rc_domain rc | None \<Rightarrow> []);
          domain = (if domain0 = [] \<and> ParseIP (TrimChars host ''[]'') = None then TrimChars host ''[]'' else domain0) in
      \<lparr>md_Network = ''tcp'', md_Source = source, md_Host = host, md_Destination = dest, md_Domain = domain,
       md_Route = (case routed of Some rc \<Rightarrow> rc_route rc | None \<Rightarrow> []),
       md_Outbound = (case routed of Some rc \<Rightarrow> rc_outbound rc | None \<Rightarrow> []),
       md_Rule = (case routed of Some rc \<Rightarrow> rc_rule rc | None \<Rightarrow> [])\<rparr>)"

text \<open>\<^verbatim>\<open>PipeTarget\<close>: the destination is the intercepted target, its domain the cached one.\<close>

definition pipe_target_metadata ::
  "rworld \<Rightarrow> router \<Rightarrow> string \<Rightarrow> string \<Rightarrow> routedConnection option \<Rightarrow> dns_state \<Rightarrow> ConnectionMetadata \<times> dns_state" where
  "pipe_target_metadata w r source destination routed st =
     (let host = fst (split_address destination);
          domain0 = (case routed of Some rc \<Rightarrow> rc_domain rc | None \<Rightarrow> []);
          (domain, st') =
            (if domain0 = [] then
               (case ParseAddr (TrimChars host ''[]'') of
                  Some address \<Rightarrow>
                    (let (domains, st1) = domainsForAddress (dnsCacheScope w r) (rw_now w) (Unmap address) st in
                     (case domains of [] \<Rightarrow> domain0 | d # _ \<Rightarrow> d, st1))
                | None \<Rightarrow> (domain0, st))
             else (domain0, st)) in
      (\<lparr>md_Network = ''tcp'', md_Source = source, md_Host = host, md_Destination = destination, md_Domain = domain,
        md_Route = (case routed of Some rc \<Rightarrow> rc_route rc | None \<Rightarrow> []),
        md_Outbound = (case routed of Some rc \<Rightarrow> rc_outbound rc | None \<Rightarrow> []),
        md_Rule = (case routed of Some rc \<Rightarrow> rc_rule rc | None \<Rightarrow> [])\<rparr>, st'))"

text \<open>\<^verbatim>\<open>Router.AddUpload\<close> and \<^verbatim>\<open>AddDownload\<close> ignore counts that are not positive.\<close>

definition router_AddUpload :: "64 word \<Rightarrow> Traffic \<Rightarrow> Traffic" where
  "router_AddUpload n t = (if 0 < sint n then AddUpload n t else t)"

definition router_AddDownload :: "64 word \<Rightarrow> Traffic \<Rightarrow> Traffic" where
  "router_AddDownload n t = (if 0 < sint n then AddDownload n t else t)"

text \<open>
  \<^verbatim>\<open>pipe\<close> after registration: the two copy loops write chunks through \<^verbatim>\<open>countWriter\<close>, which
  counts every write on the connection and on the totals; a chunk is \<open>Inl\<close> for upload and \<open>Inr\<close>
  for download and the list is any interleaving of the two directions. At the end the
  connection is closed and removed from the table.
\<close>

definition count_write :: "string \<Rightarrow> 64 word + 64 word \<Rightarrow> Connections \<times> Traffic \<Rightarrow> Connections \<times> Traffic" where
  "count_write i chunk ct =
     (case ct of (c, t) \<Rightarrow>
       (case chunk of
          Inl n \<Rightarrow> (count_conn i n 0 c, AddUpload n t)
        | Inr n \<Rightarrow> (count_conn i 0 n c, AddDownload n t)))"

definition close_conn :: "string \<Rightarrow> Connections \<Rightarrow> Connections" where
  "close_conn i c = c\<lparr>items := map (\<lambda>(k, conn). (k, if k = i then conn_Close conn else conn)) (items c)\<rparr>"

definition pipe ::
  "ConnectionMetadata \<Rightarrow> int \<Rightarrow> int \<Rightarrow> (64 word + 64 word) list \<Rightarrow> Connections \<times> Traffic \<Rightarrow> (unit, Connections \<times> Traffic) go" where
  "pipe md now now' chunks ct =
     gbind (AddDetailed md now (fst ct)) (\<lambda>(conn, c1).
       let (c2, t2) = fold (count_write (ID conn)) chunks (c1, snd ct) in
       Ret (Remove (ID conn) now' (close_conn (ID conn) c2), t2))"

text \<open>
  \<^verbatim>\<open>Close\<close>: a running persistence writer stops with a last write and the pooled client is dropped.
\<close>

definition router_Close ::
  "bool \<Rightarrow> string \<Rightarrow> int \<Rightarrow> bool \<Rightarrow> dns_state \<Rightarrow> persistedDNSCache option \<times> dns_state" where
  "router_Close running path now writeOK st =
     (let (doc, st1) = (if running then persistDNSCache path now writeOK st else (None, st)) in
      (doc, InvalidateDNSConnections st1))"

end
