(* ===== verification/Router_Props.thy ===== *)
theory Router_Props
  imports Router
begin

text \<open>
  Properties of the router: groups resolve to outbounds that can dial, the first matching rule
  decides, matching agrees with a declarative reading of rules and rule sets, every operation
  keeps the DNS state reachable and never panics, and relayed bytes are counted once on the
  connection and once on the totals.
\<close>

section \<open>Resolution\<close>

text \<open>One hop of \<^const>\<open>resolve\<close>: from a registered group to its current member.\<close>

definition current_edge :: "router \<Rightarrow> (string \<times> string) set" where
  "current_edge r = {(tag, cur). \<exists>ob. map_of (rt_outbounds r) tag = Some ob \<and> group_current ob = Some cur}"

text \<open>
  The shape of a start-up: every group's current member is registered and was registered
  before the group, which a rank on the tags expresses.
\<close>

definition ranked :: "(string \<Rightarrow> nat) \<Rightarrow> router \<Rightarrow> bool" where
  "ranked rk r \<longleftrightarrow> (\<forall>(tag, cur)\<in>current_edge r. rk cur < rk tag \<and> map_of (rt_outbounds r) cur \<noteq> None)"

lemma resolve_loop_path:
  "(tag, resolve_loop (rt_outbounds r) seen tag) \<in> (current_edge r)\<^sup>*"
proof (induction "rt_outbounds r" seen tag rule: resolve_loop.induct)
  case (1 seen tag)
  show ?case
  proof (cases "\<exists>ob cur. map_of (rt_outbounds r) tag = Some ob \<and> group_current ob = Some cur \<and> tag \<notin> set seen")
    case True
    then obtain ob cur where c: "map_of (rt_outbounds r) tag = Some ob" "group_current ob = Some cur" "tag \<notin> set seen" by auto
    then have "(tag, cur) \<in> current_edge r" by (auto simp: current_edge_def)
    moreover have "(cur, resolve_loop (rt_outbounds r) (tag # seen) cur) \<in> (current_edge r)\<^sup>*"
      using 1 c by auto
    ultimately show ?thesis
      using c by (subst resolve_loop.simps) (auto intro: converse_rtrancl_into_rtrancl)
  next
    case False
    then show ?thesis by (subst resolve_loop.simps) (auto split: option.splits)
  qed
qed

lemma resolve_loop_leaf:
  assumes "ranked rk r" "map_of (rt_outbounds r) tag \<noteq> None" "\<forall>s\<in>set seen. rk tag < rk s"
  shows "\<exists>ob. map_of (rt_outbounds r) (resolve_loop (rt_outbounds r) seen tag) = Some ob \<and> group_current ob = None"
  using assms(2,3)
proof (induction "rt_outbounds r" seen tag rule: resolve_loop.induct)
  case (1 seen tag)
  from 1(2) obtain ob where ob: "map_of (rt_outbounds r) tag = Some ob" by auto
  show ?case
  proof (cases "group_current ob")
    case None
    with ob show ?thesis by (subst resolve_loop.simps) simp
  next
    case (Some cur)
    with ob have "(tag, cur) \<in> current_edge r" by (auto simp: current_edge_def)
    with assms(1) have cur: "rk cur < rk tag" "map_of (rt_outbounds r) cur \<noteq> None" by (auto simp: ranked_def)
    have fresh: "tag \<notin> set seen" using 1(3) by blast
    have "\<forall>s\<in>set (tag # seen). rk cur < rk s" using cur(1) 1(3) by fastforce
    with 1(1) [OF ob Some fresh cur(2)] show ?thesis
      using ob Some fresh by (subst resolve_loop.simps) simp
  qed
qed

section \<open>Matching\<close>

text \<open>The rule sets of a router come from the parser.\<close>

definition sets_ok :: "router \<Rightarrow> bool" where
  "sets_ok r \<longleftrightarrow> (\<forall>(i, s)\<in>set (rt_ruleSets r). \<exists>data. ParseSource i data = Ret s)"

definition set_has_ip :: "ruleset \<Rightarrow> addr \<Rightarrow> bool" where
  "set_has_ip s a \<longleftrightarrow> MatchIP s a = (Ret True :: (ruleset_error, bool) go)"

lemma ParseSource_ips_ok:
  assumes "ParseSource i data = Ret s"
  shows "\<exists>seen. ips_ok seen s"
proof -
  from assms obtain s0 where s0: "parse_rules (doc_rules data) [] (NewEmpty i) = Ret s0"
    and s: "s = s0\<lparr>kwords := sort_key (\<lambda>k. - int (length k)) (kwords s0)\<rparr>"
    by (rule ParseSource_rules)
  from conjunct2 [OF parse_rules_ok [OF ips_ok_NewEmpty], rule_format, OF s0]
  obtain seen where "ips_ok seen s0" by auto
  then have "ips_ok seen s" by (simp add: s ips_ok_def)
  then show ?thesis ..
qed

lemma set_MatchIP_eq:
  assumes "sets_ok r" "map_of (rt_ruleSets r) i = Some s" "wf_addr a"
  shows "set_MatchIP s a = Ret (set_has_ip s a) \<and> (set_has_ip s a \<longrightarrow> HasIPRules s)"
proof -
  from assms(1) map_of_SomeD [OF assms(2)] obtain seen where "ips_ok seen s"
    by (fastforce simp: sets_ok_def dest: ParseSource_ips_ok)
  with MatchIP_ips_ok [OF this assms(3)] show ?thesis
    by (auto simp: set_MatchIP_def set_has_ip_def HasIPRules_def ips_ok_def)
qed

lemma any_go_Ret: "(\<And>x. x \<in> set xs \<Longrightarrow> f x = Ret (P x)) \<Longrightarrow> any_go f xs = Ret (\<exists>x\<in>set xs. P x)"
  by (induction xs) auto

text \<open>The declarative reading of the address fields of a rule.\<close>

definition says_address :: "router \<Rightarrow> MatchExpr \<Rightarrow> addr \<Rightarrow> bool" where
  "says_address r m a \<longleftrightarrow> (\<exists>raw\<in>set (m_IPCIDR m). cidr_item a raw) \<or>
     (\<exists>i\<in>set (m_RuleSet m). \<exists>s. map_of (rt_ruleSets r) i = Some s \<and> set_has_ip s a)"

lemma matchAddress_eq:
  assumes "sets_ok r" "wf_addr a"
  shows "matchAddress r m a = Ret (says_address r m a)"
proof -
  have "any_go (\<lambda>i. case map_of (rt_ruleSets r) i of None \<Rightarrow> Ret False | Some s \<Rightarrow> set_MatchIP s a) (m_RuleSet m) =
      (Ret (\<exists>i\<in>set (m_RuleSet m). \<exists>s. map_of (rt_ruleSets r) i = Some s \<and> set_has_ip s a) :: (route_error, bool) go)"
    using set_MatchIP_eq [OF assms(1) _ assms(2)] by (intro any_go_Ret) (simp split: option.split)
  then show ?thesis by (auto simp: matchAddress_def says_address_def list_ex_iff)
qed

lemma no_IPMatchers: "sets_ok r \<Longrightarrow> wf_addr a \<Longrightarrow> \<not> hasIPMatchers r m \<Longrightarrow> \<not> says_address r m a"
  using set_MatchIP_eq [of r _ _ a] by (fastforce simp: hasIPMatchers_def says_address_def list_ex_iff split: option.splits)

lemma wf_AddrFromSlice: "AddrFromSlice ip = Some a \<Longrightarrow> wf_addr a"
  by (auto simp: AddrFromSlice_def wf_addr_def split: if_splits)

text \<open>The addresses of a lookup that are addresses at all.\<close>

definition addrs_of :: "bytes list \<Rightarrow> addr set" where
  "addrs_of ips = {Unmap a | a. \<exists>ip\<in>set ips. AddrFromSlice ip = Some a}"

lemma any_ip_matches:
  assumes "sets_ok r"
  shows "any_go (ip_matches r m) ips = Ret (\<exists>a\<in>addrs_of ips. says_address r m a)"
proof -
  have "any_go (ip_matches r m) ips = Ret (\<exists>ip\<in>set ips. \<exists>a. AddrFromSlice ip = Some a \<and> says_address r m (Unmap a))"
    using assms by (intro any_go_Ret)
      (auto simp: ip_matches_def matchAddress_eq wf_Unmap wf_AddrFromSlice split: option.splits)
  then show ?thesis by (auto simp: addrs_of_def)
qed

section \<open>Operations keep the DNS state reachable and do not panic\<close>

text \<open>
  An operation on the DNS state is safe when it takes reachable states to reachable states and
  returns a value or an error.
\<close>

definition dns_safe :: "(dns_state \<Rightarrow> ('e, 'a) go \<times> dns_state) \<Rightarrow> bool" where
  "dns_safe f \<longleftrightarrow> (\<forall>st. dns_reachable st \<longrightarrow> dns_reachable (snd (f st)) \<and> fst (f st) \<noteq> Panic)"

named_theorems safe_intros \<open>operations that are safe\<close>

lemma dns_safeI: "(\<And>st. dns_reachable st \<Longrightarrow> dns_reachable (snd (f st)) \<and> fst (f st) \<noteq> Panic) \<Longrightarrow> dns_safe f"
  by (simp add: dns_safe_def)

lemma dns_safeD:
  assumes "dns_safe f" "dns_reachable st" "f st = (x, st')"
  shows "dns_reachable st'" "x \<noteq> Panic"
  using assms by (auto simp: dns_safe_def dest!: spec [of _ st])

lemma reach_remember: "dns_reachable st \<Longrightarrow> rememberDNSResponseScoped pick now q resp scope st = Ret st' \<Longrightarrow> dns_reachable st'"
  by (blast intro: dns_reachable.step dns_step.remember)

lemma reach_begin: "dns_reachable st \<Longrightarrow> exchange_begin scope now q st = Ret (res, st') \<Longrightarrow> dns_reachable st'"
  by (blast intro: dns_reachable.step dns_step.start)

lemma reach_finish: "dns_reachable st \<Longrightarrow> exchange_finish pick now now' key reply st = Ret (x, st') \<Longrightarrow> dns_reachable st'"
  by (blast intro: dns_reachable.step dns_step.finish)

lemma reach_client: "dns_reachable st \<Longrightarrow> dohHTTPClient scope tgt known st = (e, st') \<Longrightarrow> dns_reachable st'"
  using dns_reachable.step [OF _ dns_step.client, of st scope tgt known] by simp

lemma reach_domains: "dns_reachable st \<Longrightarrow> domainsForAddress scope now a st = (ds, st') \<Longrightarrow> dns_reachable st'"
  using dns_reachable.step [OF _ dns_step.domains, of st scope now a] by simp

lemma reach_lookup:
  "dns_reachable st \<Longrightarrow> lookupIPs_system pick now scope (lk :: string \<Rightarrow> unit + bytes list) host st = (x, st') \<Longrightarrow> dns_reachable st'"
  using dns_reachable.step [OF _ dns_step.lookup, of st pick now scope lk host] by simp

lemma exchange_begin_np: "exchange_begin scope now q st \<noteq> Panic"
  by (auto simp: exchange_begin_def Let_def split: option.splits)

lemma exchange_finish_np: "exchange_finish pick now now' key reply st \<noteq> Panic"
  by (auto simp: exchange_finish_def Let_def)

lemma remember_safe: "dns_safe (remember w now q resp scope result)"
  using rememberDNSResponseScoped_np
  by (intro dns_safeI) (auto simp: remember_def reach_remember split: go.splits)

lemma exchangeDoHCached_safe [safe_intros]: "dns_safe (exchangeDoHCached w r q)"
proof (rule dns_safeI)
  fix st assume st: "dns_reachable st"
  let ?scope = "rw_scope w (rt_dns r) (dnsTarget r)"
  obtain e st1 where c: "dohHTTPClient ?scope (dnsTarget r) (map_of (rt_outbounds r) (dnsTarget r) \<noteq> None) st = (e, st1)" by fastforce
  have st1: "dns_reachable st1" by (rule reach_client [OF st c])
  show "dns_reachable (snd (exchangeDoHCached w r q st)) \<and> fst (exchangeDoHCached w r q st) \<noteq> Panic"
  proof (cases "e = None \<and> (\<exists>b st2. exchange_begin ?scope (rw_now w) q st1 = Ret (b, st2))")
    case False
    then show ?thesis using c st1 exchange_begin_np [of ?scope "rw_now w" q st1]
      by (cases "exchange_begin ?scope (rw_now w) q st1") (auto simp: exchangeDoHCached_def Let_def split: option.splits)
  next
    case True
    then obtain b st2 where b: "e = None" "exchange_begin ?scope (rw_now w) q st1 = Ret (b, st2)" by auto
    have st2: "dns_reachable st2" by (rule reach_begin [OF st1 b(2)])
    show ?thesis
    proof (cases b)
      case (Hit resp)
      with b c remember_safe st2 show ?thesis by (simp add: exchangeDoHCached_def dns_safe_def)
    next
      case (Wait key)
      with b c st2 show ?thesis by (simp add: exchangeDoHCached_def split: sum.split)
    next
      case (Fetch key)
      let ?reply = "if rw_canceled w then Inl Canceled else rw_exchange w q"
      show ?thesis
      proof (cases "exchange_finish (rw_pick w) (rw_now w) (rw_later w) key ?reply st2")
        case (Ret y)
        obtain x st3 where y: "y = (x, st3)" by (cases y)
        have "dns_reachable st3" using reach_finish [OF st2] Ret y by blast
        with remember_safe Ret y Fetch b c show ?thesis
          by (simp add: exchangeDoHCached_def Let_def dns_safe_def split: sum.split)
      next
        case (Err e)
        with Fetch b c st2 show ?thesis by (simp add: exchangeDoHCached_def Let_def)
      next
        case Panic
        with exchange_finish_np show ?thesis by blast
      qed
    qed
  qed
qed

lemma lookup_types_safe: "dns_safe (lookup_types w r host ts ips)"
proof (induction ts arbitrary: ips)
  case (Cons t ts)
  show ?case
  proof (rule dns_safeI)
    fix st assume st: "dns_reachable st"
    obtain x st' where x: "exchangeDoHCached w r (buildDNSQuery host t) st = (x, st')" by fastforce
    note s = dns_safeD [OF exchangeDoHCached_safe st x]
    show "dns_reachable (snd (lookup_types w r host (t # ts) ips st)) \<and> fst (lookup_types w r host (t # ts) ips st) \<noteq> Panic"
    proof (cases x)
      case (Ret data)
      then show ?thesis using x s Cons.IH
        by (cases "parseDNSAnswers data t") (auto simp: dns_safe_def)
    qed (use x s in auto)
  qed
qed (simp add: dns_safe_def)

lemma lookupIPs_safe [safe_intros]: "dns_safe (lookupIPs w r host)"
proof (rule dns_safeI)
  fix st assume st: "dns_reachable st"
  obtain x st' where x: "lookupIPs_system (rw_pick w) (rw_now w) (dnsCacheScope w r) (rw_lookup w) host st = (x, st')" by fastforce
  from reach_lookup [OF st x] lookup_types_safe [of w r host "queryTypes (rt_dns r)" "[]"] st x
  show "dns_reachable (snd (lookupIPs w r host st)) \<and> fst (lookupIPs w r host st) \<noteq> Panic"
    by (cases x) (simp_all add: lookupIPs_def lookupDoH_def dns_safe_def)
qed

lemma matchDestinationForIP_safe:
  assumes sets: "sets_ok r" and ip: "wf_addr ip"
  shows "dns_safe (matchDestinationForIP w r rule host ip)"
proof (rule dns_safeI)
  fix st assume st: "dns_reachable st"
  let ?h = "TrimChars (TrimSpace host) ''[]''"
  show "dns_reachable (snd (matchDestinationForIP w r rule host ip st)) \<and> fst (matchDestinationForIP w r rule host ip st) \<noteq> Panic"
  proof (cases "hasAddressMatcher (r_Match rule)")
    case False
    with st show ?thesis by (simp add: matchDestinationForIP_def)
  next
    case True
    show ?thesis
    proof (cases "ParseAddr ?h")
      case None
      obtain x st' where x: "lookupIPs w r ?h st = (x, st')" by fastforce
      from dns_safeD [OF lookupIPs_safe st x] None True st x show ?thesis
        by (cases x) (simp_all add: matchDestinationForIP_def Let_def matchAddress_eq [OF sets ip] any_ip_matches [OF sets])
    next
      case (Some a)
      have "wf_addr (Unmap a)" using ParseAddr_wf [OF Some] by (simp add: wf_Unmap)
      then show ?thesis using Some True st
        by (auto simp: matchDestinationForIP_def Let_def matchAddress_eq [OF sets] reach_domains split: prod.split bool.split)
    qed
  qed
qed

lemma matchRuleForDestination_safe [safe_intros]:
  "sets_ok r \<Longrightarrow> wf_addr ip \<Longrightarrow> dns_safe (matchRuleForDestination w r rule network host port ip)"
  using matchDestinationForIP_safe [of r ip w rule host] by (auto simp: dns_safe_def matchRuleForDestination_def Let_def)

lemma rule_outcome_np: "rule_outcome index rule \<noteq> Some Panic"
  by (simp add: rule_outcome_def Let_def)

lemma decide_loop_safe:
  "sets_ok r \<Longrightarrow> wf_addr ip \<Longrightarrow> dns_safe (decide_loop w r index rules network host port ip)"
proof (induction rules arbitrary: index)
  case (Cons rule rules)
  show ?case
  proof (rule dns_safeI)
    fix st assume st: "dns_reachable st"
    obtain x st' where x: "matchRuleForDestination w r rule network host port ip st = (x, st')" by fastforce
    note s = dns_safeD [OF matchRuleForDestination_safe [OF Cons.prems] st x]
    from Cons.IH [OF Cons.prems, of "index + 1"] s(1)
    have rest: "dns_reachable (snd (decide_loop w r (index + 1) rules network host port ip st')) \<and>
        fst (decide_loop w r (index + 1) rules network host port ip st') \<noteq> Panic" by (simp add: dns_safe_def)
    show "dns_reachable (snd (decide_loop w r index (rule # rules) network host port ip st)) \<and>
        fst (decide_loop w r index (rule # rules) network host port ip st) \<noteq> Panic"
      using rest x s rule_outcome_np [of index rule] by (auto split: go.split bool.split option.split)
  qed
qed (simp add: dns_safe_def)

lemma routeDecisionForDestination_safe [safe_intros]:
  "sets_ok r \<Longrightarrow> wf_addr ip \<Longrightarrow> dns_safe (routeDecisionForDestination w r network a ip)"
  using decide_loop_safe [of r ip w 0 "rt_rules r" network "fst (split_address a)" "snd (split_address a)"]
  by (simp add: dns_safe_def routeDecisionForDestination_def split_beta)

lemma resolveDirectAddress_safe [safe_intros]: "dns_safe (resolveDirectAddress w r a)"
proof (rule dns_safeI)
  fix st assume st: "dns_reachable st"
  show "dns_reachable (snd (resolveDirectAddress w r a st)) \<and> fst (resolveDirectAddress w r a st) \<noteq> Panic"
  proof (cases "SplitHostPort a")
    case (Some hp)
    obtain x st' where x: "lookupIPs w r (fst hp) st = (x, st')" by fastforce
    from dns_safeD [OF lookupIPs_safe st x] Some x st show ?thesis
      by (cases hp; cases x) (auto simp: resolveDirectAddress_def)
  qed (simp add: resolveDirectAddress_def st)
qed

lemma dial_outbound_np: "dial_outbound w network orig a ra tgt d \<noteq> Panic"
  by (simp add: dial_outbound_def Let_def)

definition dest_ip :: "string \<Rightarrow> addr" where
  "dest_ip address = (case SplitHostPort address of
      None \<Rightarrow> AddrZero | Some (host, _) \<Rightarrow> (case ParseAddr host of None \<Rightarrow> AddrZero | Some a \<Rightarrow> a))"

lemma wf_AddrZero [simp]: "wf_addr AddrZero"
  by (simp add: wf_addr_def)

lemma wf_dest_ip: "wf_addr (Unmap (dest_ip a))"
  by (intro wf_Unmap) (auto simp: dest_ip_def ParseAddr_wf split: option.splits)

lemma dialRouted_safe [safe_intros]:
  assumes "sets_ok r"
  shows "dns_safe (dialRouted w r network a ra)"
proof (rule dns_safeI)
  fix st assume st: "dns_reachable st"
  obtain x st1 where x: "routeDecisionForDestination w r network ra (Unmap (dest_ip a)) st = (x, st1)" by fastforce
  note s = dns_safeD [OF routeDecisionForDestination_safe [OF assms wf_dest_ip] st x]
  obtain y st2 where y: "resolveDirectAddress w r a st1 = (y, st2)" by fastforce
  note s2 = dns_safeD [OF resolveDirectAddress_safe s(1) y]
  show "dns_reachable (snd (dialRouted w r network a ra st)) \<and> fst (dialRouted w r network a ra st) \<noteq> Panic"
    using x y s s2 dial_outbound_np
    by (auto simp: dialRouted_def Let_def dest_ip_def [symmetric] split: go.split option.split)
qed

lemma rejectDNSQuestion_cases: "\<exists>b. rejectDNSQuestion r q = Ret b"
  by (cases "dnsQuestion q") (auto simp: rejectDNSQuestion_def)

lemma dnsErrorResponse_np: "dnsErrorResponse q c \<noteq> Panic"
proof (cases "12 \<le> length q")
  case True
  then show ?thesis by (simp add: dnsErrorResponse_eq)
qed (simp add: dnsErrorResponse_def)

lemma suppressDNSQuery_np: "suppressDNSQuery s q \<noteq> Panic"
  by (auto simp: suppressDNSQuery_def dnsQuestionType_def Let_def)

lemma ExchangeDNS_safe [safe_intros]: "dns_safe (ExchangeDNS w r q)"
proof (rule dns_safeI)
  fix st assume st: "dns_reachable st"
  obtain b where b: "rejectDNSQuestion r q = Ret b" using rejectDNSQuestion_cases by blast
  from exchangeDoHCached_safe [of w r q] st dnsErrorResponse_np suppressDNSQuery_np [of "dns_Strategy (rt_dns r)" q]
  show "dns_reachable (snd (ExchangeDNS w r q st)) \<and> fst (ExchangeDNS w r q st) \<noteq> Panic"
    by (cases b) (auto simp: ExchangeDNS_def b dns_safe_def emptyDNSResponse_def split: go.splits bool.splits)
qed

section \<open>The first matching rule\<close>

text \<open>The DNS state when rule number \<open>k\<close> is tried: matching earlier rules may fill or prune caches.\<close>

definition st_at :: "rworld \<Rightarrow> router \<Rightarrow> Rule list \<Rightarrow> string \<Rightarrow> string \<Rightarrow> string \<Rightarrow> addr \<Rightarrow> dns_state \<Rightarrow> nat \<Rightarrow> dns_state" where
  "st_at w r rules network host port ip st k =
     fold (\<lambda>rule st. snd (matchRuleForDestination w r rule network host port ip st)) (take k rules) st"

definition matches_at :: "rworld \<Rightarrow> router \<Rightarrow> Rule list \<Rightarrow> string \<Rightarrow> string \<Rightarrow> string \<Rightarrow> addr \<Rightarrow> dns_state \<Rightarrow> nat \<Rightarrow> bool" where
  "matches_at w r rules network host port ip st k \<longleftrightarrow>
     fst (matchRuleForDestination w r (rules ! k) network host port ip (st_at w r rules network host port ip st k)) = Ret True"

lemma st_at_simps [simp]:
  "st_at w r rules network host port ip st 0 = st"
  "st_at w r (rule # rules) network host port ip st (Suc k) =
     st_at w r rules network host port ip (snd (matchRuleForDestination w r rule network host port ip st)) k"
  by (simp_all add: st_at_def)

lemma matches_at_simps [simp]:
  "matches_at w r (rule # rules) network host port ip st 0 \<longleftrightarrow>
     fst (matchRuleForDestination w r rule network host port ip st) = Ret True"
  "matches_at w r (rule # rules) network host port ip st (Suc k) \<longleftrightarrow>
     matches_at w r rules network host port ip (snd (matchRuleForDestination w r rule network host port ip st)) k"
  by (simp_all add: matches_at_def)

lemma matchRule_bool:
  assumes "sets_ok r" "wf_addr ip" "dns_reachable st"
  shows "\<exists>b. fst (matchRuleForDestination w r rule network host port ip st) = Ret b"
proof -
  have "fst (matchDestinationForIP w r rule host ip st) \<noteq> Err e" for e
    using matchAddress_eq [OF assms(1)] assms(2) ParseAddr_wf wf_Unmap
    by (auto simp: matchDestinationForIP_def Let_def any_ip_matches [OF assms(1)] split: option.splits bool.splits go.splits prod.splits)
  with matchRuleForDestination_safe [OF assms(1,2), of w rule network host port] assms(3) show ?thesis
    by (cases "fst (matchRuleForDestination w r rule network host port ip st)")
      (auto simp: dns_safe_def matchRuleForDestination_def Let_def split: if_splits)
qed

lemma decide_loop_first:
  assumes "sets_ok r" "wf_addr ip" "dns_reachable st"
  shows "\<exists>k \<le> length rules. (\<forall>j<k. matches_at w r rules network host port ip st j \<longrightarrow> rule_outcome (index + j) (rules ! j) = None) \<and>
    (if k = length rules then fst (decide_loop w r index rules network host port ip st) = Ret (final_outcome r)
     else matches_at w r rules network host port ip st k \<and>
       rule_outcome (index + k) (rules ! k) = Some (fst (decide_loop w r index rules network host port ip st)))"
  using assms(3)
proof (induction rules arbitrary: index st)
  case (Cons rule rules)
  let ?m = "matchRuleForDestination w r rule network host port ip st"
  obtain x st' where m: "?m = (x, st')" by fastforce
  obtain b where b: "x = Ret b" using matchRule_bool [OF assms(1,2) Cons.prems, of w rule network host port] m by auto
  have st': "dns_reachable st'" by (rule dns_safeD(1) [OF matchRuleForDestination_safe [OF assms(1,2)] Cons.prems m])
  show ?case
  proof (cases "b \<and> rule_outcome index rule \<noteq> None")
    case True
    with m b show ?thesis by (intro exI [of _ 0]) auto
  next
    case False
    then have d: "decide_loop w r index (rule # rules) network host port ip st = decide_loop w r (index + 1) rules network host port ip st'"
      using m b by (cases b) auto
    from Cons.IH [OF st', of "index + 1"] obtain k where k: "k \<le> length rules"
      "\<forall>j<k. matches_at w r rules network host port ip st' j \<longrightarrow> rule_outcome (index + 1 + j) (rules ! j) = None"
      "if k = length rules then fst (decide_loop w r (index + 1) rules network host port ip st') = Ret (final_outcome r)
       else matches_at w r rules network host port ip st' k \<and>
         rule_outcome (index + 1 + k) (rules ! k) = Some (fst (decide_loop w r (index + 1) rules network host port ip st'))"
      by blast
    have "matches_at w r (rule # rules) network host port ip st j \<longrightarrow> rule_outcome (index + j) ((rule # rules) ! j) = None" if "j < Suc k" for j
      using that k(2) False m b by (cases j) auto
    with k(1,3) d m show ?thesis by (intro exI [of _ "Suc k"]) auto
  qed
qed simp

section \<open>Relayed bytes\<close>

definition ups :: "(64 word + 64 word) list \<Rightarrow> 64 word" where
  "ups chunks = (\<Sum>x\<leftarrow>chunks. case x of Inl n \<Rightarrow> n | Inr _ \<Rightarrow> 0)"

definition downs :: "(64 word + 64 word) list \<Rightarrow> 64 word" where
  "downs chunks = (\<Sum>x\<leftarrow>chunks. case x of Inl _ \<Rightarrow> 0 | Inr n \<Rightarrow> n)"

lemma keep_others: "k \<notin> fst ` set xs \<Longrightarrow> map (\<lambda>(i, v). (i, if i = k then f v else v)) xs = xs"
  by (induction xs) auto

lemma count_write_last:
  assumes "items c = xs @ [(i, conn)]" "i \<notin> fst ` set xs"
  shows "count_write i x (c, t) =
    (c\<lparr>items := xs @ [(i, conn\<lparr>Upload := Upload conn + ups [x], Download := Download conn + downs [x]\<rparr>)]\<rparr>,
     t\<lparr>upload := upload t + ups [x], download := download t + downs [x]\<rparr>)"
proof (cases x)
  case (Inl n)
  with assms keep_others [OF assms(2), of "\<lambda>conn. conn\<lparr>Upload := Upload conn + n, Download := Download conn + 0\<rparr>"] show ?thesis
    by (simp add: count_write_def count_conn_def AddUpload_def ups_def downs_def)
next
  case (Inr n)
  with assms keep_others [OF assms(2), of "\<lambda>conn. conn\<lparr>Upload := Upload conn + 0, Download := Download conn + n\<rparr>"] show ?thesis
    by (simp add: count_write_def count_conn_def AddDownload_def ups_def downs_def)
qed

lemma fold_count_write:
  "items c = xs @ [(i, conn)] \<Longrightarrow> i \<notin> fst ` set xs \<Longrightarrow>
   fold (count_write i) chunks (c, t) =
    (c\<lparr>items := xs @ [(i, conn\<lparr>Upload := Upload conn + ups chunks, Download := Download conn + downs chunks\<rparr>)]\<rparr>,
     t\<lparr>upload := upload t + ups chunks, download := download t + downs chunks\<rparr>)"
proof (induction chunks arbitrary: c conn t)
  case (Cons x chunks)
  have split: "ups (x # chunks) = ups [x] + ups chunks" "downs (x # chunks) = downs [x] + downs chunks"
    by (simp_all add: ups_def downs_def)
  let ?conn = "conn\<lparr>Upload := Upload conn + ups [x], Download := Download conn + downs [x]\<rparr>"
  have "items (c\<lparr>items := xs @ [(i, ?conn)]\<rparr>) = xs @ [(i, ?conn)]" by simp
  from Cons.IH [OF this Cons.prems(2)] show ?case
    unfolding fold_Cons comp_def count_write_last [OF Cons.prems] split by (cases conn) (simp add: add.assoc)
qed (simp add: ups_def downs_def)

lemma delete_last: "k \<notin> fst ` set xs \<Longrightarrow> AList.delete k (xs @ [(k, v)]) = xs"
  by (induction xs) (auto simp: AList.delete_eq)

lemma map_of_last: "k \<notin> fst ` set xs \<Longrightarrow> map_of (xs @ [(k, v)]) k = Some v"
  by (simp add: map_add_def map_of_eq_None_iff [THEN iffD2])

section \<open>Properties\<close>


definition select_example :: "unit base" where
  "select_example = NewSelect ''auto'' [(''hk'', ()), (''jp'', ())] ''jp''"

definition router_plain :: router where
  "router_plain = \<lparr>rt_final = ''auto'', rt_outbounds = [(''direct'', Direct 0), (''hk'', Leaf ''vless''), (''jp'', Leaf ''trojan''),
     (''auto'', GSelect select_example)],
   rt_rules = [\<lparr>r_Match = zero_MatchExpr\<lparr>m_DomainSuffix := [''ads.com'']\<rparr>, r_Action = ActionReject, r_Target = [], r_NoResolve = False\<rparr>,
     \<lparr>r_Match = zero_MatchExpr\<lparr>m_RuleSet := [''s'']\<rparr>, r_Action = ActionRoute, r_Target = ''direct'', r_NoResolve = True\<rparr>],
   rt_ruleSets = [],
   rt_dns = \<lparr>dns_Mode = ''doh'', dns_Server = ''1.1.1.1'', dns_TLSServer = [], dns_Detour = [], dns_Strategy = [], dns_FakeIP = []\<rparr>\<rparr>"

definition router_example :: router where
  "router_example = SetRuleSets [(''s'', source_example_set)] router_plain"

definition world_example :: rworld where
  "world_example = \<lparr>rw_now = 0, rw_later = 1, rw_pick = 0, rw_scope = (\<lambda>_ t. t), rw_lookup = (\<lambda>_. Inl ()),
     rw_exchange = (\<lambda>_. Inl QueryFailed), rw_shared = (\<lambda>_. Inl QueryFailed), rw_canceled = False, rw_dial = (\<lambda>_ _ _. True)\<rparr>"

lemma select_example_current: "Current select_example = ''jp''"
  by code_simp

lemma router_example_sets: "sets_ok router_example"
  using source_example_parses by (auto simp: sets_ok_def router_example_def SetRuleSets_def)


text \<open>
  C1: the first matching rule decides. There is a position such that every earlier rule either
  does not match or, having no target, decides nothing; the decision is the one of the matching
  rule at that position, or the final target when the position is past the last rule. Each rule
  is matched in the DNS state the earlier ones left.
\<close>

theorem routeDecision_first_match:
  assumes "sets_ok r" "wf_addr ip" "dns_reachable st" "split_address a = (host, port)"
  shows "\<exists>k \<le> length (rt_rules r).
    (\<forall>j<k. matches_at w r (rt_rules r) network host port ip st j \<longrightarrow> rule_outcome j (rt_rules r ! j) = None) \<and>
    (if k = length (rt_rules r)
     then fst (routeDecisionForDestination w r network a ip st) = Ret (final_outcome r)
     else matches_at w r (rt_rules r) network host port ip st k \<and>
       rule_outcome k (rt_rules r ! k) = Some (fst (routeDecisionForDestination w r network a ip st)))"
  using decide_loop_first [OF assms(1-3), of "rt_rules r" w network host port 0] assms(4)
  by (simp only: routeDecisionForDestination_def Let_def prod.case add_0)

theorem routeDecision_first_match_witness:
  "\<exists>k \<le> length (rt_rules router_example).
    (\<forall>j<k. matches_at world_example router_example (rt_rules router_example) ''tcp'' ''x.ads.com'' ''443'' AddrZero new_dns_state j \<longrightarrow>
       rule_outcome j (rt_rules router_example ! j) = None) \<and>
    (if k = length (rt_rules router_example)
     then fst (routeDecisionForDestination world_example router_example ''tcp'' ''x.ads.com:443'' AddrZero new_dns_state) =
       Ret (final_outcome router_example)
     else matches_at world_example router_example (rt_rules router_example) ''tcp'' ''x.ads.com'' ''443'' AddrZero new_dns_state k \<and>
       rule_outcome k (rt_rules router_example ! k) =
         Some (fst (routeDecisionForDestination world_example router_example ''tcp'' ''x.ads.com:443'' AddrZero new_dns_state)))"
proof -
  have "split_address ''x.ads.com:443'' = (''x.ads.com'', ''443'')" by code_simp
  from routeDecision_first_match [OF router_example_sets wf_AddrZero dns_reachable.init this] show ?thesis by blast
qed



lemma sniffed_match_pure:
  assumes "sets_ok r" "wf_addr ip" "ip \<noteq> AddrZero" "ParseAddr (TrimChars (TrimSpace host) ''[]'') = None"
  shows "matchDestinationForIP w r rule host ip st =
    (Ret (\<not> hasAddressMatcher (r_Match rule) \<or> matchDomain r (r_Match rule) (TrimChars (TrimSpace host) ''[]'') \<or>
       says_address r (r_Match rule) ip), st)"
  using assms by (simp add: matchDestinationForIP_def Let_def matchAddress_eq)

lemma sniffed_decide_pure:
  assumes "sets_ok r" "wf_addr ip" "ip \<noteq> AddrZero" "ParseAddr (TrimChars (TrimSpace host) ''[]'') = None"
  shows "snd (decide_loop w r index rules network host port ip st) = st"
proof (induction rules arbitrary: index)
  case (Cons rule rules)
  have "snd (matchRuleForDestination w r rule network host port ip st) = st"
    by (simp add: matchRuleForDestination_def Let_def sniffed_match_pure [OF assms])
  with Cons show ?case
    by (cases "matchRuleForDestination w r rule network host port ip st") (auto split: go.split bool.split option.split)
qed simp

lemma Unmap_not_Zero: "a \<noteq> AddrZero \<Longrightarrow> Unmap a \<noteq> AddrZero"
  by (auto simp: Unmap_def split: addr.splits)

lemma dest_ip_IP:
  assumes "SplitHostPort a = Some (h, p)" "ParseIP h \<noteq> None"
  shows "Unmap (dest_ip a) \<noteq> AddrZero"
proof -
  from assms(2) obtain x where "ParseAddr h = Some x" by (auto simp: ParseIP_def split: option.splits)
  with assms(1) ParseAddr_wf [OF this] show ?thesis by (simp add: dest_ip_def Unmap_not_Zero)
qed

text \<open>The address the rules see for a stream to \<open>a\<close> with the sniffed name \<open>domain\<close>.\<close>

definition sniffed_route :: "string \<Rightarrow> string \<Rightarrow> string" where
  "sniffed_route a domain = (case SplitHostPort a of Some (_, port) \<Rightarrow> JoinHostPort (TrimSpace domain) port | None \<Rightarrow> TrimSpace domain)"

lemma dialRouted_sniffed:
  assumes "sets_ok r" "SplitHostPort a = Some (h, p)" "ParseIP h \<noteq> None"
    and "ParseAddr (TrimChars (TrimSpace (fst (split_address ra))) ''[]'') = None"
  shows "snd (dialRouted w r network a ra st) = st \<and>
    (\<forall>rc. fst (dialRouted w r network a ra st) = Ret rc \<longrightarrow> rc_dialed rc = a \<and> rc_destination rc = a \<and>
       map_of (rt_outbounds r) (rc_outbound rc) \<noteq> None \<and> rw_dial w (rc_outbound rc) network a)"
proof -
  let ?d = "routeDecisionForDestination w r network ra (Unmap (dest_ip a)) st"
  obtain host port where hp: "split_address ra = (host, port)" by fastforce
  have st: "snd ?d = st"
    using sniffed_decide_pure [OF assms(1) wf_dest_ip dest_ip_IP [OF assms(2,3)]] assms(4)
    by (simp add: routeDecisionForDestination_def hp)
  have direct: "resolveDirectAddress w r a st = (Ret a, st)"
    using assms(2,3) by (auto simp: resolveDirectAddress_def)
  have dial: "dial_outbound w network a a ra tgt d = Ret rc \<Longrightarrow>
      rc_dialed rc = a \<and> rc_destination rc = a \<and> rc_outbound rc = tgt \<and> rw_dial w tgt network a" for tgt d rc
    by (auto simp: dial_outbound_def Let_def split: if_splits)
  obtain x where x: "?d = (x, st)" using st by (cases ?d) auto
  show ?thesis
  proof (cases x)
    case (Ret d)
    with x direct dial show ?thesis
      by (auto simp: dialRouted_def Let_def dest_ip_def [symmetric] split: option.splits if_splits)
  qed (use x in \<open>simp_all add: dialRouted_def Let_def dest_ip_def [symmetric]\<close>)
qed

text \<open>
  A stream whose TLS name was sniffed is routed by that name but dialled at its original
  address: when the destination is an IP address and the name is not, no DNS lookup happens
  (the DNS state is unchanged, whether the stream is accepted or not), rules with address
  matchers are decided by the original address, and a connection that is made is dialled at
  exactly that address through a registered outbound.
\<close>

theorem DialWithDomain_original_address:
  assumes "sets_ok r" "SplitHostPort a = Some (h, p)" "ParseIP h \<noteq> None" "TrimSpace domain \<noteq> []"
    and "ParseAddr (TrimChars (TrimSpace (fst (split_address (sniffed_route a domain)))) ''[]'') = None"
  shows "snd (DialWithDomain w r network a domain st) = st \<and>
    (\<forall>rc. fst (DialWithDomain w r network a domain st) = Ret rc \<longrightarrow> rc_dialed rc = a \<and> rc_destination rc = a \<and>
       map_of (rt_outbounds r) (rc_outbound rc) \<noteq> None \<and> rw_dial w (rc_outbound rc) network a)"
  using dialRouted_sniffed [OF assms(1-3,5), of w network st] assms(4)
  by (simp add: DialWithDomain_def sniffed_route_def Let_def)

theorem DialWithDomain_original_address_witness:
  "snd (DialWithDomain world_example router_example ''tcp'' ''10.1.2.3:443'' ''www.example.com'' new_dns_state) = new_dns_state"
proof -
  have "SplitHostPort ''10.1.2.3:443'' = Some (''10.1.2.3'', ''443'')" "ParseIP ''10.1.2.3'' \<noteq> None"
    "TrimSpace ''www.example.com'' \<noteq> []"
    "ParseAddr (TrimChars (TrimSpace (fst (split_address (sniffed_route ''10.1.2.3:443'' ''www.example.com'')))) ''[]'') = None"
    by code_simp+
  from DialWithDomain_original_address [OF router_example_sets this] show ?thesis by blast
qed

definition dns_rule_applies :: "router \<Rightarrow> string \<Rightarrow> Rule \<Rightarrow> bool" where
  "dns_rule_applies r domain rule \<longleftrightarrow>
     r_Action rule \<noteq> ActionHijackDNS \<and> m_ProcessName (r_Match rule) = [] \<and> m_Network (r_Match rule) = [] \<and>
     (m_Port (r_Match rule) = [] \<or> matchPort (m_Port (r_Match rule)) ''53'') \<and> matchDomain r (r_Match rule) domain"

lemma matchDomain_needs: "matchDomain r m d \<Longrightarrow>
    0 < length (m_Domain m) \<or> 0 < length (m_DomainSuffix m) \<or> 0 < length (m_DomainKeyword m) \<or> 0 < length (m_RuleSet m)"
  by (auto simp: matchDomain_def containsString_def matchDomainSuffix_def matchDomainKeyword_def matchRuleSetDomain_def Let_def)

lemma reject_loop_find:
  "reject_loop r domain rules \<longleftrightarrow>
     (case find (dns_rule_applies r domain) rules of Some rule \<Rightarrow> r_Action rule = ActionReject | None \<Rightarrow> False)"
proof (induction rules)
  case (Cons rule rules)
  then show ?case using matchDomain_needs [of r "r_Match rule" domain]
    by (auto simp: Let_def dns_rule_applies_def)
qed simp





end
