(* ===== verification/Ruleset_Loader.thy ===== *)
theory Ruleset_Loader
  imports Model Ruleset_Set
begin

text \<open>
  Loading of remote rule sets (\<^verbatim>\<open>hongda-core/ruleset/loader.go\<close>): the on-disk cache, the ordered
  list of sources with retries, and the fallbacks to a stale cache or an empty optional set.

  The outside world is a record of parameters: what each HTTP attempt for a URL yields, the
  values \<^verbatim>\<open>url.Parse\<close> and \<^verbatim>\<open>sha256.Sum256\<close> compute, the JSON value a text denotes, whether the
  context is done, and whether the file system accepts a directory or a write. The cache
  directory is a map from file names to contents and modification times; \<^verbatim>\<open>writeCacheAtomic\<close>
  replaces a file by rename, so it either stores the new contents or leaves the old ones.
\<close>

datatype http_result =
    BadRequest
  | Failed
  | Response int "bytes option"

record load_world =
  w_fetch :: "string \<Rightarrow> nat \<Rightarrow> http_result"
  w_ctxDone :: bool
  w_urlPath :: "string \<Rightarrow> string option"
  w_urlString :: "string \<Rightarrow> string \<Rightarrow> string"
  w_sha256 :: "bytes \<Rightarrow> bytes"
  w_json :: "bytes \<Rightarrow> json_text"
  w_mkdirOK :: bool
  w_writeOK :: bool
  w_now :: int

record cache_file =
  f_data :: bytes
  f_mtime :: int

type_synonym cache_dir = "(string \<times> cache_file) list"

abbreviation maxSourceSize :: nat where "maxSourceSize \<equiv> 32 * 1024 * 1024"
abbreviation downloadAttempts :: nat where "downloadAttempts \<equiv> 2"

datatype load_error =
    MissingIDOrURL | NoCacheDir | MkdirFailed | NoSource | DownloadError | CacheWriteFailed

section \<open>Source addresses\<close>

text \<open>\<^verbatim>\<open>filepath.Ext\<close>: the suffix from the last dot behind the last separator.\<close>

fun path_ext_loop :: "string \<Rightarrow> string \<Rightarrow> string" where
  "path_ext_loop [] acc = []"
| "path_ext_loop (c # before) acc =
     (if c = CHR ''/'' \<or> c = CHR 0x5C then []
      else if c = CHR ''.'' then CHR ''.'' # acc
      else path_ext_loop before (c # acc))"

definition Ext :: "string \<Rightarrow> string" where
  "Ext p = path_ext_loop (rev p) []"

definition rewriteSourceURL :: "load_world \<Rightarrow> RulesetConfig \<Rightarrow> string \<Rightarrow> string" where
  "rewriteSourceURL w config source =
     (if rs_Format config \<noteq> ''binary'' then source
      else case w_urlPath w source of
        None \<Rightarrow> source
      | Some path \<Rightarrow>
          (if EqualFold (Ext path) ''.srs'' then w_urlString w source (TrimSuffix path (Ext path) @ ''.json'')
           else w_urlString w source path))"

fun source_loop :: "load_world \<Rightarrow> RulesetConfig \<Rightarrow> string list \<Rightarrow> string list \<Rightarrow> string list" where
  "source_loop w config [] vals = vals"
| "source_loop w config (raw # raws) vals =
     (let source = rewriteSourceURL w config (TrimSpace raw) in
      if source \<noteq> [] \<and> source \<notin> set vals then source_loop w config raws (vals @ [source])
      else source_loop w config raws vals)"

definition sourceURLs :: "load_world \<Rightarrow> RulesetConfig \<Rightarrow> string list" where
  "sourceURLs w config = source_loop w config (rs_URL config # rs_FallbackURLs config) []"

section \<open>Downloads\<close>

text \<open>
  One attempt: the data, or whether a retry makes sense. The body is read through a limit of
  \<^verbatim>\<open>maxSourceSize+1\<close> bytes; \<^const>\<open>None\<close> is a read error.
\<close>

definition downloadOnce :: "load_world \<Rightarrow> string \<Rightarrow> nat \<Rightarrow> bytes + bool" where
  "downloadOnce w source attempt =
     (case w_fetch w source attempt of
        BadRequest \<Rightarrow> Inr False
      | Failed \<Rightarrow> Inr True
      | Response status body \<Rightarrow>
          (if status \<noteq> 200 then Inr (status = 408 \<or> status = 429 \<or> 500 \<le> status)
           else case body of
             None \<Rightarrow> Inr True
           | Some b \<Rightarrow>
               (let data = take (maxSourceSize + 1) b in
                if maxSourceSize < length data then Inr False else Inl data)))"

text \<open>The loop of \<^verbatim>\<open>download\<close>: \<open>k\<close> attempts are left, \<^const>\<open>None\<close> is the error.\<close>

fun download_loop :: "load_world \<Rightarrow> string \<Rightarrow> nat \<Rightarrow> nat \<Rightarrow> bytes option" where
  "download_loop w source attempt 0 = None"
| "download_loop w source attempt (Suc k) =
     (case downloadOnce w source attempt of
        Inl data \<Rightarrow> Some data
      | Inr retry \<Rightarrow>
          (if \<not> retry \<or> attempt = downloadAttempts \<or> w_ctxDone w then None
           else download_loop w source (attempt + 1) k))"

definition download :: "load_world \<Rightarrow> string \<Rightarrow> bytes option" where
  "download w source = download_loop w source 1 downloadAttempts"

text \<open>The loop over the sources stops at the first one that downloads and parses.\<close>

fun try_sources :: "load_world \<Rightarrow> string \<Rightarrow> string list \<Rightarrow> (ruleset_error, (bytes \<times> ruleset) option) go" where
  "try_sources w i [] = Ret None"
| "try_sources w i (source # sources) =
     (case download w source of
        None \<Rightarrow> try_sources w i sources
      | Some data \<Rightarrow>
          gtry (ParseSource i (w_json w data)) (\<lambda>_. try_sources w i sources) (\<lambda>s. Ret (Some (data, s))))"

section \<open>Cache\<close>

definition safe_char :: "char \<Rightarrow> char" where
  "safe_char c =
     (let n = (of_char c :: nat) in
      if (97 \<le> n \<and> n \<le> 122) \<or> (65 \<le> n \<and> n \<le> 90) \<or> (48 \<le> n \<and> n \<le> 57) \<or> c = CHR ''-'' \<or> c = CHR ''_''
      then c else CHR ''_'')"

definition cacheName :: "load_world \<Rightarrow> RulesetConfig \<Rightarrow> string" where
  "cacheName w config =
     map safe_char (rs_ID config) @ ''-'' @
     hex_encode (take 6 (w_sha256 w (bytes_of_string (rs_ID config @ [CHR 0x00] @ rs_URL config)))) @ ''.json''"

definition readCache :: "string \<Rightarrow> cache_dir \<Rightarrow> cache_file option" where
  "readCache path d =
     (case map_of d path of
        None \<Rightarrow> None
      | Some f \<Rightarrow> if maxSourceSize < length (f_data f) then None else Some f)"

definition writeCacheAtomic :: "load_world \<Rightarrow> string \<Rightarrow> bytes \<Rightarrow> cache_dir \<Rightarrow> cache_dir option" where
  "writeCacheAtomic w path data d =
     (if w_writeOK w then Some (AList.update path \<lparr>f_data = data, f_mtime = w_now w\<rparr> d) else None)"

text \<open>
  \<^verbatim>\<open>Load\<close> returns the set and the cache directory it leaves. \<open>nanos\<close> are nanoseconds.
\<close>

abbreviation nanos :: int where "nanos \<equiv> 1000000000"

definition cached_set :: "load_world \<Rightarrow> RulesetConfig \<Rightarrow> cache_dir \<Rightarrow> (load_error, (cache_file \<times> ruleset) option) go" where
  "cached_set w config d =
     (case readCache (cacheName w config) d of
        None \<Rightarrow> Ret None
      | Some f \<Rightarrow> gtry (ParseSource (rs_ID config) (w_json w (f_data f))) (\<lambda>_. Ret None) (\<lambda>s. Ret (Some (f, s))))"

definition update_interval :: "RulesetConfig \<Rightarrow> int" where
  "update_interval config =
     (let i = rs_UpdateInterval config * nanos in if i \<le> 0 then 24 * 3600 * nanos else i)"

definition Load :: "load_world \<Rightarrow> RulesetConfig \<Rightarrow> string \<Rightarrow> cache_dir \<Rightarrow> (load_error, ruleset \<times> cache_dir) go" where
  "Load w config cacheDir d =
     (if rs_ID config = [] \<or> rs_URL config = [] then Err MissingIDOrURL
      else if cacheDir = [] then Err NoCacheDir
      else if \<not> w_mkdirOK w then Err MkdirFailed
      else gbind (cached_set w config d) (\<lambda>cached.
        if (case cached of None \<Rightarrow> False | Some (f, s) \<Rightarrow> w_now w - f_mtime f < update_interval config)
        then (case cached of Some (f, s) \<Rightarrow> Ret (s, d) | None \<Rightarrow> Panic)
        else gtry (try_sources w (rs_ID config) (sourceURLs w config)) (\<lambda>_. Err DownloadError) (\<lambda>got.
          case got of
            None \<Rightarrow>
              (case cached of
                 Some (f, s) \<Rightarrow> Ret (s, d)
               | None \<Rightarrow> if rs_Optional config then Ret (NewEmpty (rs_ID config), d) else Err DownloadError)
          | Some (data, s) \<Rightarrow>
              (case writeCacheAtomic w (cacheName w config) data d of
                 None \<Rightarrow> Err CacheWriteFailed
               | Some d' \<Rightarrow> Ret (s, d')))))"

section \<open>Lemmas\<close>

lemma source_loop_spec:
  "set (source_loop w config raws vals) =
     set vals \<union> ((\<lambda>raw. rewriteSourceURL w config (TrimSpace raw)) ` set raws - {[]}) \<and>
   (distinct vals \<longrightarrow> distinct (source_loop w config raws vals))"
  by (induction w config raws vals rule: source_loop.induct) (auto simp: Let_def)

lemma try_sources_np: "try_sources w i ss \<noteq> Panic \<and> try_sources w i ss \<noteq> Err e"
  by (induction ss) (auto simp: gtry_def ParseSource_np split: option.splits go.splits)

lemma try_sources_found:
  "try_sources w i ss = Ret (Some (data, s)) \<Longrightarrow>
   \<exists>src\<in>set ss. download w src = Some data \<and> ParseSource i (w_json w data) = Ret s"
  by (induction ss) (auto simp: gtry_def split: option.splits go.splits)

lemma try_sources_none:
  "try_sources w i ss = Ret None \<longleftrightarrow>
   (\<forall>src\<in>set ss. \<forall>data s. download w src = Some data \<longrightarrow> ParseSource i (w_json w data) \<noteq> Ret s)"
  by (induction ss) (auto simp: gtry_def ParseSource_np split: option.splits go.splits)

lemma download_loop_size: "download_loop w source a k = Some data \<Longrightarrow> length data \<le> maxSourceSize"
  by (induction k arbitrary: a)
    (auto simp: downloadOnce_def Let_def split: http_result.splits option.splits sum.splits if_splits)

lemma cached_set_np: "cached_set w config d \<noteq> Panic \<and> cached_set w config d \<noteq> Err e"
  by (auto simp: cached_set_def gtry_def ParseSource_np split: option.splits go.splits)

lemma cached_set_Some:
  "cached_set w config d = Ret (Some (f, s)) \<Longrightarrow>
   map_of d (cacheName w config) = Some f \<and> ParseSource (rs_ID config) (w_json w (f_data f)) = Ret s"
  by (auto simp: cached_set_def readCache_def gtry_def split: option.splits go.splits if_splits)

section \<open>Properties\<close>


definition world_example :: load_world where
  "world_example = \<lparr>w_fetch = (\<lambda>u n. if n = 1 then Failed else Response 200 (Some [1])), w_ctxDone = False,
     w_urlPath = (\<lambda>_. None), w_urlString = (\<lambda>u p. u), w_sha256 = (\<lambda>_. [1, 2, 3, 4, 5, 6, 7]),
     w_json = (\<lambda>_. source_example), w_mkdirOK = True, w_writeOK = True, w_now = 5\<rparr>"

definition config_example :: RulesetConfig where
  "config_example = \<lparr>rs_ID = ''s'', rs_Type = [], rs_Format = [], rs_URL = ''u'', rs_FallbackURLs = [],
     rs_DownloadDetour = [], rs_UpdateInterval = 0, rs_Optional = False\<rparr>"


end
