(* ===== verification/Framing.thy ===== *)
theory Framing
  imports Go_Strings "HOL-Library.Sublist"
begin

text \<open>
  Byte streams and packet framing, shared by the protocol codecs and by DNS over TCP. The input
  of a connection is the list of bytes that will still arrive, after which the peer closes;
  output is the list of bytes written so far. \<open>buffered_read\<close> is the read discipline all
  framed connections of the core share: a packet that does not fit the caller's buffer is kept
  and handed out by the next reads.

  The locale \<open>packet_source\<close> states what such a connection relies on from its frame decoder and
  proves once what its reader gets.
\<close>

section \<open>Reading and writing a connection\<close>

datatype conn_error = EOF | UnexpectedEOF | WriteFailed | Refused string

definition ReadFull :: "nat \<Rightarrow> bytes \<Rightarrow> (conn_error, bytes \<times> bytes) go" where
  "ReadFull n input =
     (if n \<le> length input then Ret (take n input, drop n input)
      else Err (if input = [] then EOF else UnexpectedEOF))"

text \<open>\<^verbatim>\<open>io.CopyN(io.Discard, conn, n)\<close>: a short read is always \<^verbatim>\<open>io.EOF\<close>.\<close>

definition Discard :: "nat \<Rightarrow> bytes \<Rightarrow> (conn_error, bytes) go" where
  "Discard n input = (if n \<le> length input then Ret (drop n input) else Err EOF)"

text \<open>Successive writes; \<open>wok\<close> says which writes the connection accepts.\<close>

fun send :: "(bytes \<Rightarrow> bool) \<Rightarrow> bytes list \<Rightarrow> bytes \<Rightarrow> (conn_error, bytes) go" where
  "send wok [] out = Ret out"
| "send wok (c # cs) out = (if wok c then send wok cs (out @ c) else Err WriteFailed)"

lemma ReadFull_app [simp]: "ReadFull (length xs) (xs @ rest) = Ret (xs, rest)"
  by (simp add: ReadFull_def)

lemma ReadFull_app_n: "n = length xs \<Longrightarrow> ReadFull n (xs @ rest) = Ret (xs, rest)"
  by simp

lemma ReadFull_2 [simp]: "ReadFull 2 (a # b # rest) = Ret ([a, b], rest)"
  by (simp add: ReadFull_def)

lemma ReadFull_1 [simp]: "ReadFull (Suc 0) (a # rest) = Ret ([a], rest)"
  by (simp add: ReadFull_def)

lemma ReadFull_put16 [simp]: "ReadFull 2 (put16 n @ rest) = Ret (put16 n, rest)"
  by (simp add: put16_def)

lemma ReadFull_eq_Ret: "ReadFull n input = Ret (xs, rest) \<longleftrightarrow> input = xs @ rest \<and> length xs = n"
  by (auto simp: ReadFull_def)

lemma ReadFull_np [simp, np_rules]: "ReadFull n input \<noteq> Panic"
  by (simp add: ReadFull_def)

lemma ReadFull_nil [simp]: "0 < n \<Longrightarrow> ReadFull n [] = Err EOF"
  by (simp add: ReadFull_def)

lemma Discard_np [simp, np_rules]: "Discard n input \<noteq> Panic"
  by (simp add: Discard_def)

lemma Discard_app [simp]: "Discard (length xs) (xs @ rest) = Ret rest"
  by (simp add: Discard_def)

lemma send_all: "(\<And>c. c \<in> set cs \<Longrightarrow> wok c) \<Longrightarrow> send wok cs out = Ret (out @ concat cs)"
  by (induction cs arbitrary: out) auto

lemma send_prefix: "send wok cs out = Ret out' \<Longrightarrow> out' = out @ concat cs"
  by (induction cs arbitrary: out) (fastforce split: if_splits)+

section \<open>Buffered reads\<close>

definition buffered_read ::
  "('s \<Rightarrow> ('e, bytes \<times> 's) go) \<Rightarrow> nat \<Rightarrow> bytes \<times> 's \<Rightarrow> ('e, bytes \<times> bytes \<times> 's) go" where
  "buffered_read nxt n c =
     (case c of (buf, s) \<Rightarrow>
       if n = 0 then Ret ([], buf, s)
       else if 0 < length buf then Ret (take n buf, drop n buf, s)
       else gbind (nxt s) (\<lambda>(packet, s'). Ret (take n packet, drop n packet, s')))"

text \<open>What a caller sees that reads with buffers of the given sizes until the first error.\<close>

fun reads :: "('s \<Rightarrow> ('e, bytes \<times> 's) go) \<Rightarrow> nat list \<Rightarrow> bytes \<times> 's \<Rightarrow> bytes list" where
  "reads nxt [] c = []"
| "reads nxt (n # ns) c =
     (case buffered_read nxt n c of Ret (b, c') \<Rightarrow> b # reads nxt ns c' | _ \<Rightarrow> [])"

locale packet_source =
  fixes nxt :: "'s \<Rightarrow> ('e, bytes \<times> 's) go"
    and carries :: "'s \<Rightarrow> bytes list \<Rightarrow> bool"
  assumes next_packet: "carries s (p # ps) \<Longrightarrow> p \<noteq> [] \<and> (\<exists>s'. nxt s = Ret (p, s') \<and> carries s' ps)"
    and no_packet: "carries s [] \<Longrightarrow> \<exists>e. nxt s = Err e"
begin

lemma read_step:
  assumes "carries s ps" "0 < n" "buf @ concat ps \<noteq> []"
  shows "\<exists>b buf' s' ps'. buffered_read nxt n (buf, s) = Ret (b, buf', s') \<and> carries s' ps' \<and>
    b \<noteq> [] \<and> buf @ concat ps = b @ buf' @ concat ps'"
proof (cases "buf = []")
  case False
  with assms show ?thesis
    by (auto simp: buffered_read_def take_eq_Nil intro!: exI [of _ ps])
next
  case True
  with assms(3) obtain p qs where ps: "ps = p # qs" by (cases ps) auto
  with next_packet assms(1) obtain s' where s': "p \<noteq> []" "nxt s = Ret (p, s')" "carries s' qs" by blast
  have "buf @ concat ps = take n p @ drop n p @ concat qs" using True ps by simp
  with s' assms(2) True show ?thesis by (fastforce simp: buffered_read_def take_eq_Nil)
qed

lemma read_end: "carries s ps \<Longrightarrow> 0 < n \<Longrightarrow> buf @ concat ps = [] \<Longrightarrow> \<exists>e. buffered_read nxt n (buf, s) = Err e"
proof -
  assume a: "carries s ps" "0 < n" "buf @ concat ps = []"
  have "ps = []" using a(1,3) next_packet by (cases ps) auto
  with a no_packet show ?thesis by (fastforce simp: buffered_read_def)
qed

lemma reads_deliver:
  "carries s ps \<Longrightarrow> \<forall>n\<in>set ns. 0 < n \<Longrightarrow>
   prefix (concat (reads nxt ns (buf, s))) (buf @ concat ps) \<and>
   (length (buf @ concat ps) \<le> length ns \<longrightarrow> concat (reads nxt ns (buf, s)) = buf @ concat ps)"
proof (induction ns arbitrary: buf s ps)
  case (Cons n ns)
  show ?case
  proof (cases "buf @ concat ps = []")
    case True
    with read_end [OF Cons.prems(1) _ True, of n] Cons.prems(2) show ?thesis by auto
  next
    case False
    then obtain b buf' s' ps' where r: "buffered_read nxt n (buf, s) = Ret (b, buf', s')" "carries s' ps'" "b \<noteq> []"
      "buf @ concat ps = b @ buf' @ concat ps'"
      using read_step [OF Cons.prems(1) _ False, of n] Cons.prems(2) by auto
    have IH: "prefix (concat (reads nxt ns (buf', s'))) (buf' @ concat ps')"
      "length (buf' @ concat ps') \<le> length ns \<longrightarrow> concat (reads nxt ns (buf', s')) = buf' @ concat ps'"
      using Cons.IH [OF r(2), of buf'] Cons.prems(2) by auto
    have "concat (reads nxt (n # ns) (buf, s)) = b @ concat (reads nxt ns (buf', s'))" using r(1) by simp
    moreover have "length (b @ buf' @ concat ps') \<le> length (n # ns) \<Longrightarrow> length (buf' @ concat ps') \<le> length ns"
      using r(3) by (cases b) auto
    ultimately show ?thesis using IH unfolding r(4) by simp
  qed
qed simp

lemma reads_packets:
  "carries s ps \<Longrightarrow> \<forall>p\<in>set ps. length p \<le> n \<Longrightarrow> reads nxt (replicate (length ps) n) ([], s) = ps"
proof (induction ps arbitrary: s)
  case (Cons p ps)
  from next_packet [OF Cons.prems(1)] obtain s' where s': "p \<noteq> []" "nxt s = Ret (p, s')" "carries s' ps" by blast
  from s'(1) Cons.prems(2) have "0 < n" by (cases p) auto
  with Cons.IH [OF s'(3)] Cons.prems(2) s' show ?case by (simp add: buffered_read_def)
qed simp

end

text \<open>A link: a source together with the frame the writer puts around a packet that fits.\<close>

locale packet_link = packet_source nxt carries
  for nxt :: "bytes \<Rightarrow> ('e, bytes \<times> bytes) go" and carries :: "bytes \<Rightarrow> bytes list \<Rightarrow> bool" +
  fixes frame :: "bytes \<Rightarrow> bytes" and fits :: "bytes \<Rightarrow> bool"
  assumes carries_nil: "carries [] []"
    and carries_frame: "fits p \<Longrightarrow> carries s ps \<Longrightarrow> carries (frame p @ s) (p # ps)"
begin

lemma carries_frames: "list_all fits ps \<Longrightarrow> carries (concat (map frame ps)) ps"
  by (induction ps) (auto simp: carries_nil carries_frame)

lemma link_packets:
  "list_all fits ps \<Longrightarrow> \<forall>p\<in>set ps. length p \<le> n \<Longrightarrow> reads nxt (replicate (length ps) n) ([], concat (map frame ps)) = ps"
  by (rule reads_packets [OF carries_frames])

lemma link_bytes:
  "list_all fits ps \<Longrightarrow> \<forall>n\<in>set ns. 0 < n \<Longrightarrow> length (concat ps) \<le> length ns \<Longrightarrow>
   concat (reads nxt ns ([], concat (map frame ps))) = concat ps"
  using reads_deliver [OF carries_frames, of ps ns "[]"] by simp

end

text \<open>A sequence of \<^verbatim>\<open>Write\<close> calls, each given what was written before.\<close>

fun write_seq :: "(bytes \<Rightarrow> bytes \<Rightarrow> ('e, nat \<times> bytes) go) \<Rightarrow> bytes list \<Rightarrow> bytes \<Rightarrow> ('e, bytes) go" where
  "write_seq wr [] out = Ret out"
| "write_seq wr (p # ps) out = gbind (wr p out) (\<lambda>(n, out'). write_seq wr ps out')"

lemma write_seq_frames:
  "(\<And>p out. p \<in> set ps \<Longrightarrow> wr p out = Ret (length p, out @ frame p)) \<Longrightarrow>
   write_seq wr ps out = Ret (out @ concat (map frame ps))"
  by (induction ps arbitrary: out) auto

definition accepts_all :: "bytes \<Rightarrow> bool" where
  "accepts_all c = True"

end
