(* ===== verification/Proto_Address.thy ===== *)
theory Proto_Address
  imports Go_Net Framing
begin

text \<open>
  Destination addresses on the wire (\<^verbatim>\<open>protocol/util.go\<close>, and the address codecs of
  \<^verbatim>\<open>trojan.go\<close> and \<^verbatim>\<open>xudp.go\<close>): one shape, a type byte followed by four, sixteen or a counted
  number of bytes, with a different type byte per protocol and the port before or after.
\<close>

section \<open>util.go\<close>

definition splitAddress :: "string \<Rightarrow> (conn_error, string \<times> nat) go" where
  "splitAddress address =
     (case SplitHostPort address of
        None \<Rightarrow> Err (Refused ''missing port'')
      | Some (h, p) \<Rightarrow>
          (case Atoi p of
             None \<Rightarrow> Err (Refused ''invalid port'')
           | Some n \<Rightarrow> if n < 1 \<or> 65535 < n then Err (Refused ''invalid port'') else Ret (h, nat n)))"

definition parseUUID :: "string \<Rightarrow> (conn_error, bytes) go" where
  "parseUUID s =
     (let clean = RemoveAll (TrimSpace s) (CHR ''-'') in
      if length clean \<noteq> 32 then Err (Refused ''invalid uuid'')
      else (case hex_decode clean of None \<Rightarrow> Err (Refused ''invalid uuid'') | Some b \<Rightarrow> Ret b))"

definition vlessAddress :: "string \<Rightarrow> nat \<Rightarrow> bytes" where
  "vlessAddress host port =
     (case ParseIP host of
        Some ip \<Rightarrow>
          (case To4 ip of
             Some v4 \<Rightarrow> put16 port @ [0x01] @ v4
           | None \<Rightarrow> put16 port @ [0x03] @ To16 ip)
      | None \<Rightarrow> put16 port @ [0x02, word_of_nat (length host)] @ bytes_of_string host)"

definition trojanAddress :: "string \<Rightarrow> nat \<Rightarrow> bytes" where
  "trojanAddress host port =
     (case ParseIP host of
        Some ip \<Rightarrow>
          (case To4 ip of
             Some v4 \<Rightarrow> [0x01] @ v4
           | None \<Rightarrow> [0x04] @ To16 ip)
      | None \<Rightarrow> [0x03, word_of_nat (length host)] @ bytes_of_string host) @ put16 port"

section \<open>trojan.go\<close>

definition readTrojanAddress :: "bytes \<Rightarrow> (conn_error, bytes \<times> bytes) go" where
  "readTrojanAddress r =
     gbind (ReadFull 1 r) (\<lambda>(atyp, r1).
     gbind (idx atyp 0) (\<lambda>t.
     gbind (if t = 0x01 then Ret ([t], 4, r1)
            else if t = 0x04 then Ret ([t], 16, r1)
            else if t = 0x03 then
              gbind (ReadFull 1 r1) (\<lambda>(b, r2). gbind (idx b 0) (\<lambda>n. Ret ([t] @ [n], unat n, r2)))
            else Err (Refused ''trojan: unknown address type'')) (\<lambda>(header, addrLen, r3).
     gbind (if 0 < addrLen then gbind (ReadFull addrLen r3) (\<lambda>(a, r4). Ret (header @ a, r4)) else Ret (header, r3))
       (\<lambda>(header, r5).
     gbind (ReadFull 2 r5) (\<lambda>(port, r6). Ret (header @ port, r6))))))"

section \<open>xudp.go\<close>

definition muxAddressBytes :: "string \<Rightarrow> bytes" where
  "muxAddressBytes host =
     (case ParseIP host of
        Some ip \<Rightarrow>
          (case To4 ip of
             Some v4 \<Rightarrow> [0x01] @ v4
           | None \<Rightarrow> [0x03] @ To16 ip)
      | None \<Rightarrow> [0x02, word_of_nat (length host)] @ bytes_of_string host)"

definition parseMuxAddress :: "bytes \<Rightarrow> (conn_error, string \<times> nat) go" where
  "parseMuxAddress data =
     (if length data < 1 then Err UnexpectedEOF
      else gbind (idx data 0) (\<lambda>t.
        if t = 0x01 then
          (if length data < 5 then Err UnexpectedEOF
           else gbind (slc data 1 5) (\<lambda>ip. Ret (IP_String ip, 5)))
        else if t = 0x03 then
          (if length data < 17 then Err UnexpectedEOF
           else gbind (slc data 1 17) (\<lambda>ip. Ret (IP_String ip, 17)))
        else if t = 0x02 then
          (if length data < 2 then Err UnexpectedEOF
           else gbind (idx data 1) (\<lambda>c.
             let n = unat c in
             if length data < 2 + n then Err UnexpectedEOF
             else gbind (slc data 2 (2 + n)) (\<lambda>h. Ret (string_of_bytes h, 2 + n))))
        else Err (Refused ''mux: unknown address type'')))"

section \<open>Lemmas\<close>

text \<open>Hosts whose length byte does not wrap around.\<close>

definition host_fits :: "string \<Rightarrow> bool" where
  "host_fits host \<longleftrightarrow> ParseIP host \<noteq> None \<or> length host \<le> 255"

lemma ParseIP_len: "ParseIP s = Some b \<Longrightarrow> length b = 16"
  using ParseAddr_wf [of s] by (auto simp: ParseIP_def wf_addr_def As16_def split: option.splits addr.splits if_splits)

lemma ParseIP_cases:
  obtains (v4) ip v where "ParseIP host = Some ip" "To4 ip = Some v" "length v = 4"
  | (v6) ip where "ParseIP host = Some ip" "To4 ip = None" "length ip = 16" "To16 ip = ip"
  | (name) "ParseIP host = None"
  using ParseIP_len [of host] To4_len by (cases "ParseIP host"; cases "To4 (the (ParseIP host))") (auto simp: To16_def)

lemma splitAddress_range: "splitAddress a = Ret (h, p) \<Longrightarrow> 1 \<le> p \<and> p \<le> 65535"
  by (auto simp: splitAddress_def split: option.splits if_splits)

lemma splitAddress_Join:
  "CHR ''['' \<notin> set host \<Longrightarrow> CHR '']'' \<notin> set host \<Longrightarrow> 1 \<le> p \<Longrightarrow> p \<le> 65535 \<Longrightarrow>
   splitAddress (JoinHostPort host (Itoa p)) = Ret (host, p)"
  by (simp add: splitAddress_def SplitHostPort_JoinHostPort_Itoa)

lemma splitAddress_np [simp, np_rules]: "splitAddress a \<noteq> Panic"
  by (auto simp: splitAddress_def split: option.splits)

lemma parseUUID_np [simp, np_rules]: "parseUUID s \<noteq> Panic"
  by (auto simp: parseUUID_def Let_def split: option.splits)

lemma hex_decode_len: "hex_decode s = Some b \<Longrightarrow> 2 * length b = length s"
  by (induction s arbitrary: b rule: hex_decode.induct) (auto split: option.splits)

lemma parseUUID_len: "parseUUID s = Ret b \<Longrightarrow> length b = 16"
  by (auto simp: parseUUID_def Let_def dest: hex_decode_len split: option.splits if_splits)

lemma readTrojanAddress_np [simp, np_rules]: "readTrojanAddress r \<noteq> Panic"
  by (auto simp: readTrojanAddress_def ReadFull_eq_Ret)

lemma length_bytes [simp]: "length (bytes_of_string s) = length s"
  by (simp add: bytes_of_string_def)

lemma readTrojanAddress_enc:
  assumes "host_fits host"
  shows "readTrojanAddress (trojanAddress host port @ rest) = Ret (trojanAddress host port, rest)"
proof (cases rule: ParseIP_cases [of host])
  case (v4 ip v)
  then show ?thesis using ReadFull_app [of v "put16 port @ rest"] by (simp add: trojanAddress_def readTrojanAddress_def)
next
  case (v6 ip)
  then show ?thesis using ReadFull_app [of ip "put16 port @ rest"] by (simp add: trojanAddress_def readTrojanAddress_def)
next
  case name
  with assms have "length host \<le> 255" by (simp add: host_fits_def)
  then have len: "length host mod 256 = length host" by simp
  then show ?thesis using name ReadFull_app [of "bytes_of_string host" "put16 port @ rest"]
    by (simp add: trojanAddress_def readTrojanAddress_def)
qed

lemma string_bytes [simp]: "string_of_bytes (bytes_of_string s) = s"
  by (simp add: string_of_bytes_def bytes_of_string_def comp_def)

text \<open>The host a peer prints for the one that was sent: an address comes back in canonical form.\<close>

definition canonical_host :: "string \<Rightarrow> string" where
  "canonical_host host = (case ParseIP host of None \<Rightarrow> host | Some ip \<Rightarrow> IP_String ip)"

lemma parseMuxAddress_enc:
  assumes "host_fits host"
  shows "parseMuxAddress (muxAddressBytes host @ rest) = Ret (canonical_host host, length (muxAddressBytes host))"
proof (cases rule: ParseIP_cases [of host])
  case (v4 ip v)
  then have "IP_String v = IP_String ip" by (simp add: IP_String_def To4_def)
  with v4 show ?thesis by (simp add: muxAddressBytes_def parseMuxAddress_def canonical_host_def slc_def)
next
  case (v6 ip)
  then show ?thesis by (simp add: muxAddressBytes_def parseMuxAddress_def canonical_host_def slc_def)
next
  case name
  with assms have "length host \<le> 255" by (simp add: host_fits_def)
  then have len: "length host mod 256 = length host" by simp
  with name show ?thesis by (simp add: muxAddressBytes_def parseMuxAddress_def canonical_host_def slc_def Let_def)
qed

lemma parseMuxAddress_np [simp, np_rules]: "parseMuxAddress data \<noteq> Panic"
  by (auto simp: parseMuxAddress_def Let_def not_less)

lemma parseMuxAddress_le: "parseMuxAddress data = Ret (h, n) \<Longrightarrow> n \<le> length data"
  by (auto simp: parseMuxAddress_def Let_def split: if_splits)

lemma ip4_string_canonical:
  assumes "length b = 4"
  shows "canonical_host (ip4_string b) = ip4_string b"
  using assms To4_mapped [OF assms] by (simp add: canonical_host_def ParseIP_ip4_string IP_String_def)

end
