(* ===== verification/Trojan.thy ===== *)
theory Trojan
  imports Model Proto_Address
begin

text \<open>
  The Trojan outbound (\<^verbatim>\<open>protocol/trojan.go\<close>): construction, the request header a dial writes, and
  the UDP packets carried over the stream. \<open>sha224\<close> is the hash of the password and \<open>dial\<close> says
  whether the transport to the server could be opened.
\<close>

record Trojan =
  tj_id :: string
  tj_server :: string
  tj_port :: nat
  tj_password :: string
  tj_tls :: "TLSOptions option"
  tj_transport :: "TransportOptions option"

definition NewTrojan :: "Node \<Rightarrow> (conn_error, Trojan) go" where
  "NewTrojan node =
     (let password = auth_get (n_Auth node) ''password'' in
      if password = [] then Err (Refused ''trojan password is required'')
      else Ret \<lparr>tj_id = n_ID node, tj_server = n_Server node, tj_port = n_Port node, tj_password = password,
                tj_tls = n_TLS node, tj_transport = n_Transport node\<rparr>)"

datatype trojan_conn = TrojanStream | TrojanPackets bytes

definition crlf :: bytes where
  "crlf = [0x0D, 0x0A]"

definition trojan_header :: "(bytes \<Rightarrow> bytes) \<Rightarrow> string \<Rightarrow> u8 \<Rightarrow> bytes \<Rightarrow> bytes" where
  "trojan_header sha224 password command targetHeader =
     bytes_of_string (hex_encode (sha224 (bytes_of_string password))) @ crlf @ [command] @ targetHeader @ crlf"

definition Trojan_DialContext ::
  "(bytes \<Rightarrow> bytes) \<Rightarrow> (string \<Rightarrow> nat \<Rightarrow> TLSOptions option \<Rightarrow> TransportOptions option \<Rightarrow> bool) \<Rightarrow> (bytes \<Rightarrow> bool) \<Rightarrow>
   Trojan \<Rightarrow> string \<Rightarrow> string \<Rightarrow> (conn_error, trojan_conn \<times> bytes) go" where
  "Trojan_DialContext sha224 dial wok t network address =
     gbind (if network = ''tcp'' then Ret 0x01 else if network = ''udp'' then Ret 0x03
            else Err (Refused ''trojan supports tcp and udp only'')) (\<lambda>command.
     gbind (splitAddress address) (\<lambda>(host, port).
       if \<not> dial (tj_server t) (tj_port t) (tj_tls t) (tj_transport t) then Err (Refused ''dial'')
       else
         (let targetHeader = trojanAddress host port in
          gbind (send wok [trojan_header sha224 (tj_password t) command targetHeader] []) (\<lambda>out.
            Ret (if network = ''udp'' then TrojanPackets targetHeader else TrojanStream, out)))))"

text \<open>\<^verbatim>\<open>trojanUDPConn.Read\<close>: the part that decodes the next packet of the stream.\<close>

definition trojan_next :: "bytes \<Rightarrow> (conn_error, bytes \<times> bytes) go" where
  "trojan_next s =
     gbind (readTrojanAddress s) (\<lambda>(_, s1).
     gbind (ReadFull 2 s1) (\<lambda>(lenBuf, s2).
     gbind (Uint16 lenBuf) (\<lambda>len.
       if len \<le> 0 then Err UnexpectedEOF else ReadFull len s2)))"

definition trojanUDP_Read :: "nat \<Rightarrow> bytes \<times> bytes \<Rightarrow> (conn_error, bytes \<times> bytes \<times> bytes) go" where
  "trojanUDP_Read = buffered_read trojan_next"

definition trojanUDP_Write :: "(bytes \<Rightarrow> bool) \<Rightarrow> bytes \<Rightarrow> bytes \<Rightarrow> bytes \<Rightarrow> (conn_error, nat \<times> bytes) go" where
  "trojanUDP_Write wok header p out =
     (if length p = 0 then Ret (0, out)
      else gbind (send wok [header, put16 (length p), p] out) (\<lambda>out'. Ret (length p, out')))"

section \<open>Lemmas\<close>

text \<open>Packets a 16-bit length describes.\<close>

definition packet_fits :: "bytes \<Rightarrow> bool" where
  "packet_fits p \<longleftrightarrow> p \<noteq> [] \<and> length p \<le> 65535"

lemma packet_fits_len: "packet_fits p \<Longrightarrow> length p mod 65536 = length p \<and> 0 < length p"
  by (simp add: packet_fits_def)

text \<open>A stream of packets, each with the address of any peer that can be written.\<close>

inductive trojan_carries :: "bytes \<Rightarrow> bytes list \<Rightarrow> bool" where
  nil: "trojan_carries [] []"
| packet: "host_fits h \<Longrightarrow> packet_fits p \<Longrightarrow> trojan_carries s ps \<Longrightarrow>
    trojan_carries (trojanAddress h port @ put16 (length p) @ p @ s) (p # ps)"

inductive_cases trojan_carries_elims: "trojan_carries s []" "trojan_carries s (p # ps)"

lemma trojan_next_packet:
  "host_fits h \<Longrightarrow> packet_fits p \<Longrightarrow> trojan_next (trojanAddress h port @ put16 (length p) @ p @ s) = Ret (p, s)"
  using packet_fits_len [of p] by (simp add: trojan_next_def readTrojanAddress_enc)

lemma trojan_next_np [simp, np_rules]: "trojan_next s \<noteq> Panic"
  by (auto simp: trojan_next_def ReadFull_eq_Ret Uint16_long)

interpretation tj: packet_source trojan_next trojan_carries
proof
  show "trojan_carries s (p # ps) \<Longrightarrow> p \<noteq> [] \<and> (\<exists>s'. trojan_next s = Ret (p, s') \<and> trojan_carries s' ps)" for s p ps
    by (erule trojan_carries_elims) (auto simp: trojan_next_packet packet_fits_def)
  show "trojan_carries s [] \<Longrightarrow> \<exists>e. trojan_next s = Err e" for s
    by (erule trojan_carries_elims) (simp add: trojan_next_def readTrojanAddress_def)
qed

interpretation tjl: packet_link trojan_next trojan_carries "\<lambda>p. trojanAddress h port @ put16 (length p) @ p" "\<lambda>p. packet_fits p \<and> host_fits h"
  for h port
proof
  show "trojan_carries [] []" by (rule trojan_carries.nil)
  show "packet_fits p \<and> host_fits h \<Longrightarrow> trojan_carries s ps \<Longrightarrow>
    trojan_carries ((trojanAddress h port @ put16 (length p) @ p) @ s) (p # ps)" for p s ps
    using trojan_carries.packet [of h p s ps port] by simp
qed

lemma trojanUDP_Write_eq:
  "packet_fits p \<Longrightarrow> trojanUDP_Write accepts_all hdr p out = Ret (length p, out @ hdr @ put16 (length p) @ p)"
  by (simp add: trojanUDP_Write_def accepts_all_def packet_fits_def)

text \<open>What a Trojan server reads: the password hash, the command, the destination and the payload.\<close>

definition trojan_server :: "bytes \<Rightarrow> (conn_error, bytes \<times> u8 \<times> bytes \<times> bytes) go" where
  "trojan_server s =
     gbind (ReadFull 56 s) (\<lambda>(hash, s1).
     gbind (ReadFull 2 s1) (\<lambda>(e1, s2).
     gbind (ReadFull 1 s2) (\<lambda>(cmd, s3).
     gbind (readTrojanAddress s3) (\<lambda>(destination, s4).
     gbind (ReadFull 2 s4) (\<lambda>(e2, payload).
       if e1 = crlf \<and> e2 = crlf then Ret (hash, cmd ! 0, destination, payload) else Err (Refused ''bad request''))))))"

lemma len_hex_encode: "length (hex_encode b) = 2 * length b"
  by (induction b) (auto simp: hex_encode_def)

section \<open>Properties\<close>


definition trojan_example :: Trojan where
  "trojan_example = \<lparr>tj_id = ''jp'', tj_server = ''s.example'', tj_port = 443, tj_password = ''pw'', tj_tls = None, tj_transport = None\<rparr>"


text \<open>
  Datagrams through a Trojan stream arrive complete and in order: packets of 1 to 65535
  bytes written to a destination whose name fits its length byte, read back with buffers of any
  positive sizes, give exactly the bytes that were written, and with buffers that are large
  enough one packet per read.
\<close>

lemma trojanUDP_roundtrip:
  assumes "list_all packet_fits ps" "host_fits h"
  shows "\<exists>out. write_seq (trojanUDP_Write accepts_all (trojanAddress h port)) ps [] = Ret out \<and>
    (\<forall>ns. (\<forall>n\<in>set ns. 0 < n) \<and> length (concat ps) \<le> length ns \<longrightarrow> concat (reads trojan_next ns ([], out)) = concat ps) \<and>
    (\<forall>n. (\<forall>p\<in>set ps. length p \<le> n) \<longrightarrow> reads trojan_next (replicate (length ps) n) ([], out) = ps)"
proof -
  let ?frame = "\<lambda>p. trojanAddress h port @ put16 (length p) @ p"
  have w: "write_seq (trojanUDP_Write accepts_all (trojanAddress h port)) ps [] = Ret ([] @ concat (map ?frame ps))"
    using assms(1) by (intro write_seq_frames trojanUDP_Write_eq) (auto simp: list_all_iff)
  have fits: "list_all (\<lambda>p. packet_fits p \<and> host_fits h) ps" using assms by (simp add: list_all_iff)
  show ?thesis
    using w tjl.link_bytes [OF fits, where port = port] tjl.link_packets [OF fits, where port = port] by auto
qed

end
