(* ===== verification/VLESS.thy ===== *)
theory VLESS
  imports Trojan
begin

text \<open>
  The VLESS outbound (\<^verbatim>\<open>protocol/vless.go\<close>): construction, the request header a dial writes, the
  lazily consumed response header and length-prefixed UDP packets.
\<close>

record VLESS =
  vl_id :: string
  vl_server :: string
  vl_port :: nat
  vl_uuid :: bytes
  vl_flow :: string
  vl_xudp :: bool
  vl_tls :: "TLSOptions option"
  vl_transport :: "TransportOptions option"

definition NewVLESS :: "Node \<Rightarrow> (conn_error, VLESS) go" where
  "NewVLESS node =
     gbind (parseUUID (auth_get (n_Auth node) ''uuid'')) (\<lambda>uuidBytes.
       Ret \<lparr>vl_id = n_ID node, vl_server = n_Server node, vl_port = n_Port node, vl_uuid = uuidBytes,
            vl_flow = auth_get (n_Auth node) ''flow'',
            vl_xudp = (auth_get (n_Auth node) ''packet_encoding'' \<noteq> ''packetaddr''),
            vl_tls = n_TLS node, vl_transport = n_Transport node\<rparr>)"

abbreviation vlessFlowVision :: string where "vlessFlowVision \<equiv> ''xtls-rprx-vision''"
abbreviation xudpMagicHost :: string where "xudpMagicHost \<equiv> ''v1.mux.cool''"
abbreviation xudpMagicPort :: nat where "xudpMagicPort \<equiv> 666"

definition buildVLESSAddons :: "string \<Rightarrow> (conn_error, bytes) go" where
  "buildVLESSAddons flow =
     (if flow = [] then Ret []
      else if 255 < length flow then Err (Refused ''vless: flow name is too long'')
      else
        (let out = [0x0A, word_of_nat (length flow)] @ bytes_of_string flow in
         if 255 < length out then Err (Refused ''vless: addons block exceeds 255 bytes'') else Ret out))"

text \<open>The connection a dial returns: an XUDP session, UDP packets, Vision padding or the plain stream.\<close>

datatype vless_conn = VlessXUDP string nat | VlessPackets | VlessVision | VlessStream

definition vless_header :: "bytes \<Rightarrow> bytes \<Rightarrow> u8 \<Rightarrow> string \<Rightarrow> nat \<Rightarrow> bytes" where
  "vless_header uuid addons command host port =
     [0x00] @ uuid @ [word_of_nat (length addons)] @ addons @ [command] @ vlessAddress host port"

definition VLESS_DialContext ::
  "(string \<Rightarrow> nat \<Rightarrow> TLSOptions option \<Rightarrow> TransportOptions option \<Rightarrow> bool) \<Rightarrow> (bytes \<Rightarrow> bool) \<Rightarrow>
   VLESS \<Rightarrow> string \<Rightarrow> string \<Rightarrow> (conn_error, vless_conn \<times> bytes) go" where
  "VLESS_DialContext dial wok v network address =
     gbind (if network = ''tcp'' then Ret 0x01
            else if network = ''udp'' then Ret (if vl_xudp v then 0x03 else 0x02)
            else Err (Refused ''vless supports tcp and udp only'')) (\<lambda>command.
     gbind (if vl_xudp v \<and> network = ''udp'' then Ret (xudpMagicHost, xudpMagicPort) else splitAddress address)
       (\<lambda>(host, port).
     if \<not> dial (vl_server v) (vl_port v) (vl_tls v) (vl_transport v) then Err (Refused ''dial'')
     else
       gbind (if network \<noteq> ''udp'' \<or> \<not> vl_xudp v then buildVLESSAddons (vl_flow v) else Ret []) (\<lambda>addons.
       gbind (send wok [vless_header (vl_uuid v) addons command host port] []) (\<lambda>out.
         if vl_xudp v \<and> network = ''udp'' then
           gbind (splitAddress address) (\<lambda>(realHost, realPort). Ret (VlessXUDP realHost realPort, out))
         else if network = ''udp'' then Ret (VlessPackets, out)
         else if vl_flow v = vlessFlowVision then Ret (VlessVision, out)
         else Ret (VlessStream, out)))))"

definition vless_next :: "bytes \<Rightarrow> (conn_error, bytes \<times> bytes) go" where
  "vless_next s =
     gbind (ReadFull 2 s) (\<lambda>(lenBuf, s2).
     gbind (Uint16 lenBuf) (\<lambda>len.
       if len \<le> 0 then Err UnexpectedEOF else ReadFull len s2))"

definition vlessUDP_Read :: "nat \<Rightarrow> bytes \<times> bytes \<Rightarrow> (conn_error, bytes \<times> bytes \<times> bytes) go" where
  "vlessUDP_Read = buffered_read vless_next"

definition vlessUDP_Write :: "(bytes \<Rightarrow> bool) \<Rightarrow> bytes \<Rightarrow> bytes \<Rightarrow> (conn_error, nat \<times> bytes) go" where
  "vlessUDP_Write wok p out =
     (if length p = 0 then Ret (0, out)
      else gbind (send wok [put16 (length p), p] out) (\<lambda>out'. Ret (length p, out')))"

definition readVLESSResponse :: "bytes \<Rightarrow> (conn_error, bytes) go" where
  "readVLESSResponse s =
     gbind (ReadFull 2 s) (\<lambda>(resp, s1).
     gbind (idx resp 0) (\<lambda>version.
     if version \<noteq> 0x00 then Err (Refused ''vless: invalid response version'')
     else gbind (idx resp 1) (\<lambda>n. if 0 < n then Discard (unat n) s1 else Ret s1)))"

text \<open>
  \<^verbatim>\<open>vlessResponseConn.Read\<close>: the response is read once, before the first application read; its
  error is remembered. A read of the underlying connection returns what is there, up to \<open>n\<close>.
\<close>

definition conn_Read :: "nat \<Rightarrow> bytes \<Rightarrow> (conn_error, bytes \<times> bytes) go" where
  "conn_Read n input = (if n = 0 then Ret ([], input) else if input = [] then Err EOF else Ret (take n input, drop n input))"

datatype once = NotRead | ReadDone "conn_error option"

definition response_once :: "once \<times> bytes \<Rightarrow> once \<times> bytes" where
  "response_once c =
     (case c of
        (NotRead, input) \<Rightarrow>
          (case readVLESSResponse input of
             Ret rest \<Rightarrow> (ReadDone None, rest)
           | Err e \<Rightarrow> (ReadDone (Some e), input)
           | Panic \<Rightarrow> (NotRead, input))
      | _ \<Rightarrow> c)"

definition vlessResponse_Read :: "nat \<Rightarrow> once \<times> bytes \<Rightarrow> (conn_error, bytes) go \<times> (once \<times> bytes)" where
  "vlessResponse_Read n c =
     (case response_once c of
        (ReadDone (Some e), input) \<Rightarrow> (Err e, (ReadDone (Some e), input))
      | (st, input) \<Rightarrow>
          (case conn_Read n input of
             Ret (b, rest) \<Rightarrow> (Ret b, (st, rest))
           | Err e \<Rightarrow> (Err e, (st, input))
           | Panic \<Rightarrow> (Panic, (st, input))))"

section \<open>Lemmas\<close>

inductive vless_carries :: "bytes \<Rightarrow> bytes list \<Rightarrow> bool" where
  nil: "vless_carries [] []"
| packet: "packet_fits p \<Longrightarrow> vless_carries s ps \<Longrightarrow> vless_carries (put16 (length p) @ p @ s) (p # ps)"

inductive_cases vless_carries_elims: "vless_carries s []" "vless_carries s (p # ps)"

lemma vless_next_packet: "packet_fits p \<Longrightarrow> vless_next (put16 (length p) @ p @ s) = Ret (p, s)"
  using packet_fits_len [of p] by (simp add: vless_next_def)

lemma vless_next_np [simp, np_rules]: "vless_next s \<noteq> Panic"
  by (auto simp: vless_next_def ReadFull_eq_Ret Uint16_long)

interpretation vl: packet_source vless_next vless_carries
proof
  show "vless_carries s (p # ps) \<Longrightarrow> p \<noteq> [] \<and> (\<exists>s'. vless_next s = Ret (p, s') \<and> vless_carries s' ps)" for s p ps
    by (erule vless_carries_elims) (auto simp: vless_next_packet packet_fits_def)
  show "vless_carries s [] \<Longrightarrow> \<exists>e. vless_next s = Err e" for s
    by (erule vless_carries_elims) (simp add: vless_next_def)
qed

interpretation vll: packet_link vless_next vless_carries "\<lambda>p. put16 (length p) @ p" packet_fits
proof
  show "vless_carries [] []" by (rule vless_carries.nil)
  show "packet_fits p \<Longrightarrow> vless_carries s ps \<Longrightarrow> vless_carries ((put16 (length p) @ p) @ s) (p # ps)" for p s ps
    using vless_carries.packet [of p s ps] by simp
qed

lemma vlessUDP_Write_eq:
  "packet_fits p \<Longrightarrow> vlessUDP_Write accepts_all p out = Ret (length p, out @ put16 (length p) @ p)"
  by (simp add: vlessUDP_Write_def accepts_all_def packet_fits_def)

lemma readVLESSResponse_np [simp, np_rules]: "readVLESSResponse s \<noteq> Panic"
  by (auto simp: readVLESSResponse_def ReadFull_eq_Ret)

lemma buildVLESSAddons_ok:
  "buildVLESSAddons flow = Ret out \<Longrightarrow> length out \<le> 255 \<and>
     (if flow = [] then out = [] else \<exists>c. unat c = length flow \<and> out = 0x0A # c # bytes_of_string flow)"
  by (auto simp: buildVLESSAddons_def Let_def split: if_splits)

text \<open>What a VLESS server reads: version, user, addons, command, destination and the payload.\<close>

definition read_vless_address :: "bytes \<Rightarrow> (conn_error, bytes \<times> bytes) go" where
  "read_vless_address s =
     gbind (ReadFull 2 s) (\<lambda>(port, s1).
     gbind (ReadFull 1 s1) (\<lambda>(t, s2).
     gbind (if t = [0x01] then Ret ([], 4, s2) else if t = [0x03] then Ret ([], 16, s2)
            else if t = [0x02] then gbind (ReadFull 1 s2) (\<lambda>(n, s3). Ret (n, unat (n ! 0), s3))
            else Err (Refused ''address type'')) (\<lambda>(n, len, s4).
     gbind (ReadFull len s4) (\<lambda>(a, s5). Ret (port @ t @ n @ a, s5)))))"

definition vless_server :: "bytes \<Rightarrow> (conn_error, bytes \<times> bytes \<times> u8 \<times> bytes \<times> bytes) go" where
  "vless_server s =
     gbind (ReadFull 1 s) (\<lambda>(version, s1).
     gbind (ReadFull 16 s1) (\<lambda>(user, s2).
     gbind (ReadFull 1 s2) (\<lambda>(n, s3).
     gbind (ReadFull (unat (n ! 0)) s3) (\<lambda>(addons, s4).
     gbind (ReadFull 1 s4) (\<lambda>(cmd, s5).
     gbind (read_vless_address s5) (\<lambda>(destination, payload).
       if version = [0] then Ret (user, addons, cmd ! 0, destination, payload) else Err (Refused ''version'')))))))"

lemma read_vless_address_enc:
  assumes "host_fits host"
  shows "read_vless_address (vlessAddress host port @ rest) = Ret (vlessAddress host port, rest)"
proof (cases rule: ParseIP_cases [of host])
  case (v4 ip v)
  then show ?thesis using ReadFull_app [of v rest] by (simp add: vlessAddress_def read_vless_address_def)
next
  case (v6 ip)
  then show ?thesis using ReadFull_app [of ip rest] by (simp add: vlessAddress_def read_vless_address_def)
next
  case name
  with assms have "length host \<le> 255" by (simp add: host_fits_def)
  then have len: "length host mod 256 = length host" by simp
  then show ?thesis using name ReadFull_app [of "bytes_of_string host" rest]
    by (simp add: vlessAddress_def read_vless_address_def)
qed

lemma vless_server_header:
  assumes "length uuid = 16" "length addons \<le> 255" "host_fits host"
  shows "vless_server (vless_header uuid addons command host port @ payload) =
    Ret (uuid, addons, command, vlessAddress host port, payload)"
proof -
  have "length addons mod 256 = length addons" using assms(2) by simp
  then show ?thesis
    using ReadFull_app_n [of 16 uuid] ReadFull_app [of addons] assms(1) read_vless_address_enc [OF assms(3)]
    by (simp add: vless_header_def vless_server_def)
qed

section \<open>Properties\<close>


definition node_example :: Node where
  "node_example = \<lparr>n_ID = ''hk'', n_Name = [], n_Type = ''vless'', n_Server = ''s.example'', n_Port = 443, n_TLS = None,
     n_Transport = None, n_Auth = [(''uuid'', ''00112233-4455-6677-8899-aabbccddeeff''), (''flow'', vlessFlowVision)],
     n_Dial = \<lparr>d_BindInterface = [], d_DomainResolver = []\<rparr>, n_UDP = True, n_Tags = []\<rparr>"

definition vless_example :: VLESS where
  "vless_example = (case NewVLESS node_example of Ret v \<Rightarrow> v | _ \<Rightarrow> undefined)"


text \<open>
  Datagrams over a VLESS stream arrive complete and in order, whatever the sizes of the
  read buffers, and one per read when the buffers are large enough.
\<close>

lemma vlessUDP_roundtrip:
  assumes "list_all packet_fits ps"
  shows "\<exists>out. write_seq (vlessUDP_Write accepts_all) ps [] = Ret out \<and>
    (\<forall>ns. (\<forall>n\<in>set ns. 0 < n) \<and> length (concat ps) \<le> length ns \<longrightarrow> concat (reads vless_next ns ([], out)) = concat ps) \<and>
    (\<forall>n. (\<forall>p\<in>set ps. length p \<le> n) \<longrightarrow> reads vless_next (replicate (length ps) n) ([], out) = ps)"
proof -
  have w: "write_seq (vlessUDP_Write accepts_all) ps [] = Ret ([] @ concat (map (\<lambda>p. put16 (length p) @ p) ps))"
    using assms by (intro write_seq_frames vlessUDP_Write_eq) (auto simp: list_all_iff)
  show ?thesis using w vll.link_bytes [OF assms] vll.link_packets [OF assms] by auto
qed

end
