(* ===== verification/XUDP.thy ===== *)
theory XUDP
  imports VLESS
begin

text \<open>
  XUDP sessions over Mux.Cool frames (\<^verbatim>\<open>protocol/xudp.go\<close>): frame construction and decoding and the
  connection that sends a New frame, then Keep frames, and reads datagrams back, skipping
  keep-alive and empty frames.
\<close>

unbundle bit_operations_syntax

abbreviation muxStatusNew :: u8 where "muxStatusNew \<equiv> 0x01"
abbreviation muxStatusKeep :: u8 where "muxStatusKeep \<equiv> 0x02"
abbreviation muxStatusEnd :: u8 where "muxStatusEnd \<equiv> 0x03"
abbreviation muxStatusKeepAlive :: u8 where "muxStatusKeepAlive \<equiv> 0x04"
abbreviation muxOptionData :: u8 where "muxOptionData \<equiv> 0x01"
abbreviation muxNetworkUDP :: u8 where "muxNetworkUDP \<equiv> 0x02"

definition buildMuxFrame :: "bytes \<Rightarrow> bytes option \<Rightarrow> bytes" where
  "buildMuxFrame meta payload =
     put16 (length meta) @ meta @ (case payload of None \<Rightarrow> [] | Some p \<Rightarrow> put16 (length p) @ p)"

definition buildXUDPNew :: "string \<Rightarrow> nat \<Rightarrow> bytes \<Rightarrow> bytes \<Rightarrow> bytes" where
  "buildXUDPNew host port globalID payload =
     buildMuxFrame (put16 0 @ [muxStatusNew, muxOptionData, muxNetworkUDP] @ put16 port @ muxAddressBytes host @ globalID)
       (Some payload)"

definition buildXUDPKeep :: "string \<Rightarrow> nat \<Rightarrow> bytes \<Rightarrow> bytes" where
  "buildXUDPKeep host port payload =
     buildMuxFrame (put16 0 @ [muxStatusKeep, muxOptionData, muxNetworkUDP] @ put16 port @ muxAddressBytes host)
       (Some payload)"

definition buildXUDPEnd :: bytes where
  "buildXUDPEnd = buildMuxFrame (put16 0 @ [muxStatusEnd, 0x00]) None"

record xudpFrame =
  xf_status :: u8
  xf_option :: u8
  xf_host :: string
  xf_port :: nat
  xf_globalID :: bytes
  xf_data :: bytes

definition parseXUDPTarget :: "bytes \<Rightarrow> u8 \<Rightarrow> (conn_error, string \<times> nat \<times> bytes) go" where
  "parseXUDPTarget rest status =
     (if length rest < 4 then Err UnexpectedEOF
      else
        gbind (u16_at rest 1) (\<lambda>port.
        gbind (slc rest 3 (length rest)) (\<lambda>tail.
        gbind (parseMuxAddress tail) (\<lambda>(host, consumed0).
          let consumed = consumed0 + 3 in
          if status = muxStatusNew then
            (if length rest < consumed + 8 then Err UnexpectedEOF
             else gbind (slc rest consumed (consumed + 8)) (\<lambda>globalID. Ret (host, port, globalID)))
          else Ret (host, port, [])))))"

definition decodeXUDPFrame :: "bytes \<Rightarrow> (conn_error, xudpFrame \<times> bytes) go" where
  "decodeXUDPFrame r =
     gbind (ReadFull 2 r) (\<lambda>(lenBuf, r1).
     gbind (Uint16 lenBuf) (\<lambda>metaLen.
     gbind (ReadFull metaLen r1) (\<lambda>(meta, r2).
     if metaLen < 4 then Err (Refused ''xudp: short metadata'')
     else
       gbind (idx meta 2) (\<lambda>status.
       gbind (idx meta 3) (\<lambda>option.
       gbind (slc meta 4 (length meta)) (\<lambda>rest.
       gbind (if 0 < length rest then parseXUDPTarget rest status else Ret ([], 0, [])) (\<lambda>(host, port, globalID).
       gbind (if option AND muxOptionData \<noteq> 0 then
                gbind (ReadFull 2 r2) (\<lambda>(dlen, r3). gbind (Uint16 dlen) (\<lambda>n. ReadFull n r3))
              else Ret ([], r2)) (\<lambda>(data, r4).
         Ret (\<lparr>xf_status = status, xf_option = option, xf_host = host, xf_port = port, xf_globalID = globalID, xf_data = data\<rparr>, r4)))))))))"

section \<open>Frames\<close>

lemma parseXUDPTarget_np [simp, np_rules]: "parseXUDPTarget rest status \<noteq> Panic"
  by (auto simp: parseXUDPTarget_def Let_def u_at_iffs)

lemma decodeXUDPFrame_np [simp, np_rules]: "decodeXUDPFrame r \<noteq> Panic"
  by (auto simp: decodeXUDPFrame_def ReadFull_eq_Ret Uint16_long)

lemma decodeXUDPFrame_shrinks: "decodeXUDPFrame r = Ret (f, r') \<Longrightarrow> length r' < length r"
  by (auto simp: decodeXUDPFrame_def ReadFull_eq_Ret split: if_splits)

lemma parseXUDPTarget_enc:
  assumes "host_fits host" "port < 65536" "status = muxStatusNew \<longrightarrow> length gid = 8"
  shows "parseXUDPTarget ([muxNetworkUDP] @ put16 port @ muxAddressBytes host @ gid) status =
    Ret (canonical_host host, port, if status = muxStatusNew then gid else [])"
proof -
  have m: "0 < length (muxAddressBytes host)"
    by (simp add: muxAddressBytes_def split: option.split)
  have p: "put16 port = [word_of_nat (port div 256), word_of_nat port]" by (simp add: put16_def)
  have "port mod 65536 = port" using assms(2) by simp
  with m parseMuxAddress_enc [OF assms(1), of gid] assms(3) show ?thesis
    by (auto simp: parseXUDPTarget_def p Let_def u16_at_def slc_def numeral_3_eq_3)
qed

lemma muxAddressBytes_len: "host_fits host \<Longrightarrow> length (muxAddressBytes host) \<le> 257"
  by (cases rule: ParseIP_cases [of host]) (auto simp: muxAddressBytes_def host_fits_def)

lemma decode_mux_frame:
  assumes "host_fits host" "port < 65536" "status = muxStatusNew \<longrightarrow> length gid = 8" "length gid \<le> 8" "length p \<le> 65535"
  shows "decodeXUDPFrame (buildMuxFrame (put16 0 @ [status, muxOptionData, muxNetworkUDP] @ put16 port @ muxAddressBytes host @ gid) (Some p) @ rest) =
    Ret (\<lparr>xf_status = status, xf_option = muxOptionData, xf_host = canonical_host host, xf_port = port,
          xf_globalID = (if status = muxStatusNew then gid else []), xf_data = p\<rparr>, rest)"
proof -
  let ?t = "[muxNetworkUDP] @ put16 port @ muxAddressBytes host @ gid"
  let ?m = "put16 0 @ [status, muxOptionData] @ ?t"
  have len: "length ?m mod 65536 = length ?m" "4 \<le> length ?m" using muxAddressBytes_len [OF assms(1)] assms(4) by auto
  have r: "ReadFull (length ?m) (?m @ put16 (length p) @ p @ rest) = Ret (?m, put16 (length p) @ p @ rest)"
    by (rule ReadFull_app)
  have t: "?m ! 2 = status" "?m ! 3 = muxOptionData" "drop 4 ?m = ?t"
    by (simp_all add: put16_def)
  have lp: "length p mod 65536 = length p" using assms(5) by simp
  have "decodeXUDPFrame (put16 (length ?m) @ ?m @ put16 (length p) @ p @ rest) =
     gbind (parseXUDPTarget ?t status) (\<lambda>(host, port, gid).
       Ret (\<lparr>xf_status = status, xf_option = muxOptionData, xf_host = host, xf_port = port, xf_globalID = gid, xf_data = p\<rparr>, rest))"
  proof -
    have d: "slc ?m 4 (length ?m) = (Ret ?t :: (conn_error, bytes) go)"
      unfolding slc_in [OF len(2) order_refl] t(3) by simp
    have i: "idx ?m 2 = (Ret status :: (conn_error, u8) go)" "idx ?m 3 = (Ret muxOptionData :: (conn_error, u8) go)"
      using t(1,2) len(2) by (simp_all only: idx_in)
    show ?thesis
      unfolding decodeXUDPFrame_def ReadFull_put16 gbind_simps prod.case Uint16_put16_nil len(1) r i d
      using len(2) lp by (simp add: Let_def)
  qed
  then show ?thesis
    unfolding parseXUDPTarget_enc [OF assms(1-3)] by (simp add: buildMuxFrame_def)
qed

section \<open>The connection\<close>

function xudp_next :: "bytes \<Rightarrow> (conn_error, bytes \<times> bytes) go" where
  "xudp_next s =
     gbind (decodeXUDPFrame s) (\<lambda>(f, s').
       if xf_status f = muxStatusEnd then Err EOF
       else if xf_status f = muxStatusKeepAlive then xudp_next s'
       else if length (xf_data f) = 0 then xudp_next s'
       else Ret (xf_data f, s'))"
  by auto
termination
  by (relation "measure length") (auto dest: decodeXUDPFrame_shrinks)

declare xudp_next.simps [simp del]

record xudpConn =
  xc_host :: string
  xc_port :: nat
  xc_globalID :: bytes
  xc_first :: bool

definition newXUDPConn :: "bytes \<Rightarrow> string \<Rightarrow> nat \<Rightarrow> xudpConn" where
  "newXUDPConn globalID host port = \<lparr>xc_host = host, xc_port = port, xc_globalID = globalID, xc_first = True\<rparr>"

definition xudp_Read :: "nat \<Rightarrow> bytes \<times> bytes \<Rightarrow> (conn_error, bytes \<times> bytes \<times> bytes) go" where
  "xudp_Read = buffered_read xudp_next"

definition xudp_Write :: "(bytes \<Rightarrow> bool) \<Rightarrow> bytes \<Rightarrow> xudpConn \<times> bytes \<Rightarrow> (conn_error, nat \<times> xudpConn \<times> bytes) go" where
  "xudp_Write wok p c =
     (case c of (conn, out) \<Rightarrow>
       if length p = 0 then Ret (0, conn, out)
       else
         (let frame = (if xc_first conn then buildXUDPNew (xc_host conn) (xc_port conn) (xc_globalID conn) p
                       else buildXUDPKeep (xc_host conn) (xc_port conn) p) in
          gbind (send wok [frame] out) (\<lambda>out'. Ret (length p, conn\<lparr>xc_first := False\<rparr>, out'))))"

definition xudp_Close :: "(bytes \<Rightarrow> bool) \<Rightarrow> bytes \<Rightarrow> bytes" where
  "xudp_Close wok out = (if wok buildXUDPEnd then out @ buildXUDPEnd else out)"

fun xudp_writes :: "bytes list \<Rightarrow> xudpConn \<times> bytes \<Rightarrow> (conn_error, xudpConn \<times> bytes) go" where
  "xudp_writes [] c = Ret c"
| "xudp_writes (p # ps) c = gbind (xudp_Write accepts_all p c) (\<lambda>(n, c'). xudp_writes ps c')"

text \<open>
  A stream of XUDP frames and the datagrams it carries; keep-alive frames and frames without
  data may stand anywhere, and the stream ends with an End frame or simply closes.
\<close>

inductive xudp_carries :: "bytes \<Rightarrow> bytes list \<Rightarrow> bool" where
  closed: "xudp_carries [] []"
| fin: "decodeXUDPFrame s = Ret (f, s') \<Longrightarrow> xf_status f = muxStatusEnd \<Longrightarrow> xudp_carries s []"
| skip: "decodeXUDPFrame s = Ret (f, s') \<Longrightarrow> xf_status f \<noteq> muxStatusEnd \<Longrightarrow>
    xf_status f = muxStatusKeepAlive \<or> xf_data f = [] \<Longrightarrow> xudp_carries s' ps \<Longrightarrow> xudp_carries s ps"
| packet: "decodeXUDPFrame s = Ret (f, s') \<Longrightarrow> xf_status f \<noteq> muxStatusEnd \<Longrightarrow> xf_status f \<noteq> muxStatusKeepAlive \<Longrightarrow>
    xf_data f \<noteq> [] \<Longrightarrow> xudp_carries s' ps \<Longrightarrow> xudp_carries s (xf_data f # ps)"

lemma xudp_next_np [simp, np_rules]: "xudp_next s \<noteq> Panic"
proof (induction s rule: xudp_next.induct)
  case (1 s)
  show ?case
  proof (cases "decodeXUDPFrame s")
    case (Ret x)
    obtain f s' where x: "x = (f, s')" by (cases x)
    from 1 Ret x show ?thesis by (subst xudp_next.simps) auto
  qed (subst xudp_next.simps; simp)+
qed

lemma xudp_carries_next:
  "xudp_carries s ps \<Longrightarrow>
   (case ps of [] \<Rightarrow> \<exists>e. xudp_next s = Err e | p # qs \<Rightarrow> p \<noteq> [] \<and> (\<exists>s'. xudp_next s = Ret (p, s') \<and> xudp_carries s' qs))"
proof (induction rule: xudp_carries.induct)
  case closed
  then show ?case by (subst xudp_next.simps) (simp add: decodeXUDPFrame_def)
next
  case (fin s f s')
  then show ?case by (subst xudp_next.simps) simp
next
  case (skip s f s' ps)
  then have "xudp_next s = xudp_next s'" by (subst xudp_next.simps) auto
  then show ?case using skip.IH by (simp only:)
next
  case (packet s f s' ps)
  then show ?case by (subst xudp_next.simps) simp
qed

interpretation xu: packet_source xudp_next xudp_carries
  using xudp_carries_next by unfold_locales fastforce+

lemma decode_Keep:
  assumes "host_fits host" "port < 65536" "length p \<le> 65535"
  shows "decodeXUDPFrame (buildXUDPKeep host port p @ rest) =
    Ret (\<lparr>xf_status = muxStatusKeep, xf_option = muxOptionData, xf_host = canonical_host host, xf_port = port, xf_globalID = [], xf_data = p\<rparr>, rest)"
  using decode_mux_frame [OF assms(1,2), of muxStatusKeep "[]" p rest] assms(3) by (simp add: buildXUDPKeep_def)

lemma decode_New:
  assumes "host_fits host" "port < 65536" "length gid = 8" "length p \<le> 65535"
  shows "decodeXUDPFrame (buildXUDPNew host port gid p @ rest) =
    Ret (\<lparr>xf_status = muxStatusNew, xf_option = muxOptionData, xf_host = canonical_host host, xf_port = port, xf_globalID = gid, xf_data = p\<rparr>, rest)"
  using decode_mux_frame [OF assms(1,2), of muxStatusNew gid p rest] assms(3,4) by (simp add: buildXUDPNew_def)

lemma decode_End: "decodeXUDPFrame (buildXUDPEnd @ rest) =
    Ret (\<lparr>xf_status = muxStatusEnd, xf_option = 0, xf_host = [], xf_port = 0, xf_globalID = [], xf_data = []\<rparr>, rest)"
  by (simp add: buildXUDPEnd_def buildMuxFrame_def decodeXUDPFrame_def put16_def be16_def ReadFull_def slc_def idx_def)

lemma carries_End: "xudp_carries (buildXUDPEnd @ rest) []"
  by (rule xudp_carries.fin [OF decode_End]) simp

text \<open>The bytes a session writes: one frame per packet, the first one New.\<close>

fun session_bytes :: "xudpConn \<Rightarrow> bytes list \<Rightarrow> bytes" where
  "session_bytes c [] = []"
| "session_bytes c (p # ps) =
     (if xc_first c then buildXUDPNew (xc_host c) (xc_port c) (xc_globalID c) p else buildXUDPKeep (xc_host c) (xc_port c) p)
     @ session_bytes (c\<lparr>xc_first := False\<rparr>) ps"

definition xconn_ok :: "xudpConn \<Rightarrow> bool" where
  "xconn_ok c \<longleftrightarrow> host_fits (xc_host c) \<and> xc_port c < 65536 \<and> length (xc_globalID c) = 8"

lemma xudp_writes_bytes:
  "list_all packet_fits ps \<Longrightarrow> \<exists>c'. xudp_writes ps (c, out) = Ret (c', out @ session_bytes c ps)"
proof (induction ps arbitrary: c out)
  case (Cons p ps)
  let ?f = "if xc_first c then buildXUDPNew (xc_host c) (xc_port c) (xc_globalID c) p else buildXUDPKeep (xc_host c) (xc_port c) p"
  have "xudp_Write accepts_all p (c, out) = Ret (length p, c\<lparr>xc_first := False\<rparr>, out @ ?f)"
    using Cons.prems by (simp add: xudp_Write_def accepts_all_def packet_fits_def Let_def)
  with Cons.IH [of "c\<lparr>xc_first := False\<rparr>" "out @ ?f"] Cons.prems show ?case by simp
qed simp

lemma session_carries:
  "xconn_ok c \<Longrightarrow> list_all packet_fits ps \<Longrightarrow> xudp_carries (session_bytes c ps @ buildXUDPEnd) ps"
proof (induction ps arbitrary: c)
  case Nil
  then show ?case using carries_End [of "[]"] by simp
next
  case (Cons p ps)
  let ?c = "c\<lparr>xc_first := False\<rparr>"
  have rest: "xudp_carries (session_bytes ?c ps @ buildXUDPEnd) ps"
    using Cons by (auto simp: xconn_ok_def)
  have p: "p \<noteq> []" "length p \<le> 65535" using Cons.prems(2) by (auto simp: packet_fits_def)
  show ?case
  proof (cases "xc_first c")
    case True
    with xudp_carries.packet [OF decode_New [of "xc_host c" "xc_port c" "xc_globalID c" p] _ _ _ rest] p Cons.prems(1)
    show ?thesis by (simp add: xconn_ok_def)
  next
    case False
    with xudp_carries.packet [OF decode_Keep [of "xc_host c" "xc_port c" p] _ _ _ rest] p Cons.prems(1)
    show ?thesis by (simp add: xconn_ok_def)
  qed
qed

section \<open>Properties\<close>

text \<open>
  C36: datagrams through an XUDP session arrive complete and in order: what a new connection
  writes for packets of 1 to 65535 bytes, closed with an End frame, is read back as exactly these
  packets, whatever the sizes of the read buffers, and one per read when these are large enough.
\<close>

theorem xudp_session_roundtrip:
  assumes "host_fits host" "port < 65536" "length gid = 8" "list_all packet_fits ps"
  shows "\<exists>c out. xudp_writes ps (newXUDPConn gid host port, []) = Ret (c, out) \<and>
    (\<forall>ns. (\<forall>n\<in>set ns. 0 < n) \<and> length (concat ps) \<le> length ns \<longrightarrow>
       concat (reads xudp_next ns ([], xudp_Close accepts_all out)) = concat ps) \<and>
    (\<forall>n. (\<forall>p\<in>set ps. length p \<le> n) \<longrightarrow> reads xudp_next (replicate (length ps) n) ([], xudp_Close accepts_all out) = ps)"
proof -
  let ?c = "newXUDPConn gid host port"
  obtain c' where w: "xudp_writes ps (?c, []) = Ret (c', session_bytes ?c ps)"
    using xudp_writes_bytes [OF assms(4), of ?c "[]"] by auto
  have "xconn_ok ?c" using assms by (simp add: xconn_ok_def newXUDPConn_def)
  from session_carries [OF this assms(4)] have "xudp_carries (xudp_Close accepts_all (session_bytes ?c ps)) ps"
    by (simp add: xudp_Close_def accepts_all_def)
  with w xu.reads_deliver [of _ ps _ "[]"] xu.reads_packets show ?thesis by fastforce
qed

theorem xudp_session_roundtrip_witness:
  "\<exists>c out. xudp_writes [[1, 2], [3]] (newXUDPConn (replicate 8 0) ''a.b'' 53, []) = Ret (c, out) \<and>
    concat (reads xudp_next [1, 1, 1] ([], xudp_Close accepts_all out)) = [1, 2, 3]"
proof -
  have "host_fits ''a.b''" "(53 :: nat) < 65536" "length (replicate 8 (0 :: u8)) = 8" "list_all packet_fits [[1, 2], [3 :: u8]]"
    by (simp_all add: host_fits_def packet_fits_def)
  from xudp_session_roundtrip [OF this] obtain c out where out:
    "xudp_writes [[1, 2], [3]] (newXUDPConn (replicate 8 0) ''a.b'' 53, []) = Ret (c, out)"
    "\<forall>ns. (\<forall>n\<in>set ns. 0 < n) \<and> length (concat [[1, 2], [3 :: u8]]) \<le> length ns \<longrightarrow>
       concat (reads xudp_next ns ([], xudp_Close accepts_all out)) = concat [[1, 2], [3]]" by blast
  have "(\<forall>n\<in>set [1, 1, 1 :: nat]. 0 < n) \<and> length (concat [[1, 2], [3 :: u8]]) \<le> length [1, 1, 1 :: nat]" by simp
  from out(2) [THEN spec, THEN mp, OF this] out(1) show ?thesis by auto
qed

end
