(* ===== verification/Gun.thy ===== *)
theory Gun
  imports Trojan
begin

text \<open>
  The gRPC-lite ``Gun'' transport (\<^verbatim>\<open>protocol/transport_grpc.go\<close>): every payload is one gRPC message
  (a five-byte prefix) holding one protobuf bytes field. \<^verbatim>\<open>binary.Uvarint\<close> and
  \<^verbatim>\<open>binary.PutUvarint\<close> are modelled as they are documented; \<open>None\<close> is a result \<open>n \<le> 0\<close>.
\<close>

fun uvarint :: "nat \<Rightarrow> nat \<Rightarrow> bytes \<Rightarrow> (nat \<times> nat) option" where
  "uvarint i x [] = None"
| "uvarint i x (b # bs) =
     (if i = 10 then None
      else if b < 0x80 then (if i = 9 \<and> 1 < b then None else Some (x + unat b * 128 ^ i, i + 1))
      else uvarint (i + 1) (x + (unat b mod 128) * 128 ^ i) bs)"

definition Uvarint :: "bytes \<Rightarrow> (nat \<times> nat) option" where
  "Uvarint buf = uvarint 0 0 buf"

fun PutUvarint :: "nat \<Rightarrow> bytes" where
  "PutUvarint x = (if x < 128 then [word_of_nat x] else word_of_nat (x mod 128 + 128) # PutUvarint (x div 128))"

declare PutUvarint.simps [simp del]

definition readMessage :: "bytes \<Rightarrow> (conn_error, bytes \<times> bytes) go" where
  "readMessage s =
     gbind (ReadFull 5 s) (\<lambda>(header, s1).
     gbind (idx header 0) (\<lambda>flag.
     if flag \<noteq> 0 then Err (Refused ''grpc: compressed messages are not supported'')
     else
       gbind (u32_at header 1) (\<lambda>messageLen.
       if 16 * 1024 * 1024 < messageLen then Err (Refused ''grpc: message too large'')
       else
         gbind (ReadFull messageLen s1) (\<lambda>(message, s2).
         if length message = 0 then Err (Refused ''grpc: empty protobuf message'')
         else
           gbind (idx message 0) (\<lambda>tag.
           if tag \<noteq> 0x0A then Err (Refused ''grpc: invalid protobuf tag'')
           else
             (case Uvarint (drop 1 message) of
                None \<Rightarrow> Err (Refused ''grpc: invalid protobuf length'')
              | Some (dataLen, n) \<Rightarrow>
                  (if length message - 1 - n < dataLen then Err (Refused ''grpc: protobuf length exceeds frame'')
                   else gbind (slc message (1 + n) (1 + n + dataLen)) (\<lambda>payload. Ret (payload, s2)))))))))"

definition writeMessage :: "(bytes \<Rightarrow> bool) \<Rightarrow> bytes \<Rightarrow> bytes \<Rightarrow> (conn_error, bytes) go" where
  "writeMessage wok payload out =
     (let u = PutUvarint (length payload); messageLen = 1 + length u + length payload in
      send wok [[0] @ put32 messageLen, [0x0A], u, payload] out)"

text \<open>
  \<^verbatim>\<open>ensureResponse\<close>: what the round trip delivered, remembered by \<^verbatim>\<open>sync.Once\<close>: an HTTP status, no
  response, or an error.
\<close>

datatype round_trip = Status nat | NilResponse | RoundTripError

fun ensureResponse :: "round_trip \<Rightarrow> (conn_error, unit) go" where
  "ensureResponse (Status code) = (if code \<noteq> 200 then Err (Refused ''grpc: unexpected status'') else Ret ())"
| "ensureResponse NilResponse = Err (Refused ''grpc: nil response'')"
| "ensureResponse RoundTripError = Err (Refused ''grpc: round trip failed'')"

lemma readMessage_shrinks: "readMessage s = Ret (p, s') \<Longrightarrow> length s' < length s"
  by (auto simp: readMessage_def ReadFull_eq_Ret split: if_splits option.splits)

function gun_next :: "bytes \<Rightarrow> (conn_error, bytes \<times> bytes) go" where
  "gun_next s = gbind (readMessage s) (\<lambda>(payload, s'). if length payload = 0 then gun_next s' else Ret (payload, s'))"
  by auto
termination
  by (relation "measure length") (auto dest: readMessage_shrinks)

declare gun_next.simps [simp del]

definition gun_Read :: "round_trip \<Rightarrow> nat \<Rightarrow> bytes \<times> bytes \<Rightarrow> (conn_error, bytes \<times> bytes \<times> bytes) go" where
  "gun_Read rt n c = (if n = 0 then Ret ([], c) else gbind (ensureResponse rt) (\<lambda>_. buffered_read gun_next n c))"

definition gun_Write :: "(bytes \<Rightarrow> bool) \<Rightarrow> bytes \<Rightarrow> bytes \<Rightarrow> (conn_error, nat \<times> bytes) go" where
  "gun_Write wok p out =
     (if length p = 0 then Ret (0, out) else gbind (writeMessage wok p out) (\<lambda>out'. Ret (length p, out')))"

definition grpc_service_path :: "TransportOptions \<Rightarrow> string" where
  "grpc_service_path t =
     (let serviceName = TrimSpace (tr_ServiceName t);
          serviceName = (if serviceName = [] then ''GunService'' else serviceName) in
      if \<not> HasPrefix serviceName ''/'' then ''/'' @ serviceName else serviceName)"

section \<open>Lemmas\<close>

lemma PutUvarint_len: "x < 128 ^ k \<Longrightarrow> 0 < k \<Longrightarrow> 0 < length (PutUvarint x) \<and> length (PutUvarint x) \<le> k"
proof (induction x arbitrary: k rule: PutUvarint.induct)
  case (1 x)
  show ?case
  proof (cases "x < 128")
    case True
    with 1 show ?thesis by (subst (1 2) PutUvarint.simps) simp
  next
    case False
    with 1(2,3) obtain j where j: "k = Suc j" "0 < j" by (cases k; cases "k - 1") auto
    with 1(2) have "x div 128 < 128 ^ j" by (simp add: less_mult_imp_div_less mult.commute)
    from 1(1) [OF False this j(2)] j False show ?thesis by (subst (1 2) PutUvarint.simps) simp
  qed
qed

lemma uvarint_Put:
  "x < 128 ^ k \<Longrightarrow> 0 < k \<Longrightarrow> i + k \<le> 9 \<Longrightarrow>
   uvarint i acc (PutUvarint x @ rest) = Some (acc + x * 128 ^ i, i + length (PutUvarint x))"
proof (induction x arbitrary: i acc k rule: PutUvarint.induct)
  case (1 x)
  show ?case
  proof (cases "x < 128")
    case True
    then have "x mod 256 = x" by simp
    with True 1(3,4) show ?thesis by (subst (1 2) PutUvarint.simps) (simp add: word_less_nat_alt)
  next
    case False
    let ?b = "x mod 128 + 128"
    have b: "?b < 256" by (metis add_less_mono1 mod_less_divisor numeral_Bit0 zero_less_numeral)
    then have b': "?b mod 256 = ?b" by simp
    from False 1(2,3) obtain j where j: "k = Suc j" "0 < j" by (cases k; cases "k - 1") auto
    with 1(2) have "x div 128 < 128 ^ j" by (simp add: less_mult_imp_div_less mult.commute)
    from 1(1) [OF False this j(2), of "i + 1" "acc + x mod 128 * 128 ^ i"] 1(4) j
    have IH: "uvarint (i + 1) (acc + x mod 128 * 128 ^ i) (PutUvarint (x div 128) @ rest) =
        Some (acc + x mod 128 * 128 ^ i + x div 128 * 128 ^ (i + 1), i + 1 + length (PutUvarint (x div 128)))" by simp
    have "x * 128 ^ i = (x mod 128 + x div 128 * 128) * 128 ^ i" by (simp only: mod_div_mult_eq)
    also have "\<dots> = x mod 128 * 128 ^ i + x div 128 * 128 ^ (i + 1)"
      by (simp only: distrib_right distrib_left power_add power_one_right ac_simps)
    finally have e: "acc + x mod 128 * 128 ^ i + x div 128 * 128 ^ (i + 1) = acc + x * 128 ^ i" by simp
    define w where "w = (word_of_nat ?b :: u8)"
    have w: "unat w = ?b" unfolding w_def unat_word_of_nat_u8 by (rule b')
    have "uvarint i acc (w # PutUvarint (x div 128) @ rest) =
        uvarint (i + 1) (acc + x mod 128 * 128 ^ i) (PutUvarint (x div 128) @ rest)"
      using 1(3,4) w by (simp add: word_less_nat_alt)
    with IH e False show ?thesis by (subst (1 2) PutUvarint.simps) (simp add: w_def)
  qed
qed

definition gun_frame :: "bytes \<Rightarrow> bytes" where
  "gun_frame p = [0] @ put32 (1 + length (PutUvarint (length p)) + length p) @ [0x0A] @ PutUvarint (length p) @ p"

definition gun_fits :: "bytes \<Rightarrow> bool" where
  "gun_fits p \<longleftrightarrow> p \<noteq> [] \<and> 1 + length (PutUvarint (length p)) + length p \<le> 16777216"

lemma ReadFull_5: "length xs = 5 \<Longrightarrow> ReadFull 5 (xs @ rest) = Ret (xs, rest)"
  by (rule ReadFull_app_n) simp

lemma readMessage_frame:
  assumes "gun_fits p"
  shows "readMessage (gun_frame p @ rest) = Ret (p, rest)"
proof -
  let ?u = "PutUvarint (length p)"
  let ?m = "[0x0A] @ ?u @ p"
  have len: "length ?m \<le> 16777216" using assms by (simp add: gun_fits_def)
  have "length p < 128 ^ 9" using len by simp
  from uvarint_Put [OF this, of 0 0 p] have uv: "Uvarint (?u @ p) = Some (length p, length ?u)" by (simp add: Uvarint_def)
  have "length ?m mod 4294967296 = length ?m" using len by (intro mod_less) linarith
  moreover have "(u32_at ([0] @ put32 (length ?m)) 1 :: (conn_error, nat) go) = Ret (length ?m mod 4294967296)"
    using Uint32_put32 [of "length ?m" "[]"] by (simp add: u32_at_def slc_def)
  ultimately have l: "(u32_at ([0] @ put32 (length ?m)) 1 :: (conn_error, nat) go) = Ret (length ?m)" by simp
  have r: "ReadFull (length ?m) (?m @ rest) = Ret (?m, rest)" by (rule ReadFull_app)
  have h: "ReadFull 5 (([0] @ put32 (length ?m)) @ ?m @ rest) = Ret ([0] @ put32 (length ?m), ?m @ rest)"
    by (rule ReadFull_5) simp
  have f: "gun_frame p @ rest = ([0] @ put32 (length ?m)) @ ?m @ rest" by (simp add: gun_frame_def)
  show ?thesis unfolding f readMessage_def h gbind_simps prod.case l r
    using len uv by (simp add: slc_def)
qed

lemma Uvarint_bound: "uvarint i x bs = Some (v, n) \<Longrightarrow> n \<le> i + length bs"
  by (induction i x bs rule: uvarint.induct) (auto split: if_splits)

lemma readMessage_np [simp, np_rules]: "readMessage s \<noteq> Panic"
proof -
  have le: "n + d < length m" if "Uvarint (drop (Suc 0) m) = Some (d, n)" "\<not> length m - Suc n < d" "m \<noteq> []" for m d n
    using Uvarint_bound [of 0 0 "drop 1 m"] that by (cases m) (auto simp: Uvarint_def)
  show ?thesis
    by (auto simp: readMessage_def ReadFull_eq_Ret u_at_iffs not_less Suc_le_eq dest: le split: option.splits)
      (metis length_greater_0_conv)+
qed

inductive gun_carries :: "bytes \<Rightarrow> bytes list \<Rightarrow> bool" where
  nil: "gun_carries [] []"
| packet: "gun_fits p \<Longrightarrow> gun_carries s ps \<Longrightarrow> gun_carries (gun_frame p @ s) (p # ps)"

inductive_cases gun_carries_elims: "gun_carries s []" "gun_carries s (p # ps)"

lemma gun_next_frame: "gun_fits p \<Longrightarrow> gun_next (gun_frame p @ s) = Ret (p, s)"
  by (subst gun_next.simps) (simp add: readMessage_frame gun_fits_def)

interpretation gn: packet_link gun_next gun_carries gun_frame gun_fits
proof
  show "gun_carries s (p # ps) \<Longrightarrow> p \<noteq> [] \<and> (\<exists>s'. gun_next s = Ret (p, s') \<and> gun_carries s' ps)" for s p ps
    by (erule gun_carries_elims) (auto simp: gun_next_frame gun_fits_def)
  show "gun_carries s [] \<Longrightarrow> \<exists>e. gun_next s = Err e" for s
    by (erule gun_carries_elims) (subst gun_next.simps, simp add: readMessage_def)
  show "gun_carries [] []" by (rule gun_carries.nil)
  show "gun_fits p \<Longrightarrow> gun_carries s ps \<Longrightarrow> gun_carries (gun_frame p @ s) (p # ps)" for p s ps
    by (rule gun_carries.packet)
qed

lemma gun_Write_eq: "gun_fits p \<Longrightarrow> gun_Write accepts_all p out = Ret (length p, out @ gun_frame p)"
  by (simp add: gun_Write_def writeMessage_def gun_frame_def gun_fits_def accepts_all_def Let_def)

section \<open>Properties\<close>

text \<open>
  A Gun stream carries what is written: payloads whose message is at most 16 MiB are read
  back complete and in order, whatever the sizes of the read buffers, and one per read when
  these are large enough. Decoding arbitrary bytes never panics.
\<close>

theorem gun_roundtrip:
  assumes "list_all gun_fits ps"
  shows "\<exists>out. write_seq (gun_Write accepts_all) ps [] = Ret out \<and>
    (\<forall>ns. (\<forall>n\<in>set ns. 0 < n) \<and> length (concat ps) \<le> length ns \<longrightarrow> concat (reads gun_next ns ([], out)) = concat ps) \<and>
    (\<forall>n. (\<forall>p\<in>set ps. length p \<le> n) \<longrightarrow> reads gun_next (replicate (length ps) n) ([], out) = ps) \<and>
    readMessage s \<noteq> Panic"
proof -
  have w: "write_seq (gun_Write accepts_all) ps [] = Ret ([] @ concat (map gun_frame ps))"
    using assms by (intro write_seq_frames gun_Write_eq) (auto simp: list_all_iff)
  show ?thesis using w gn.link_bytes [OF assms] gn.link_packets [OF assms] by auto
qed

theorem gun_roundtrip_witness:
  "\<exists>out. write_seq (gun_Write accepts_all) [[1, 2], [3]] [] = Ret out \<and> concat (reads gun_next [1, 1, 1] ([], out)) = [1, 2, 3]"
proof -
  have "PutUvarint 2 = [2]" "PutUvarint 1 = [1]" by code_simp+
  then have "list_all gun_fits [[1, 2], [3 :: u8]]" by (simp add: gun_fits_def numeral_2_eq_2)
  from gun_roundtrip [OF this] obtain out where out:
    "write_seq (gun_Write accepts_all) [[1, 2], [3]] [] = Ret out"
    "\<forall>ns. (\<forall>n\<in>set ns. 0 < n) \<and> length (concat [[1, 2], [3 :: u8]]) \<le> length ns \<longrightarrow>
       concat (reads gun_next ns ([], out)) = concat [[1, 2], [3]]" by blast
  have "(\<forall>n\<in>set [1, 1, 1 :: nat]. 0 < n) \<and> length (concat [[1, 2], [3 :: u8]]) \<le> length [1, 1, 1 :: nat]" by simp
  from out(2) [THEN spec, THEN mp, OF this] out(1) show ?thesis by auto
qed

end
