(* ===== verification/WebSocket.thy ===== *)
theory WebSocket
  imports Trojan DNS_Wire
begin

text \<open>
  The WebSocket transport (\<^verbatim>\<open>protocol/transport_ws.go\<close>) and the dispatch over stream transports
  (\<^verbatim>\<open>protocol/transport.go\<close>): the client handshake checks, masked frames in both directions, control
  frames and the fragmentation state. \<open>sha1\<close> and \<open>base64\<close> are parameters; the random mask of a
  written frame is an argument.
\<close>

unbundle bit_operations_syntax

abbreviation wsContinuation :: u8 where "wsContinuation \<equiv> 0x0"
abbreviation wsText :: u8 where "wsText \<equiv> 0x1"
abbreviation wsBinary :: u8 where "wsBinary \<equiv> 0x2"
abbreviation wsClose :: u8 where "wsClose \<equiv> 0x8"
abbreviation wsPing :: u8 where "wsPing \<equiv> 0x9"
abbreviation wsPong :: u8 where "wsPong \<equiv> 0xA"

section \<open>Handshake\<close>

definition websocketGUID :: string where
  "websocketGUID = ''258EAFA5-E914-47DA-95CA-C5AB0DC85B11''"

definition websocketAccept :: "(bytes \<Rightarrow> bytes) \<Rightarrow> (bytes \<Rightarrow> string) \<Rightarrow> string \<Rightarrow> string" where
  "websocketAccept sha1 base64 key = base64 (sha1 (bytes_of_string (key @ websocketGUID)))"

text \<open>\<^verbatim>\<open>http.Header.Get\<close> on a header with canonical names: the first value or the empty string.\<close>

definition header_get :: "(string \<times> string) list \<Rightarrow> string \<Rightarrow> string" where
  "header_get h name = (case map_of h name of None \<Rightarrow> [] | Some v \<Rightarrow> v)"

definition headerContainsToken :: "(string \<times> string) list \<Rightarrow> string \<Rightarrow> string \<Rightarrow> bool" where
  "headerContainsToken h name token =
     list_ex (\<lambda>part. EqualFold (TrimSpace part) token) (Split (header_get h name) (CHR '',''))"

record ws_request =
  wr_path :: string
  wr_host :: string
  wr_key :: string

record ws_response =
  ws_status :: nat
  ws_header :: "(string \<times> string) list"

definition ws_request_of :: "TransportOptions \<Rightarrow> string \<Rightarrow> string \<Rightarrow> ws_request" where
  "ws_request_of t host key =
     (let path = (if tr_Path t = [] then ''/'' else tr_Path t);
          path = (if \<not> HasPrefix path ''/'' then ''/'' @ path else path) in
      \<lparr>wr_path = path, wr_host = (if tr_Host t = [] then host else tr_Host t), wr_key = key\<rparr>)"

text \<open>
  \<^verbatim>\<open>websocketDial\<close>: \<open>cancelled\<close> is the state of the context, \<open>key\<close> the encoded random key if it could
  be generated, \<open>exchange\<close> writes the request and reads the response.
\<close>

definition websocketDial ::
  "(bytes \<Rightarrow> bytes) \<Rightarrow> (bytes \<Rightarrow> string) \<Rightarrow> bool \<Rightarrow> string option \<Rightarrow> (ws_request \<Rightarrow> ws_response option) \<Rightarrow>
   TransportOptions \<Rightarrow> string \<Rightarrow> (conn_error, unit) go" where
  "websocketDial sha1 base64 cancelled key exchange t host =
     (if cancelled then Err (Refused ''context'')
      else case key of
        None \<Rightarrow> Err (Refused ''websocket: generate key'')
      | Some k \<Rightarrow>
          (case exchange (ws_request_of t host k) of
             None \<Rightarrow> Err (Refused ''websocket: exchange'')
           | Some resp \<Rightarrow>
               (if ws_status resp \<noteq> 101 then Err (Refused ''websocket: unexpected status'')
                else if \<not> headerContainsToken (ws_header resp) ''Upgrade'' ''websocket'' \<or>
                  \<not> headerContainsToken (ws_header resp) ''Connection'' ''Upgrade'' then
                  Err (Refused ''websocket: invalid upgrade headers'')
                else if \<not> EqualFold (header_get (ws_header resp) ''Sec-Websocket-Accept'') (websocketAccept sha1 base64 k) then
                  Err (Refused ''websocket: invalid sec-websocket-accept'')
                else Ret ())))"

section \<open>Frames\<close>

definition xor_mask :: "bytes \<Rightarrow> bytes \<Rightarrow> bytes" where
  "xor_mask mk p = map (\<lambda>i. p ! i XOR mk ! (i mod 4)) [0..<length p]"

definition put64 :: "nat \<Rightarrow> bytes" where
  "put64 n = map (\<lambda>i. word_of_nat (n div 256 ^ (7 - i))) [0..<8]"

definition be64 :: "bytes \<Rightarrow> nat" where
  "be64 b = foldl (\<lambda>acc x. acc * 256 + unat x) 0 b"

definition writeFrame :: "(bytes \<Rightarrow> bool) \<Rightarrow> bytes \<Rightarrow> u8 \<Rightarrow> bytes \<Rightarrow> bytes \<Rightarrow> (conn_error, bytes) go" where
  "writeFrame wok mk opcode payload out =
     (let len = length payload;
          header = [0x80 OR opcode] @
            (if len < 126 then [0x80 OR word_of_nat len]
             else if len \<le> 0xFFFF then (0x80 OR 126) # put16 len
             else (0x80 OR 127) # put64 len) @ mk in
      gbind (send wok [header] out) (\<lambda>out1.
        if len = 0 then Ret out1 else send wok [xor_mask mk payload] out1))"

text \<open>\<^verbatim>\<open>bufio.Reader.ReadByte\<close>.\<close>

definition ReadByte :: "bytes \<Rightarrow> (conn_error, u8 \<times> bytes) go" where
  "ReadByte s = (case s of [] \<Rightarrow> Err EOF | b # r \<Rightarrow> Ret (b, r))"

text \<open>\<^verbatim>\<open>readFrame\<close> in its four parts: the fragmentation state, the length, the payload, the frame.\<close>

definition ws_fragment :: "u8 \<Rightarrow> bool \<Rightarrow> bool \<Rightarrow> (conn_error, bool) go" where
  "ws_fragment opcode final fragmented =
     (if opcode = wsContinuation then
        (if \<not> fragmented then Err (Refused ''websocket: unexpected continuation'') else Ret (\<not> final))
      else if opcode = wsBinary \<or> opcode = wsText then
        (if fragmented then Err (Refused ''websocket: interleaved data message'') else Ret (\<not> final))
      else if \<not> final then Err (Refused ''websocket: fragmented control frame'')
      else Ret fragmented)"

definition ws_length :: "nat \<Rightarrow> bytes \<Rightarrow> (conn_error, nat \<times> bytes) go" where
  "ws_length len0 s =
     (if len0 = 126 then gbind (ReadFull 2 s) (\<lambda>(b, s'). gbind (Uint16 b) (\<lambda>n. Ret (n, s')))
      else if len0 = 127 then
        gbind (ReadFull 8 s) (\<lambda>(b, s').
          if 2 ^ 31 < be64 b then Err (Refused ''websocket: frame too large'') else Ret (be64 b, s'))
      else Ret (len0, s))"

definition ws_payload :: "bool \<Rightarrow> nat \<Rightarrow> bytes \<Rightarrow> (conn_error, bytes \<times> bytes) go" where
  "ws_payload masked len s =
     gbind (if masked then ReadFull 4 s else Ret ([0, 0, 0, 0], s)) (\<lambda>(mk, s1).
     gbind (if 0 < len then ReadFull len s1 else Ret ([], s1)) (\<lambda>(payload, s2).
       Ret (if masked then xor_mask mk payload else payload, s2)))"

definition readFrame :: "bool \<Rightarrow> bytes \<Rightarrow> (conn_error, u8 \<times> bytes \<times> bool \<times> bytes) go" where
  "readFrame fragmented s =
     gbind (ReadByte s) (\<lambda>(first, s1).
     let opcode = first AND 0x0F; final = (first AND 0x80 \<noteq> 0) in
     if first AND 0x70 \<noteq> 0 then Err (Refused ''websocket: unexpected extension bits'')
     else if 0x3 \<le> opcode \<and> opcode \<le> 0x7 \<or> wsPong < opcode then Err (Refused ''websocket: reserved opcode'')
     else
       gbind (ws_fragment opcode final fragmented) (\<lambda>fragmented'.
       gbind (ReadByte s1) (\<lambda>(second, s2).
       gbind (ws_length (unat (second AND 0x7F)) s2) (\<lambda>(len, s3).
       if 8 * 1024 * 1024 < len \<or> wsClose \<le> opcode \<and> 125 < len then Err (Refused ''websocket: frame too large'')
       else
         gbind (ws_payload (second AND 0x80 \<noteq> 0) len s3) (\<lambda>(payload, s4). Ret (opcode, payload, fragmented', s4))))))"

lemma ReadByte_eq_Ret: "ReadByte s = Ret (b, r) \<longleftrightarrow> s = b # r"
  by (auto simp: ReadByte_def split: list.splits)

lemma ReadByte_np [simp, np_rules]: "ReadByte s \<noteq> Panic"
  by (simp add: ReadByte_def split: list.splits)

lemma ws_length_le: "ws_length n s = Ret (len, s') \<Longrightarrow> length s' \<le> length s"
  by (auto simp: ws_length_def ReadFull_eq_Ret split: if_splits)

lemma ws_length_np [simp, np_rules]: "ws_length n s \<noteq> Panic"
  by (auto simp: ws_length_def ReadFull_eq_Ret Uint16_long)

lemma ws_payload_le: "ws_payload m n s = Ret (p, s') \<Longrightarrow> length s' \<le> length s"
  by (auto simp: ws_payload_def ReadFull_eq_Ret split: if_splits)

lemma ws_payload_np [simp, np_rules]: "ws_payload m n s \<noteq> Panic"
  by (simp add: ws_payload_def)

lemma ws_fragment_np [simp, np_rules]: "ws_fragment opc fin fr \<noteq> Panic"
  by (simp add: ws_fragment_def)

lemma readFrame_np [simp, np_rules]: "readFrame fr s \<noteq> Panic"
  by (auto simp: readFrame_def Let_def)

lemma readFrame_shrinks:
  assumes "readFrame fr s = Ret (opc, p, fr', s')"
  shows "length s' < length s"
proof -
  from assms obtain b1 s1 b2 s2 len s3 where
    r: "s = b1 # s1" "s1 = b2 # s2" "ws_length (unat (b2 AND 0x7F)) s2 = Ret (len, s3)"
      "ws_payload (b2 AND 0x80 \<noteq> 0) len s3 = Ret (p, s')"
    by (auto simp: readFrame_def Let_def ReadByte_eq_Ret simp del: neq0_conv split: if_splits)
  from ws_length_le [OF r(3)] ws_payload_le [OF r(4)] r(1,2) show ?thesis by simp
qed

section \<open>The connection\<close>

record ws_state =
  wst_fragmented :: bool
  wst_out :: bytes
  wst_in :: bytes

text \<open>
  The loop of \<^verbatim>\<open>Read\<close>: data frames deliver their payload, pings are answered with pongs, pongs are
  ignored, a close frame is answered and ends the stream. \<open>mk\<close> masks the control frames sent.
\<close>

function ws_next :: "(bytes \<Rightarrow> bool) \<Rightarrow> bytes \<Rightarrow> ws_state \<Rightarrow> (conn_error, bytes \<times> ws_state) go" where
  "ws_next wok mk w =
     gbind (readFrame (wst_fragmented w) (wst_in w)) (\<lambda>(opcode, payload, fr', s').
       let w' = w\<lparr>wst_fragmented := fr', wst_in := s'\<rparr> in
       if opcode = wsText \<or> opcode = wsBinary \<or> opcode = wsContinuation then
         (if length payload = 0 then ws_next wok mk w' else Ret (payload, w'))
       else if opcode = wsPing then
         gbind (writeFrame wok mk wsPong payload (wst_out w)) (\<lambda>out'. ws_next wok mk (w'\<lparr>wst_out := out'\<rparr>))
       else if opcode = wsPong then ws_next wok mk w'
       else Err EOF)"
  by auto
termination
  by (relation "measure (\<lambda>(wok, mk, w). length (wst_in w))") (auto dest: readFrame_shrinks)

declare ws_next.simps [simp del]

text \<open>
  \<^verbatim>\<open>Read\<close>: an error is remembered and returned by every later read, also when a packet is
  pending.
\<close>

record ws_conn =
  wc_closeErr :: "conn_error option"
  wc_pending :: bytes
  wc_state :: ws_state

definition ws_Read :: "(bytes \<Rightarrow> bool) \<Rightarrow> bytes \<Rightarrow> nat \<Rightarrow> ws_conn \<Rightarrow> (conn_error, bytes) go \<times> ws_conn" where
  "ws_Read wok mk n c =
     (if n = 0 then (Ret [], c)
      else case wc_closeErr c of
        Some e \<Rightarrow> (Err e, c)
      | None \<Rightarrow>
          (case buffered_read (ws_next wok mk) n (wc_pending c, wc_state c) of
             Ret (b, pending', st') \<Rightarrow> (Ret b, c\<lparr>wc_pending := pending', wc_state := st'\<rparr>)
           | Err e \<Rightarrow> (Err e, c\<lparr>wc_closeErr := Some e\<rparr>)
           | Panic \<Rightarrow> (Panic, c)))"

definition ws_Write :: "(bytes \<Rightarrow> bool) \<Rightarrow> bytes \<Rightarrow> bytes \<Rightarrow> bytes \<Rightarrow> (conn_error, nat \<times> bytes) go" where
  "ws_Write wok mk p out =
     (if length p = 0 then Ret (0, out) else gbind (writeFrame wok mk wsBinary p out) (\<lambda>out'. Ret (length p, out')))"

section \<open>Transport dispatch (transport.go)\<close>

datatype stream_kind = RawStream | WebSocketStream | GunStream

definition nextProtos :: "TransportOptions option \<Rightarrow> string list" where
  "nextProtos t =
     (case t of
        None \<Rightarrow> [''http/1.1'']
      | Some o' \<Rightarrow> if EqualFold (TrimSpace (tr_Type o')) ''grpc'' \<or> EqualFold (TrimSpace (tr_Type o')) ''gun'' then [''h2'']
               else [''http/1.1''])"

text \<open>\<open>dialTLS\<close>, \<open>wsDial\<close> and \<open>grpcOK\<close> say whether these dials succeed.\<close>

definition dialTransportConn ::
  "(string \<Rightarrow> nat \<Rightarrow> TLSOptions option \<Rightarrow> string list \<Rightarrow> bool) \<Rightarrow> (TransportOptions \<Rightarrow> string \<Rightarrow> (conn_error, unit) go) \<Rightarrow>
   (TransportOptions \<Rightarrow> bool) \<Rightarrow> string \<Rightarrow> nat \<Rightarrow> TLSOptions option \<Rightarrow> TransportOptions option \<Rightarrow> (conn_error, stream_kind) go" where
  "dialTransportConn dialTLS wsDial grpcOK host port tlsOpts transport =
     (if \<not> dialTLS host port tlsOpts (nextProtos transport) then
        Err (Refused (if (case tlsOpts of Some o' \<Rightarrow> t_Enabled o' | None \<Rightarrow> False) then ''TLS handshake'' else ''connect''))
      else case transport of
        None \<Rightarrow> Ret RawStream
      | Some t \<Rightarrow>
          (let kind = ToLower (TrimSpace (tr_Type t)) in
           if TrimSpace (tr_Type t) = [] then Ret RawStream
           else if kind = ''raw'' \<or> kind = ''tcp'' then Ret RawStream
           else if kind = ''ws'' \<or> kind = ''websocket'' then gbind (wsDial t host) (\<lambda>_. Ret WebSocketStream)
           else if kind = ''grpc'' \<or> kind = ''gun'' then (if grpcOK t then Ret GunStream else Err (Refused ''grpc: create request''))
           else Err (Refused ''transport not implemented'')))"

section \<open>Lemmas\<close>

lemma len_xor_mask [simp]: "length (xor_mask mk p) = length p"
  by (simp add: xor_mask_def)

lemma xor_mask_Nil [simp]: "xor_mask mk [] = []"
  by (simp add: xor_mask_def)

lemma xor_mask_inv [simp]: "xor_mask mk (xor_mask mk p) = p"
  by (rule nth_equalityI) (simp_all add: xor_mask_def xor.assoc)

lemma be64_snoc: "be64 (b @ [x]) = be64 b * 256 + unat x"
  by (simp add: be64_def)

lemma be_digits: "be64 (map (\<lambda>i. word_of_nat (n div 256 ^ (k - 1 - i))) [0..<k]) = n mod 256 ^ k"
proof (induction k arbitrary: n)
  case 0
  show ?case by (simp add: be64_def)
next
  case (Suc k)
  have eq: "map (\<lambda>i. word_of_nat (n div 256 ^ (Suc k - 1 - i)) :: u8) [0..<k] =
      map (\<lambda>i. word_of_nat (n div 256 div 256 ^ (k - 1 - i))) [0..<k]"
  proof (rule map_cong)
    fix i assume "i \<in> set [0..<k]"
    then have "Suc k - 1 - i = Suc (k - 1 - i)" by auto
    then show "(word_of_nat (n div 256 ^ (Suc k - 1 - i)) :: u8) = word_of_nat (n div 256 div 256 ^ (k - 1 - i))"
      by (simp add: div_mult2_eq)
  qed simp
  have "be64 (map (\<lambda>i. word_of_nat (n div 256 ^ (Suc k - 1 - i))) [0..<k]) = n div 256 mod 256 ^ k"
    unfolding eq by (rule Suc)
  then have "be64 (map (\<lambda>i. word_of_nat (n div 256 ^ (Suc k - 1 - i))) [0..<Suc k]) = n div 256 mod 256 ^ k * 256 + n mod 256"
    by (simp add: be64_snoc)
  also have "\<dots> = n mod (256 * 256 ^ k)" by (simp only: mod_mult2_eq mult.commute)
  finally show ?case by (simp only: power_Suc)
qed

lemma be64_put64: "n < 2 ^ 64 \<Longrightarrow> be64 (put64 n) = n"
  using be_digits [of n 8] by (simp add: put64_def)

lemma len_put64 [simp]: "length (put64 n) = 8"
  by (simp add: put64_def)

lemma not_bit_7: "w < 128 \<Longrightarrow> \<not> bit (w :: u8) 7"
proof -
  assume "w < 128"
  then have "drop_bit 7 w = 0" by (simp add: drop_bit_eq_div div_word_less)
  then show ?thesis by (simp add: bit_iff_odd_drop_bit)
qed

lemma or_80:
  assumes "n < 128"
  shows "unat ((0x80 OR word_of_nat n :: u8) AND 0x7F) = n" "(0x80 OR word_of_nat n :: u8) AND 0x80 \<noteq> 0"
proof -
  have n: "unat (word_of_nat n :: u8) = n" using assms by simp
  then have "(word_of_nat n :: u8) < 128" using assms by (simp add: word_less_nat_alt)
  note b7 = not_bit_7 [OF this]
  have "(0x80 OR word_of_nat n :: u8) AND 0x7F = word_of_nat n"
    by (rule bit_word_eqI, simp only: u8_len, drule lt8_cases, elim disjE)
      (use b7 in \<open>simp_all add: bit_or_iff bit_and_iff\<close>)
  with n show "unat ((0x80 OR word_of_nat n :: u8) AND 0x7F) = n" by simp
  have "bit ((0x80 OR word_of_nat n :: u8) AND 0x80) 7" by (simp add: bit_or_iff bit_and_iff)
  then show "(0x80 OR word_of_nat n :: u8) AND 0x80 \<noteq> 0" by (metis bit_0_eq bot_apply bot_bool_def)
qed

text \<open>The header of a frame of the given length, and what the reader makes of it.\<close>

definition ws_len_bytes :: "nat \<Rightarrow> bytes" where
  "ws_len_bytes len =
     (if len < 126 then [0x80 OR word_of_nat len] else if len \<le> 0xFFFF then (0x80 OR 126) # put16 len else (0x80 OR 127) # put64 len)"

definition ws_frame :: "bytes \<Rightarrow> u8 \<Rightarrow> bytes \<Rightarrow> bytes" where
  "ws_frame mk opcode p = [0x80 OR opcode] @ ws_len_bytes (length p) @ mk @ xor_mask mk p"

lemma writeFrame_eq: "writeFrame accepts_all mk opcode p out = Ret (out @ ws_frame mk opcode p)"
  by (auto simp: writeFrame_def ws_frame_def ws_len_bytes_def accepts_all_def Let_def xor_mask_def)

lemma ws_len_bytes_read:
  assumes "len \<le> 8388608"
  shows "\<exists>b r. ws_len_bytes len = b # r \<and> b AND 0x80 \<noteq> 0 \<and> ws_length (unat (b AND 0x7F)) (r @ rest) = Ret (len, rest)"
proof -
  consider "len < 126" | "126 \<le> len" "len \<le> 65535" | "65535 < len" by linarith
  then show ?thesis
  proof cases
    case 1
    with or_80 [of len] show ?thesis by (auto simp: ws_len_bytes_def ws_length_def)
  next
    case 2
    then have "len mod 65536 = len" by simp
    with 2 show ?thesis by (simp add: ws_len_bytes_def ws_length_def)
  next
    case 3
    have "be64 (put64 len) = len" using assms by (intro be64_put64) simp
    moreover have "ReadFull 8 (put64 len @ rest) = Ret (put64 len, rest)" by (rule ReadFull_app_n) simp
    ultimately show ?thesis using 3 assms by (simp add: ws_len_bytes_def ws_length_def)
  qed
qed

lemma ws_payload_masked: "length mk = 4 \<Longrightarrow> ws_payload True (length p) (mk @ xor_mask mk p @ rest) = Ret (p, rest)"
  using ReadFull_app_n [of 4 mk "xor_mask mk p @ rest"] ReadFull_app [of "xor_mask mk p" rest]
  by (auto simp: ws_payload_def)

definition ws_opcode :: "u8 \<Rightarrow> bool" where
  "ws_opcode opc \<longleftrightarrow> opc = wsText \<or> opc = wsBinary \<or> opc = wsClose \<or> opc = wsPing \<or> opc = wsPong"

lemma readFrame_frame:
  assumes "ws_opcode opc" "length mk = 4" "length p \<le> 8388608" "wsClose \<le> opc \<longrightarrow> length p \<le> 125"
    and "opc = wsText \<or> opc = wsBinary \<longrightarrow> \<not> fr"
  shows "readFrame fr (ws_frame mk opc p @ rest) = Ret (opc, p, fr, rest)"
proof -
  obtain b r where b: "ws_len_bytes (length p) = b # r" "b AND 0x80 \<noteq> 0"
    "ws_length (unat (b AND 0x7F)) (r @ mk @ xor_mask mk p @ rest) = Ret (length p, mk @ xor_mask mk p @ rest)"
    using ws_len_bytes_read [OF assms(3)] by blast
  have f: "ws_frame mk opc p @ rest = (0x80 OR opc) # b # r @ mk @ xor_mask mk p @ rest"
    by (simp add: ws_frame_def b(1))
  have o: "(0x80 OR opc) AND 0x0F = opc" "(0x80 OR opc) AND 0x80 \<noteq> 0" "(0x80 OR opc) AND 0x70 = 0"
    "\<not> (0x3 \<le> opc \<and> opc \<le> 0x7 \<or> wsPong < opc)"
    using assms(1) by (auto simp: ws_opcode_def word_le_nat_alt word_less_nat_alt)
  have g: "ws_fragment opc True fr = Ret fr"
    using assms(1,5) by (auto simp: ws_fragment_def ws_opcode_def)
  have "\<not> (8 * 1024 * 1024 < length p \<or> wsClose \<le> opc \<and> 125 < length p)" using assms(3,4) by auto
  with o g b(2,3) ws_payload_masked [OF assms(2), of p rest] show ?thesis
    unfolding f readFrame_def ReadByte_def by (simp add: Let_def)
qed

text \<open>
  What a server sends, item by item, and the bytes of it: data frames, pings and pongs, each
  with its own mask.
\<close>

datatype ws_item = WData bytes bytes | WPing bytes bytes | WPong bytes bytes

fun item_bytes :: "ws_item \<Rightarrow> bytes" where
  "item_bytes (WData mk p) = ws_frame mk wsBinary p"
| "item_bytes (WPing mk p) = ws_frame mk wsPing p"
| "item_bytes (WPong mk p) = ws_frame mk wsPong p"

fun item_ok :: "ws_item \<Rightarrow> bool" where
  "item_ok (WData mk p) \<longleftrightarrow> length mk = 4 \<and> p \<noteq> [] \<and> length p \<le> 8388608"
| "item_ok (WPing mk p) \<longleftrightarrow> length mk = 4 \<and> length p \<le> 125"
| "item_ok (WPong mk p) \<longleftrightarrow> length mk = 4 \<and> length p \<le> 125"

fun item_data :: "ws_item \<Rightarrow> bytes list" where
  "item_data (WData mk p) = [p]"
| "item_data _ = []"

definition ws_carries :: "ws_state \<Rightarrow> bytes list \<Rightarrow> bool" where
  "ws_carries w ps \<longleftrightarrow> (\<exists>xs. \<not> wst_fragmented w \<and> list_all item_ok xs \<and> wst_in w = concat (map item_bytes xs) \<and>
     ps = concat (map item_data xs))"

lemma ws_small: "length p \<le> 125 \<Longrightarrow> length p \<le> 8388608"
  by simp

lemma readFrame_item:
  assumes "item_ok x" "\<not> fr"
  shows "readFrame fr (item_bytes x @ rest) =
    (case x of WData mk p \<Rightarrow> Ret (wsBinary, p, fr, rest) | WPing mk p \<Rightarrow> Ret (wsPing, p, fr, rest) | WPong mk p \<Rightarrow> Ret (wsPong, p, fr, rest))"
  using assms by (cases x) (auto intro!: readFrame_frame ws_small simp: ws_opcode_def word_le_nat_alt)

fun ws_outcome :: "(conn_error, bytes \<times> ws_state) go \<Rightarrow> bytes list \<Rightarrow> bool" where
  "ws_outcome r [] \<longleftrightarrow> (\<exists>e. r = Err e)"
| "ws_outcome r (p # ps) \<longleftrightarrow> p \<noteq> [] \<and> (\<exists>w'. r = Ret (p, w') \<and> ws_carries w' ps)"

lemma ws_next_items:
  "\<not> wst_fragmented w \<Longrightarrow> list_all item_ok xs \<Longrightarrow> wst_in w = concat (map item_bytes xs) \<Longrightarrow>
   ws_outcome (ws_next accepts_all mk w) (concat (map item_data xs))"
proof (induction xs arbitrary: w)
  case Nil
  then show ?case by (subst ws_next.simps) (simp add: readFrame_def ReadByte_def)
next
  case (Cons x xs)
  let ?w = "w\<lparr>wst_in := concat (map item_bytes xs)\<rparr>"
  have fr: "\<not> wst_fragmented w" and ok: "item_ok x" "list_all item_ok xs" using Cons.prems by auto
  note rd = readFrame_item [OF ok(1) fr, of "concat (map item_bytes xs)"]
  have keep: "w\<lparr>wst_fragmented := wst_fragmented w, wst_in := concat (map item_bytes xs)\<rparr> = ?w" by simp
  show ?case
  proof (cases x)
    case (WData m p)
    then have "p \<noteq> []" "ws_next accepts_all mk w = Ret (p, ?w)"
      using rd ok(1) Cons.prems(3) keep by (auto simp: ws_next.simps [of _ _ w] Let_def)
    moreover have "ws_carries ?w (concat (map item_data xs))" using fr ok(2) unfolding ws_carries_def by auto
    ultimately show ?thesis using WData by simp
  next
    case (WPing m p)
    let ?v = "?w\<lparr>wst_out := wst_out w @ ws_frame mk wsPong p\<rparr>"
    have "ws_next accepts_all mk w = ws_next accepts_all mk ?v"
      using rd WPing Cons.prems(3) by (subst ws_next.simps) (simp add: Let_def writeFrame_eq)
    then show ?thesis using Cons.IH [of ?v] fr ok(2) WPing by simp
  next
    case (WPong m p)
    have "ws_next accepts_all mk w = ws_next accepts_all mk ?w"
      using rd WPong Cons.prems(3) by (subst ws_next.simps) (simp add: Let_def)
    then show ?thesis using Cons.IH [of ?w] fr ok(2) WPong by simp
  qed
qed

interpretation ws: packet_source "ws_next accepts_all mk" ws_carries for mk
proof
  show "ws_carries w (p # ps) \<Longrightarrow> p \<noteq> [] \<and> (\<exists>s'. ws_next accepts_all mk w = Ret (p, s') \<and> ws_carries s' ps)" for w p ps
    by (metis ws_carries_def ws_next_items ws_outcome.simps)
  show "ws_carries w [] \<Longrightarrow> \<exists>e. ws_next accepts_all mk w = Err e" for w
    by (metis ws_carries_def ws_next_items ws_outcome.simps)
qed

section \<open>Properties\<close>

text \<open>
  Every frame the client writes is read back by the frame reader, in each of the three
  length encodings and under every mask: the opcode, the payload and the fragmentation state
  come back, and the bytes after the frame are left. Arbitrary bytes never make the reader panic.
\<close>

lemma ws_frame_roundtrip:
  assumes "ws_opcode opc" "length mk = 4" "length p \<le> 8388608" "wsClose \<le> opc \<longrightarrow> length p \<le> 125"
    and "opc = wsText \<or> opc = wsBinary \<longrightarrow> \<not> fr"
  shows "\<exists>out. writeFrame accepts_all mk opc p [] = Ret out \<and> readFrame fr (out @ rest) = Ret (opc, p, fr, rest) \<and>
    readFrame fr other \<noteq> Panic"
  using readFrame_frame [OF assms, of rest] writeFrame_eq [of mk opc p "[]"] by simp



end
