(* ===== verification/Sniff.thy ===== *)
theory Sniff
  imports Framing
begin

text \<open>
  Recovering the server name of a TLS stream (\<^verbatim>\<open>route/sniff.go\<close>): the parser of the first
  ClientHello record. The input of \<open>SniffTLSHost\<close> is what arrives before the deadline; peeking
  does not consume it, so the wrapped connection replays all of it.
\<close>

definition be24 :: "u8 \<Rightarrow> u8 \<Rightarrow> u8 \<Rightarrow> nat" where
  "be24 a b c = (unat a * 256 + unat b) * 256 + unat c"

text \<open>
  The two loops of \<^verbatim>\<open>parseTLSClientHelloSNI\<close>: over the names of a server-name list (\<open>Some\<close> is the
  value the function returns, \<open>None\<close> that the list is exhausted), and over the extensions.
\<close>

function name_loop :: "bytes \<Rightarrow> nat \<Rightarrow> nat \<Rightarrow> (unit, string option) go" where
  "name_loop data lim pos =
     (if pos + 3 \<le> lim then
        gbind (idx data pos) (\<lambda>nameType.
        gbind (u16_at data (pos + 1)) (\<lambda>nameLength.
          if length data < pos + 3 + nameLength then Ret (Some [])
          else if nameType = 0 then
            gbind (slc data (pos + 3) (pos + 3 + nameLength)) (\<lambda>name.
              Ret (Some (ToLower (TrimSuffix (string_of_bytes name) ''.''))))
          else name_loop data lim (pos + 3 + nameLength)))
      else Ret None)"
  by auto
termination
  by (relation "measure (\<lambda>(data, lim, pos). lim - pos)") auto

declare name_loop.simps [simp del]

definition sni_extension :: "nat \<Rightarrow> bytes \<Rightarrow> (unit, string option) go" where
  "sni_extension extensionType data =
     (if extensionType = 0 \<and> 5 \<le> length data then
        gbind (u16_at data 0) (\<lambda>listLength.
          if listLength + 2 \<le> length data then name_loop data (listLength + 2) 2 else Ret None)
      else Ret None)"

function ext_loop :: "bytes \<Rightarrow> nat \<Rightarrow> nat \<Rightarrow> (unit, string) go" where
  "ext_loop body e offset =
     (if offset + 4 \<le> e then
        gbind (u16_at body offset) (\<lambda>extensionType.
        gbind (u16_at body (offset + 2)) (\<lambda>extensionLength.
          if e < offset + 4 + extensionLength then Ret []
          else
            gbind (slc body (offset + 4) (offset + 4 + extensionLength)) (\<lambda>data.
            gbind (sni_extension extensionType data) (\<lambda>res.
              case res of Some s \<Rightarrow> Ret s | None \<Rightarrow> ext_loop body e (offset + 4 + extensionLength)))))
      else Ret [])"
  by auto
termination
  by (relation "measure (\<lambda>(body, e, offset). e - offset)") auto

declare ext_loop.simps [simp del]

definition parseTLSClientHelloSNI :: "bytes \<Rightarrow> (unit, string) go" where
  "parseTLSClientHelloSNI record =
     (if length record < 4 then Ret []
      else gbind (idx record 0) (\<lambda>t. if t \<noteq> 1 then Ret []
      else
        gbind (idx record 1) (\<lambda>a. gbind (idx record 2) (\<lambda>b. gbind (idx record 3) (\<lambda>c.
        let handshakeLength = be24 a b c in
        if length record < handshakeLength + 4 then Ret []
        else
          gbind (slc record 4 (handshakeLength + 4)) (\<lambda>body.
          if length body < 35 then Ret []
          else
            gbind (idx body 34) (\<lambda>s0.
            let offset = 35; sessionLength = unat s0 in
            if length body < offset + sessionLength + 2 then Ret []
            else
              (let offset = offset + sessionLength in
               gbind (u16_at body offset) (\<lambda>cipherLength.
               let offset = offset + 2 in
               if length body < offset + cipherLength + 1 then Ret []
               else
                 (let offset = offset + cipherLength in
                  gbind (idx body offset) (\<lambda>c0.
                  let compressionLength = unat c0; offset = offset + 1 in
                  if length body < offset + compressionLength + 2 then Ret []
                  else
                    (let offset = offset + compressionLength in
                     gbind (u16_at body offset) (\<lambda>extensionsLength.
                     let offset = offset + 2; e = offset + extensionsLength in
                     if length body < e then Ret [] else ext_loop body e offset)))))))))))))"

definition maxClientHelloSize :: nat where
  "maxClientHelloSize = 64 * 1024"

definition SniffTLSHost :: "bytes \<Rightarrow> (unit, bytes \<times> string) go" where
  "SniffTLSHost input =
     (if length input < 5 then Ret (input, [])
      else
        gbind (idx input 0) (\<lambda>t. if t \<noteq> 22 then Ret (input, [])
        else
          gbind (u16_at input 3) (\<lambda>recordLength.
          if recordLength < 4 \<or> maxClientHelloSize < recordLength + 5 then Ret (input, [])
          else if length input < recordLength + 5 then Ret (input, [])
          else
            gbind (slc (take (recordLength + 5) input) 5 (recordLength + 5)) (\<lambda>record.
            gbind (parseTLSClientHelloSNI record) (\<lambda>host. Ret (input, host))))))"

section \<open>Parsing always returns\<close>

lemma name_loop_returns: "lim \<le> length data \<Longrightarrow> \<exists>x. name_loop data lim pos = Ret x"
proof (induction data lim pos rule: name_loop.induct)
  case (1 data lim pos)
  show ?case
  proof (cases "pos + 3 \<le> lim")
    case True
    with 1(2) have "pos + 3 \<le> length data" by simp
    with 1 True show ?thesis by (subst name_loop.simps) auto
  qed (subst name_loop.simps; simp)
qed

lemma sni_extension_returns: "\<exists>x. sni_extension t data = Ret x"
  by (auto simp: sni_extension_def name_loop_returns)

lemma ext_loop_returns: "e \<le> length body \<Longrightarrow> \<exists>x. ext_loop body e offset = Ret x"
proof (induction body e offset rule: ext_loop.induct)
  case (1 body e offset)
  show ?case
  proof (cases "offset + 4 \<le> e")
    case True
    let ?ty = "be16 (body ! offset) (body ! (offset + 1))"
    let ?len = "be16 (body ! (offset + 2)) (body ! (offset + 3))"
    have b: "(u16_at body offset :: (unit, nat) go) = Ret ?ty" "(u16_at body (offset + 2) :: (unit, nat) go) = Ret ?len"
      using True 1(2) by (simp_all add: numeral_3_eq_3)
    show ?thesis
    proof (cases "e < offset + 4 + ?len")
      case True
      then show ?thesis using b by (subst ext_loop.simps) simp
    next
      case False
      let ?data = "take ?len (drop (offset + 4) body)"
      have s: "(slc body (offset + 4) (offset + 4 + ?len) :: (unit, bytes) go) = Ret ?data" using False 1(2) by simp
      obtain x where x: "sni_extension ?ty ?data = Ret x" using sni_extension_returns by blast
      from 1(1) [OF True b False s x] 1(2) b s x show ?thesis
        by (cases x) (subst ext_loop.simps; simp del: u16_at_in slc_in)+
    qed
  qed (subst ext_loop.simps; simp)
qed

lemma parseTLSClientHelloSNI_returns: "\<exists>h. parseTLSClientHelloSNI r = Ret h"
  by (auto simp: parseTLSClientHelloSNI_def Let_def ext_loop_returns)

lemma SniffTLSHost_replays: "\<exists>host. SniffTLSHost input = Ret (input, host)"
proof (cases "length input < 5")
  case False
  then have i: "(idx input 0 :: (unit, u8) go) = Ret (input ! 0)" by (intro idx_in) auto
  obtain n where n: "(u16_at input 3 :: (unit, nat) go) = Ret n" using False by simp
  have "\<exists>h. gbind (parseTLSClientHelloSNI r) (\<lambda>host. Ret (input, host)) = Ret (input, h)" for r
    using parseTLSClientHelloSNI_returns [of r] by auto
  then show ?thesis using False by (simp add: SniffTLSHost_def i n del: u16_at_in gbind_eq_Ret)
qed (simp add: SniffTLSHost_def)

section \<open>Well-formed messages\<close>

text \<open>The TLS encoding of a ClientHello: the fields before the extensions are arbitrary vectors.\<close>

definition enc_ext :: "nat \<times> bytes \<Rightarrow> bytes" where
  "enc_ext x = put16 (fst x) @ put16 (length (snd x)) @ snd x"

definition enc_exts :: "(nat \<times> bytes) list \<Rightarrow> bytes" where
  "enc_exts xs = concat (map enc_ext xs)"

definition enc_hello :: "bytes \<Rightarrow> bytes \<Rightarrow> bytes \<Rightarrow> bytes \<Rightarrow> (nat \<times> bytes) list \<Rightarrow> bytes" where
  "enc_hello hdr session ciphers compressions xs =
     hdr @ [word_of_nat (length session)] @ session @ put16 (length ciphers) @ ciphers @
     [word_of_nat (length compressions)] @ compressions @ put16 (length (enc_exts xs)) @ enc_exts xs"

definition enc_handshake :: "bytes \<Rightarrow> bytes" where
  "enc_handshake body = [1, word_of_nat (length body div 65536), word_of_nat (length body div 256), word_of_nat (length body)] @ body"

definition enc_sni :: "string \<Rightarrow> bytes" where
  "enc_sni host = put16 (length host + 3) @ [0] @ put16 (length host) @ bytes_of_string host"

definition ext_ok :: "nat \<times> bytes \<Rightarrow> bool" where
  "ext_ok x \<longleftrightarrow> fst x < 65536 \<and> length (snd x) < 65536"

lemma be24_digits: "n < 16777216 \<Longrightarrow> be24 (word_of_nat (n div 65536)) (word_of_nat (n div 256)) (word_of_nat n) = n"
proof -
  assume n: "n < 16777216"
  have a: "n mod (256 * 65536) = 256 * (n div 256 mod 65536) + n mod 256" by (rule mod_mult2_eq)
  have b: "n div 256 mod (256 * 256) = 256 * (n div 256 div 256 mod 256) + n div 256 mod 256" by (rule mod_mult2_eq)
  from b n have e: "n div 256 = 256 * (n div 65536) + n div 256 mod 256" by (simp add: div_mult2_eq [symmetric])
  have f: "n = n div 256 * 256 + n mod 256" by simp
  have g: "n div 65536 < 256" using n by (simp add: less_mult_imp_div_less)
  have h: "n div 65536 * 256 + n div 256 mod 256 = n div 256" using e by (simp only: mult.commute)
  show ?thesis unfolding be24_def unat_word_of_nat_u8 mod_less [OF g] h by (rule f [symmetric])
qed

lemma u16_at_app: "i = length pre \<Longrightarrow> u16_at (pre @ put16 n @ rest) i = Ret (n mod 65536)"
  by (simp add: u16_at_def slc_def put16_def)

lemma slc_app: "i = length pre \<Longrightarrow> j = i + length xs \<Longrightarrow> slc (pre @ xs @ rest) i j = Ret xs"
  by (simp add: slc_def)

lemma idx_app: "i = length pre \<Longrightarrow> idx (pre @ x # rest) i = Ret x"
  by (simp add: idx_def)

lemma sni_extension_enc:
  assumes "length host + 5 < 65536" "host \<noteq> []"
  shows "sni_extension 0 (enc_sni host) = Ret (Some (ToLower (TrimSuffix host ''.'')))"
proof -
  let ?d = "enc_sni host"
  have len: "length ?d = length host + 5" by (simp add: enc_sni_def)
  have l: "(u16_at ?d 0 :: (unit, nat) go) = Ret (length host + 3)"
    using u16_at_app [of 0 "[]" "length host + 3"] assms by (simp add: enc_sni_def)
  have t: "(idx ?d 2 :: (unit, u8) go) = Ret 0" by (simp add: enc_sni_def idx_def nth_append)
  have n: "(u16_at ?d 3 :: (unit, nat) go) = Ret (length host)"
    using u16_at_app [of 3 "put16 (length host + 3) @ [0]" "length host" "bytes_of_string host"] assms by (simp add: enc_sni_def)
  have s: "(slc ?d 5 (5 + length host) :: (unit, bytes) go) = Ret (bytes_of_string host)"
    using slc_app [of 5 "put16 (length host + 3) @ [0] @ put16 (length host)" "5 + length host" "bytes_of_string host" "[]"]
    by (simp add: enc_sni_def bytes_of_string_def)
  have "name_loop ?d (5 + length host) 2 = Ret (Some (ToLower (TrimSuffix host ''.'')))"
    using t n s len by (subst name_loop.simps) (simp del: u16_at_in slc_in idx_in idx_eq_Ret slc_eq_Ret)
  with l len show ?thesis by (simp add: sni_extension_def)
qed

lemma ext_loop_enc:
  assumes "list_all ext_ok xs" "\<forall>x\<in>set xs. fst x \<noteq> 0 \<or> length (snd x) < 5"
    and "length host + 5 < 65536" "host \<noteq> []" "e = length pre + length (enc_exts (xs @ (0, enc_sni host) # ys))"
  shows "ext_loop (pre @ enc_exts (xs @ (0, enc_sni host) # ys) @ rest) e (length pre) = Ret (ToLower (TrimSuffix host ''.''))"
  using assms(1,2,5)
proof (induction xs arbitrary: pre)
  case Nil
  let ?d = "enc_sni host"
  let ?body = "pre @ put16 0 @ put16 (length ?d) @ ?d @ enc_exts ys @ rest"
  have len: "length ?d = length host + 5" by (simp add: enc_sni_def)
  have t: "(u16_at ?body (length pre) :: (unit, nat) go) = Ret 0" by (simp only: u16_at_app) simp
  have l: "(u16_at ?body (length pre + 2) :: (unit, nat) go) = Ret (length ?d)"
    using u16_at_app [of "length pre + 2" "pre @ put16 0" "length ?d"] assms(3) len by simp
  have s: "(slc ?body (length pre + 4) (length pre + 4 + length ?d) :: (unit, bytes) go) = Ret ?d"
    using slc_app [of "length pre + 4" "pre @ put16 0 @ put16 (length ?d)"] by simp
  have e: "e = length pre + 4 + length ?d + length (enc_exts ys)" using Nil by (simp add: enc_exts_def enc_ext_def)
  have "ext_loop ?body e (length pre) = Ret (ToLower (TrimSuffix host ''.''))"
    using t l s sni_extension_enc [OF assms(3,4)] e
    by (subst ext_loop.simps) (simp del: u16_at_in slc_in idx_in idx_eq_Ret slc_eq_Ret)
  then show ?case by (simp add: enc_exts_def enc_ext_def)
next
  case (Cons x xs)
  obtain ty d where x: "x = (ty, d)" by (cases x)
  have ok: "ty < 65536" "length d < 65536" "ty \<noteq> 0 \<or> length d < 5" using Cons.prems by (auto simp: x ext_ok_def)
  let ?tail = "enc_exts (xs @ (0, enc_sni host) # ys)"
  let ?pre = "pre @ put16 ty @ put16 (length d) @ d"
  let ?body = "pre @ put16 ty @ put16 (length d) @ d @ ?tail @ rest"
  have t: "(u16_at ?body (length pre) :: (unit, nat) go) = Ret ty" using ok by (simp only: u16_at_app) simp
  have l: "(u16_at ?body (length pre + 2) :: (unit, nat) go) = Ret (length d)"
    using u16_at_app [of "length pre + 2" "pre @ put16 ty" "length d"] ok by simp
  have s: "(slc ?body (length pre + 4) (length pre + 4 + length d) :: (unit, bytes) go) = Ret d"
    using slc_app [of "length pre + 4" "pre @ put16 ty @ put16 (length d)"] by simp
  have e: "e = length pre + 4 + length d + length ?tail" using Cons.prems by (simp add: enc_exts_def enc_ext_def x)
  have n: "sni_extension ty d = Ret None" using ok by (auto simp: sni_extension_def)
  have "ext_loop ?body e (length pre) = ext_loop ?body e (length pre + 4 + length d)"
    using t l s n e by (subst ext_loop.simps) (simp del: u16_at_in slc_in idx_in idx_eq_Ret slc_eq_Ret)
  also have "\<dots> = Ret (ToLower (TrimSuffix host ''.''))"
  proof -
    have lp: "length ?pre = length pre + 4 + length d" by simp
    have "e = length ?pre + length ?tail" unfolding lp by (rule e)
    with Cons.IH [of ?pre] Cons.prems(1,2)
    have "ext_loop (?pre @ ?tail @ rest) e (length ?pre) = Ret (ToLower (TrimSuffix host ''.''))" by simp
    then show ?thesis unfolding lp by (simp only: append_assoc)
  qed
  finally show ?case by (simp add: enc_exts_def enc_ext_def x)
qed

lemma parse_ClientHello_SNI:
  assumes "length hdr = 34" "length session \<le> 255" "length ciphers < 65536" "length compressions \<le> 255"
    and "list_all ext_ok xs" "\<forall>x\<in>set xs. fst x \<noteq> 0 \<or> length (snd x) < 5" "length host + 5 < 65536" "host \<noteq> []"
    and "length (enc_exts (xs @ (0, enc_sni host) # ys)) < 65536"
  shows "parseTLSClientHelloSNI (enc_handshake (enc_hello hdr session ciphers compressions (xs @ (0, enc_sni host) # ys)) @ rest)
    = Ret (ToLower (TrimSuffix host ''.''))"
proof -
  let ?exts = "enc_exts (xs @ (0, enc_sni host) # ys)"
  let ?body = "enc_hello hdr session ciphers compressions (xs @ (0, enc_sni host) # ys)"
  let ?rec = "enc_handshake ?body @ rest"
  let ?p1 = "hdr @ [word_of_nat (length session)] @ session"
  let ?p2 = "?p1 @ put16 (length ciphers) @ ciphers"
  let ?p3 = "?p2 @ [word_of_nat (length compressions)] @ compressions"
  have lb: "length ?body = 34 + 1 + length session + 2 + length ciphers + 1 + length compressions + 2 + length ?exts"
    using assms(1) by (simp add: enc_hello_def)
  have small: "length ?body < 16777216" unfolding lb using assms by linarith
  have h: "(idx ?rec 0 :: (unit, u8) go) = Ret 1" "4 \<le> length ?rec"
    by (simp_all add: enc_handshake_def idx_def)
  have l: "(idx ?rec 1 :: (unit, u8) go) = Ret (word_of_nat (length ?body div 65536))"
    "(idx ?rec 2 :: (unit, u8) go) = Ret (word_of_nat (length ?body div 256))"
    "(idx ?rec 3 :: (unit, u8) go) = Ret (word_of_nat (length ?body))"
    by (simp_all add: enc_handshake_def idx_def)
  have b: "(slc ?rec 4 (length ?body + 4) :: (unit, bytes) go) = Ret ?body" "length ?body + 4 \<le> length ?rec"
    by (simp_all add: enc_handshake_def slc_def)
  have s: "(idx ?body 34 :: (unit, u8) go) = Ret (word_of_nat (length session))"
    using idx_app [of 34 hdr] assms(1) by (simp add: enc_hello_def)
  have c: "(u16_at ?body (35 + length session) :: (unit, nat) go) = Ret (length ciphers)"
    using u16_at_app [of "35 + length session" ?p1 "length ciphers"] assms(1,3) by (simp add: enc_hello_def)
  have z: "(idx ?body (35 + length session + 2 + length ciphers) :: (unit, u8) go) = Ret (word_of_nat (length compressions))"
    using idx_app [of "35 + length session + 2 + length ciphers" ?p2] assms(1) by (simp add: enc_hello_def)
  have x: "(u16_at ?body (35 + length session + 2 + length ciphers + 1 + length compressions) :: (unit, nat) go) = Ret (length ?exts)"
    using u16_at_app [of "35 + length session + 2 + length ciphers + 1 + length compressions" ?p3 "length ?exts"] assms(1,9)
    by (simp add: enc_hello_def)
  have e: "ext_loop ?body (35 + length session + 2 + length ciphers + 1 + length compressions + 2 + length ?exts)
      (35 + length session + 2 + length ciphers + 1 + length compressions + 2) = Ret (ToLower (TrimSuffix host ''.''))"
    using ext_loop_enc [OF assms(5,6,7,8) refl, of "?p3 @ put16 (length ?exts)" ys "[]"] assms(1)
    by (simp add: enc_hello_def numeral_3_eq_3 numeral_2_eq_2)
  have m: "unat (word_of_nat (length session) :: u8) = length session" "unat (word_of_nat (length compressions) :: u8) = length compressions"
    using assms(2,4) by simp_all
  show ?thesis
    unfolding parseTLSClientHelloSNI_def h(1) l gbind_simps Let_def be24_digits [OF small] b(1) s c z x m e
    using h(2) b(2) lb e c z x by (simp del: u16_at_in slc_in idx_in idx_eq_Ret slc_eq_Ret)
qed

lemma SniffTLSHost_found:
  assumes "length hdr = 34" "length session \<le> 255" "length ciphers < 65536" "length compressions \<le> 255"
    and "list_all ext_ok xs" "\<forall>x\<in>set xs. fst x \<noteq> 0 \<or> length (snd x) < 5" "length host + 5 < 65536" "host \<noteq> []"
    and "length (enc_exts (xs @ (0, enc_sni host) # ys)) < 65536"
    and "hello = enc_handshake (enc_hello hdr session ciphers compressions (xs @ (0, enc_sni host) # ys))"
    and "length hello \<le> 65531"
  shows "SniffTLSHost ([22, v1, v2] @ put16 (length hello) @ hello @ more) =
      Ret ([22, v1, v2] @ put16 (length hello) @ hello @ more, ToLower (TrimSuffix host ''.''))"
proof -
  let ?in = "[22, v1, v2] @ put16 (length hello) @ hello @ more"
  have n: "(u16_at ?in 3 :: (unit, nat) go) = Ret (length hello)"
    using u16_at_app [of 3 "[22, v1, v2]" "length hello"] assms(11) by simp
  have i: "(idx ?in 0 :: (unit, u8) go) = Ret 22" by (simp add: idx_def)
  have t: "take (length hello + 5) ?in = [22, v1, v2] @ put16 (length hello) @ hello"
  proof -
    have "length hello + 5 = length ([22, v1, v2] @ put16 (length hello) @ hello)" by simp
    then show ?thesis using append_eq_conv_conj [of "[22, v1, v2] @ put16 (length hello) @ hello" more ?in] by (metis append_assoc)
  qed
  have r: "(slc (take (length hello + 5) ?in) 5 (length hello + 5) :: (unit, bytes) go) = Ret hello"
    unfolding t using slc_app [of 5 "[22, v1, v2] @ put16 (length hello)" "length hello + 5" hello "[]"] by simp
  have p: "parseTLSClientHelloSNI hello = Ret (ToLower (TrimSuffix host ''.''))"
    using parse_ClientHello_SNI [OF assms(1-9), of "[]"] assms(10) by simp
  have len: "4 \<le> length hello" using assms(10) by (simp add: enc_handshake_def)
  have c: "\<not> length ?in < 5" "\<not> length ?in < length hello + 5" "\<not> (length hello < 4 \<or> maxClientHelloSize < length hello + 5)"
    using assms(11) len by (simp_all add: maxClientHelloSize_def)
  show ?thesis
    unfolding SniffTLSHost_def i n gbind_simps r p using c by simp
qed

section \<open>Properties\<close>

text \<open>
  The name of a TLS stream is found where TLS puts it, and nothing is lost: for a stream
  that starts with a ClientHello record of at most 64 KiB, with any version, random, session,
  ciphers and compression methods, any extensions around a server-name extension for a host,
  sniffing returns that host in lower case without a trailing dot and a connection that replays
  every byte. Whatever else arrives, sniffing returns and replays every byte.
\<close>

theorem SniffTLSHost_finds:
  assumes "length hdr = 34" "length session \<le> 255" "length ciphers < 65536" "length compressions \<le> 255"
    and "list_all ext_ok xs" "\<forall>x\<in>set xs. fst x \<noteq> 0 \<or> length (snd x) < 5" "length host + 5 < 65536" "host \<noteq> []"
    and "length (enc_exts (xs @ (0, enc_sni host) # ys)) < 65536"
    and "hello = enc_handshake (enc_hello hdr session ciphers compressions (xs @ (0, enc_sni host) # ys))"
    and "length hello \<le> 65531"
  shows "SniffTLSHost ([22, v1, v2] @ put16 (length hello) @ hello @ more) =
      Ret ([22, v1, v2] @ put16 (length hello) @ hello @ more, ToLower (TrimSuffix host ''.'')) \<and>
    (\<exists>h. SniffTLSHost other = Ret (other, h))"
  using SniffTLSHost_found [OF assms] SniffTLSHost_replays by blast

theorem SniffTLSHost_finds_witness:
  "\<exists>input. SniffTLSHost input = Ret (input, ''a.example'')"
proof -
  let ?xs = "[(10, [1])]" and ?hello = "enc_handshake (enc_hello (replicate 34 7) [] [0x13, 1] [0] ([(10, [1])] @ (0, enc_sni ''A.example.'') # []))"
  have a: "length (replicate 34 (7 :: u8)) = 34" "length ([] :: bytes) \<le> 255" "length [0x13, 1 :: u8] < 65536" "length [0 :: u8] \<le> 255"
    "list_all ext_ok ?xs" "\<forall>x\<in>set ?xs. fst x \<noteq> 0 \<or> length (snd x) < 5" "length ''A.example.'' + 5 < 65536" "''A.example.'' \<noteq> []"
    by (simp_all add: ext_ok_def)
  have b: "length (enc_exts (?xs @ (0, enc_sni ''A.example.'') # [])) < 65536" "length ?hello \<le> 65531"
    by (simp_all add: enc_exts_def enc_ext_def enc_sni_def enc_handshake_def enc_hello_def)
  have "ToLower (TrimSuffix ''A.example.'' ''.'') = ''a.example''" by code_simp
  with SniffTLSHost_finds [OF a b(1) refl b(2), of 3 1 "[]" "[]"]
  have "SniffTLSHost ([22, 3, 1] @ put16 (length ?hello) @ ?hello @ []) = Ret ([22, 3, 1] @ put16 (length ?hello) @ ?hello @ [], ''a.example'')"
    by (simp only:)
  then show ?thesis by blast
qed

end
