(* ===== verification/DNS_Stream.thy ===== *)
theory DNS_Stream
  imports Router_Props Trojan
begin

text \<open>
  DNS over TCP (\<^verbatim>\<open>route/dns_stream.go\<close>): length-prefixed queries read from an intercepted stream,
  exchanged by the router and answered on the same stream. The world may differ for every query;
  \<open>wr\<close> is the writer of the connection, which reports an error or how many bytes it took.
\<close>

unbundle bit_operations_syntax

section \<open>Model\<close>

function writeAll :: "(bytes \<Rightarrow> unit + nat) \<Rightarrow> bytes \<Rightarrow> bytes \<Rightarrow> (conn_error, bytes) go" where
  "writeAll wr data out =
     (if 0 < length data then
        (case wr data of
           Inl _ \<Rightarrow> Err WriteFailed
         | Inr n \<Rightarrow>
             (if n = 0 then Err (Refused ''short write'')
              else if length data < n then Panic
              else writeAll wr (drop n data) (out @ take n data)))
      else Ret out)"
  by auto
termination
  by (relation "measure (\<lambda>(wr, data, out). length data)") auto

declare writeAll.simps [simp del]

text \<open>How the input ends: the peer closed, the connection was closed locally, or a read failed.\<close>

datatype stream_end = AtEOF | Closed | Broken

text \<open>\<^verbatim>\<open>isClosedStreamError\<close> of the error \<^verbatim>\<open>io.ReadFull\<close> reports when fewer bytes than wanted are left.\<close>

definition isClosedStreamError :: "stream_end \<Rightarrow> bytes \<Rightarrow> bool" where
  "isClosedStreamError e left \<longleftrightarrow> e = Closed \<or> (e = AtEOF \<and> left = [])"

datatype stream_error = ReadLength | EmptyQuery | ReadQuery | Exchange route_error | TooLong | WriteResponse

function ServeDNSStream ::
  "(nat \<Rightarrow> rworld) \<Rightarrow> router \<Rightarrow> (bytes \<Rightarrow> unit + nat) \<Rightarrow> stream_end \<Rightarrow> nat \<Rightarrow> bytes \<Rightarrow> dns_state \<Rightarrow> Traffic \<Rightarrow> bytes \<Rightarrow>
   (stream_error, unit) go \<times> dns_state \<times> Traffic \<times> bytes" where
  "ServeDNSStream w r wr e k input st tr out =
     (case ReadFull 2 input of
        Err _ \<Rightarrow> (if isClosedStreamError e input then Ret () else Err ReadLength, st, tr, out)
      | Panic \<Rightarrow> (Panic, st, tr, out)
      | Ret (lengthBytes, in1) \<Rightarrow>
          (case (Uint16 lengthBytes :: (conn_error, nat) go) of
             Ret queryLength \<Rightarrow>
               (if queryLength = 0 then (Err EmptyQuery, st, tr, out)
                else case ReadFull queryLength in1 of
                  Ret (query, in2) \<Rightarrow>
                    (case ExchangeDNS (w k) r query st of
                       (Err x, st') \<Rightarrow> (Err (Exchange x), st', tr, out)
                     | (Panic, st') \<Rightarrow> (Panic, st', tr, out)
                     | (Ret response, st') \<Rightarrow>
                         (if 65535 < length response then (Err TooLong, st', tr, out)
                          else case writeAll wr (put16 (length response) @ response) out of
                            Ret out' \<Rightarrow>
                              ServeDNSStream w r wr e (k + 1) in2 st'
                                (router_AddDownload (word_of_nat (length response + 2))
                                  (router_AddUpload (word_of_nat (queryLength + 2)) tr)) out'
                          | Err _ \<Rightarrow> (Err WriteResponse, st', tr, out)
                          | Panic \<Rightarrow> (Panic, st', tr, out)))
                | Err _ \<Rightarrow> (Err ReadQuery, st, tr, out)
                | Panic \<Rightarrow> (Panic, st, tr, out))
           | _ \<Rightarrow> (Panic, st, tr, out)))"
  by auto
termination
  by (relation "measure (\<lambda>(w, r, wr, e, k, input, st, tr, out). length input)") (auto simp: ReadFull_eq_Ret)

declare ServeDNSStream.simps [simp del]

section \<open>Lemmas\<close>

text \<open>The contract of \<^verbatim>\<open>io.Writer\<close> for a writer that does not fail.\<close>

definition writer_ok :: "(bytes \<Rightarrow> unit + nat) \<Rightarrow> bool" where
  "writer_ok wr \<longleftrightarrow> (\<forall>d. d \<noteq> [] \<longrightarrow> (\<exists>n. wr d = Inr n \<and> 0 < n \<and> n \<le> length d))"

lemma writeAll_complete: "writer_ok wr \<Longrightarrow> writeAll wr data out = Ret (out @ data)"
proof (induction wr data out rule: writeAll.induct)
  case (1 wr data out)
  show ?case
  proof (cases "data = []")
    case False
    with 1(2) obtain n where n: "wr data = Inr n" "0 < n" "n \<le> length data" by (auto simp: writer_ok_def)
    with 1(1) [of n] 1(2) False show ?thesis by (subst writeAll.simps) simp
  qed (subst writeAll.simps; simp)
qed

text \<open>The answers to a sequence of queries, each asked in the state the previous ones left.\<close>

fun exchange_all :: "(nat \<Rightarrow> rworld) \<Rightarrow> router \<Rightarrow> nat \<Rightarrow> bytes list \<Rightarrow> dns_state \<Rightarrow> (bytes list \<times> dns_state) option" where
  "exchange_all w r k [] st = Some ([], st)"
| "exchange_all w r k (q # qs) st =
     (case ExchangeDNS (w k) r q st of
        (Ret response, st') \<Rightarrow> map_option (\<lambda>(rs, st''). (response # rs, st'')) (exchange_all w r (k + 1) qs st')
      | _ \<Rightarrow> None)"

definition dns_frame :: "bytes \<Rightarrow> bytes" where
  "dns_frame p = put16 (length p) @ p"

text \<open>The bytes counted for frames with these payloads.\<close>

definition counted_bytes :: "bytes list \<Rightarrow> 64 word" where
  "counted_bytes ps = (\<Sum>p\<leftarrow>ps. word_of_nat (length p + 2))"

lemma counted_simps [simp]: "counted_bytes [] = 0" "counted_bytes (p # ps) = word_of_nat (length p + 2) + counted_bytes ps"
  by (simp_all add: counted_bytes_def)

lemma sint_small: "n < 2 ^ 63 \<Longrightarrow> sint (word_of_nat n :: 64 word) = int n"
  by (simp add: signed_of_nat signed_take_bit_int_eq_self)

lemma counts_positive:
  "length p \<le> 65535 \<Longrightarrow> router_AddUpload (word_of_nat (length p + 2)) tr = tr\<lparr>upload := upload tr + word_of_nat (length p + 2)\<rparr>"
  "length p \<le> 65535 \<Longrightarrow> router_AddDownload (word_of_nat (length p + 2)) tr = tr\<lparr>download := download tr + word_of_nat (length p + 2)\<rparr>"
  using sint_small [of "length p + 2"] by (simp_all add: router_AddUpload_def router_AddDownload_def AddUpload_def AddDownload_def)

lemma serve_frames:
  "writer_ok wr \<Longrightarrow> list_all packet_fits qs \<Longrightarrow> exchange_all w r k qs st = Some (rs, st') \<Longrightarrow> \<forall>x\<in>set rs. length x \<le> 65535 \<Longrightarrow>
   ServeDNSStream w r wr AtEOF k (concat (map dns_frame qs)) st tr out =
     (Ret (), st', tr\<lparr>upload := upload tr + counted_bytes qs, download := download tr + counted_bytes rs\<rparr>, out @ concat (map dns_frame rs))"
proof (induction qs arbitrary: k st rs tr out)
  case Nil
  then show ?case by (subst ServeDNSStream.simps) (simp add: isClosedStreamError_def)
next
  case (Cons q qs)
  from Cons.prems(3) obtain response st1 rs1 where x: "ExchangeDNS (w k) r q st = (Ret response, st1)"
    "exchange_all w r (k + 1) qs st1 = Some (rs1, st')" "rs = response # rs1"
    by (auto split: prod.splits go.splits)
  have q: "length q mod 65536 = length q" "0 < length q" "length q \<le> 65535" using Cons.prems(2) by (auto simp: packet_fits_def)
  have len: "length response \<le> 65535" using Cons.prems(4) x(3) by simp
  let ?tr = "tr\<lparr>upload := upload tr + word_of_nat (length q + 2), download := download tr + word_of_nat (length response + 2)\<rparr>"
  have "ServeDNSStream w r wr AtEOF k (dns_frame q @ concat (map dns_frame qs)) st tr out =
      ServeDNSStream w r wr AtEOF (k + 1) (concat (map dns_frame qs)) st1 ?tr (out @ dns_frame response)"
    using q len x(1) counts_positive(1) [OF q(3), of tr]
      counts_positive(2) [OF len, of "tr\<lparr>upload := upload tr + word_of_nat (length q + 2)\<rparr>"]
    by (subst ServeDNSStream.simps) (simp add: dns_frame_def writeAll_complete [OF Cons.prems(1)])
  also have "\<dots> = (Ret (), st', ?tr\<lparr>upload := upload ?tr + counted_bytes qs, download := download ?tr + counted_bytes rs1\<rparr>,
      (out @ dns_frame response) @ concat (map dns_frame rs1))"
    using Cons.IH [OF Cons.prems(1) _ x(2)] Cons.prems(2,4) x(3) by simp
  finally show ?case by (cases tr) (simp add: x(3) add.assoc)
qed

lemma writeAll_np: "\<forall>d n. wr d = Inr n \<longrightarrow> n \<le> length d \<Longrightarrow> writeAll wr data out \<noteq> Panic"
proof (induction wr data out rule: writeAll.induct)
  case (1 wr data out)
  then show ?case by (subst writeAll.simps) (auto split: sum.splits simp: leD)
qed

lemma serve_safe:
  "dns_reachable st \<Longrightarrow> \<forall>d n. wr d = Inr n \<longrightarrow> n \<le> length d \<Longrightarrow>
   fst (ServeDNSStream w r wr e k input st tr out) \<noteq> Panic \<and> dns_reachable (fst (snd (ServeDNSStream w r wr e k input st tr out)))"
proof (induction w r wr e k input st tr out rule: ServeDNSStream.induct)
  case (1 w r wr e k input st tr out)
  show ?case
  proof (cases "\<exists>lb in1 q in2. ReadFull 2 input = Ret (lb, in1) \<and> ReadFull (be16 (lb ! 0) (lb ! 1)) in1 = Ret (q, in2) \<and> be16 (lb ! 0) (lb ! 1) \<noteq> 0")
    case False
    then show ?thesis using 1(2)
      by (subst (1 2) ServeDNSStream.simps) (auto split: go.split simp: ReadFull_eq_Ret Uint16_long)
  next
    case True
    then obtain lb in1 q in2 where rd: "ReadFull 2 input = Ret (lb, in1)" "ReadFull (be16 (lb ! 0) (lb ! 1)) in1 = Ret (q, in2)"
      "be16 (lb ! 0) (lb ! 1) \<noteq> 0" by blast
    then have u: "(Uint16 lb :: (conn_error, nat) go) = Ret (be16 (lb ! 0) (lb ! 1))" by (intro Uint16_long) (simp add: ReadFull_eq_Ret)
    obtain x st' where x: "ExchangeDNS (w k) r q st = (x, st')" by fastforce
    note s = dns_safeD [OF ExchangeDNS_safe 1(2) x]
    show ?thesis
    proof (cases x)
      case (Ret resp)
      with 1(1) [OF rd(1) _ _ rd(3) rd(2)] 1(3) s writeAll_np [OF 1(3)] rd u x show ?thesis
        by (subst (1 2) ServeDNSStream.simps) (auto split: go.split)
    qed (use rd u x s in \<open>subst (1 2) ServeDNSStream.simps; simp\<close>)+
  qed
qed

section \<open>Properties\<close>

text \<open>
  An intercepted DNS stream answers every query in order: if the client sends well-framed
  queries and closes, the router answers each of them with a message that fits its length prefix
  and the connection accepts writes in whatever pieces, then the client receives exactly the
  framed answers in the order of the queries, the service ends without error and both directions
  are counted with their frames.
\<close>

theorem ServeDNSStream_answers:
  assumes "writer_ok wr" "list_all packet_fits qs" "exchange_all w r 0 qs st = Some (rs, st')" "\<forall>x\<in>set rs. length x \<le> 65535"
  shows "ServeDNSStream w r wr AtEOF 0 (concat (map dns_frame qs)) st tr [] =
    (Ret (), st', tr\<lparr>upload := upload tr + counted_bytes qs, download := download tr + counted_bytes rs\<rparr>, concat (map dns_frame rs))"
  using serve_frames [OF assms, of tr "[]"] by simp

lemma plain_rejects:
  "\<exists>resp. ExchangeDNS world_example router_plain (buildDNSQuery ''ads.com'' 1) new_dns_state = (Ret resp, new_dns_state) \<and> length resp = 25"
proof -
  let ?q = "buildDNSQuery ''ads.com'' 1"
  have "dnsQuestion ?q = Ret (''ads.com'', 1)" by code_simp
  moreover have "reject_loop router_plain ''ads.com'' (rt_rules router_plain)" by code_simp
  ultimately have "rejectDNSQuestion router_plain ?q = Ret True" by (simp add: rejectDNSQuestion_def)
  moreover have "doh_enabled router_plain" by (simp add: doh_enabled_def router_plain_def)
  moreover have len: "length ?q = 25" by code_simp
  then have "12 \<le> length ?q" by simp
  note dnsErrorResponse_eq [OF this, of 3]
  ultimately have "ExchangeDNS world_example router_plain ?q new_dns_state =
      (Ret (take 2 ?q @ [0x80 OR (?q ! 2 AND 0x01), 0x80 OR (?q ! 3 AND 0x10) OR (ucast (3 :: u16) AND 0x0F)]
         @ take 2 (drop 4 ?q) @ [0, 0, 0, 0] @ drop 10 ?q), new_dns_state)" by (simp add: ExchangeDNS_def)
  then show ?thesis using len by simp
qed

theorem ServeDNSStream_answers_witness:
  "\<exists>rs. length (concat (map dns_frame rs)) = 27 \<and>
    snd (snd (snd (ServeDNSStream (\<lambda>_. world_example) router_plain (\<lambda>d. Inr 1) AtEOF 0 (dns_frame (buildDNSQuery ''ads.com'' 1))
      new_dns_state \<lparr>upload = 0, download = 0\<rparr> []))) = concat (map dns_frame rs)"
proof -
  let ?q = "buildDNSQuery ''ads.com'' 1"
  obtain resp where resp: "ExchangeDNS world_example router_plain ?q new_dns_state = (Ret resp, new_dns_state)" "length resp = 25"
    using plain_rejects by blast
  have w: "writer_ok (\<lambda>d. Inr 1)" by (auto simp: writer_ok_def Suc_le_eq)
  have "length ?q = 25" by code_simp
  then have f: "list_all packet_fits [?q]" by (auto simp: packet_fits_def)
  have x: "exchange_all (\<lambda>_. world_example) router_plain 0 [?q] new_dns_state = Some ([resp], new_dns_state)" using resp by simp
  from ServeDNSStream_answers [OF w f x, of "\<lparr>upload = 0, download = 0\<rparr>"] resp(2) show ?thesis
    by (intro exI [of _ "[resp]"]) (simp add: dns_frame_def)
qed

end
