(* ===== verification/Config_Validate.thy ===== *)
theory Config_Validate
  imports Model Json
begin

text \<open>
  Validation of a runtime configuration (\<^verbatim>\<open>config/loader.go\<close>). \<open>Validate\<close> returns the configuration
  with its defaults filled in, as the code writes them into the argument. \<open>uriScheme\<close> stands for
  \<^verbatim>\<open>url.ParseRequestURI\<close>: the scheme of a valid request URI.
\<close>

section \<open>Model\<close>

datatype config_error = Invalid string

text \<open>A loop that checks every element and carries a value.\<close>

fun check_all :: "('a \<Rightarrow> 's \<Rightarrow> (config_error, 's) go) \<Rightarrow> 'a list \<Rightarrow> 's \<Rightarrow> (config_error, 's) go" where
  "check_all f [] s = Ret s"
| "check_all f (x # xs) s = gbind (f x s) (check_all f xs)"

definition need :: "bool \<Rightarrow> string \<Rightarrow> (config_error, unit) go" where
  "need ok message = (if ok then Ret () else Err (Invalid message))"

definition isLoopbackHost :: "string \<Rightarrow> bool" where
  "isLoopbackHost host0 =
     (let host = TrimSpace host0 in
      EqualFold host ''localhost'' \<or> (case ParseIP host of None \<Rightarrow> False | Some a \<Rightarrow> ip_IsLoopback a))"

definition inbound_address :: "InboundConfig \<Rightarrow> string" where
  "inbound_address i = JoinHostPort (if i_Listen i = [] then ''127.0.0.1'' else i_Listen i) (Itoa (i_Port i))"

text \<open>The loop over the inbounds: whether one is active and the addresses listened on.\<close>

definition validate_inbound :: "DNSOptions \<Rightarrow> InboundConfig \<Rightarrow> bool \<times> string list \<Rightarrow> (config_error, bool \<times> string list) go" where
  "validate_inbound dns i s =
     (case s of (active, addresses) \<Rightarrow>
       if i_Type i \<in> {''mixed'', ''socks'', ''http''} then
         gbind (need (i_Port i \<noteq> 0) ''inbound port'') (\<lambda>_.
         gbind (need (inbound_address i \<notin> set addresses) ''duplicate inbound listen address'') (\<lambda>_.
           Ret (True, inbound_address i # addresses)))
       else if i_Type i = ''tun'' then
         gbind (need (0 \<le> i_TUNMTU i \<and> i_TUNMTU i \<le> 65535) ''invalid TUN MTU'') (\<lambda>_.
         gbind (need (\<not> (i_TUNAutoRoute i \<and> (dns_Mode dns \<noteq> ''doh'' \<or> TrimSpace (dns_Server dns) = [])))
             ''auto-route TUN requires encrypted DNS'') (\<lambda>_.
           Ret (True, addresses)))
       else Err (Invalid ''inbound type is not implemented''))"

definition validate_dns :: "DNSOptions \<Rightarrow> (config_error, unit) go" where
  "validate_dns dns =
     gbind (need (dns_FakeIP dns = []) ''DNS fakeip is not implemented'') (\<lambda>_.
     gbind (need (dns_Mode dns \<in> {[], ''local'', ''doh''}) ''DNS mode is not implemented'') (\<lambda>_.
     gbind (need (dns_Mode dns = ''doh'' \<longrightarrow> TrimSpace (dns_Server dns) \<noteq> []) ''DNS mode doh requires a server'') (\<lambda>_.
     need (dns_Strategy dns \<in> {[], ''prefer_ipv4'', ''prefer_ipv6'', ''ipv4_only'', ''ipv6_only''}) ''DNS strategy is not implemented'')))"

definition validate_reality :: "TLSOptions option \<Rightarrow> (config_error, unit) go" where
  "validate_reality tls =
     (case tls of
        None \<Rightarrow> Ret ()
      | Some t \<Rightarrow>
          (case t_Reality t of
             None \<Rightarrow> Ret ()
           | Some re \<Rightarrow>
               (if re_Enabled re then
                  gbind (need (TrimSpace (re_PublicKey re) \<noteq> []) ''REALITY public key is required'') (\<lambda>_.
                  need (TrimSpace (t_ServerName t) \<noteq> []) ''REALITY server name is required'')
                else Ret ())))"

definition validate_transport :: "TransportOptions option \<Rightarrow> (config_error, unit) go" where
  "validate_transport t =
     (case t of
        None \<Rightarrow> Ret ()
      | Some o' \<Rightarrow> need (ToLower (TrimSpace (tr_Type o')) \<in> {[], ''raw'', ''tcp'', ''ws'', ''websocket'', ''grpc'', ''gun''})
          ''transport is not implemented'')"

definition validate_node :: "Node \<Rightarrow> string list \<Rightarrow> (config_error, string list) go" where
  "validate_node node known =
     gbind (need (n_ID node \<noteq> []) ''node id is required'') (\<lambda>_.
     gbind (need (n_ID node \<notin> set known) ''duplicate outbound id'') (\<lambda>_.
     gbind (need (n_Type node \<in> {''vless'', ''trojan'', ''hysteria2'', ''tuic''}) ''protocol is not implemented'') (\<lambda>_.
     gbind (need (TrimSpace (n_Server node) \<noteq> []) ''server is required'') (\<lambda>_.
     gbind (need (n_Port node \<noteq> 0) ''server port'') (\<lambda>_.
     gbind (validate_reality (n_TLS node)) (\<lambda>_.
     gbind (validate_transport (n_Transport node)) (\<lambda>_.
       Ret (n_ID node # known))))))))"

definition validate_group_id :: "GroupConfig \<Rightarrow> string list \<Rightarrow> (config_error, string list) go" where
  "validate_group_id grp known =
     gbind (need (g_ID grp \<noteq> []) ''group id is required'') (\<lambda>_.
     gbind (need (g_ID grp \<notin> set known) ''duplicate outbound id'') (\<lambda>_.
       Ret (g_ID grp # known)))"

definition validate_ruleset :: "(string \<Rightarrow> string option) \<Rightarrow> string list \<Rightarrow> RulesetConfig \<Rightarrow> string list \<Rightarrow> (config_error, string list) go" where
  "validate_ruleset uriScheme known rs ids =
     gbind (need (rs_ID rs \<noteq> []) ''remote rule set id is required'') (\<lambda>_.
     gbind (need (rs_ID rs \<notin> set ids) ''duplicate rule set id'') (\<lambda>_.
     gbind (need (rs_Type rs \<in> {[], ''remote''}) ''rule set type is not implemented'') (\<lambda>_.
     gbind (need (rs_Format rs \<in> {[], ''source'', ''binary''}) ''rule set format is not implemented'') (\<lambda>_.
     gbind (need (uriScheme (rs_URL rs) \<in> {Some ''http'', Some ''https''}) ''invalid HTTP(S) URL'') (\<lambda>_.
     gbind (need (rs_DownloadDetour rs = [] \<or> rs_DownloadDetour rs \<in> set known) ''download detour references unknown outbound'') (\<lambda>_.
     gbind (need (0 \<le> rs_UpdateInterval rs) ''update interval cannot be negative'') (\<lambda>_.
       Ret (rs_ID rs # ids))))))))"

definition contains :: "string list \<Rightarrow> string \<Rightarrow> bool" where
  "contains values' target' = list_ex (\<lambda>v. v = target') values'"

definition validate_group :: "string list \<Rightarrow> GroupConfig \<Rightarrow> unit \<Rightarrow> (config_error, unit) go" where
  "validate_group known grp u =
     gbind (need (g_Type grp \<in> {''select'', ''selector'', ''urltest'', ''url-test''}) ''group type is not implemented'') (\<lambda>_.
     gbind (need (length (g_Members grp) \<noteq> 0) ''group has no members'') (\<lambda>_.
     gbind (check_all (\<lambda>m _. need (m \<in> set known \<and> m \<noteq> g_ID grp) ''invalid member'') (g_Members grp) ()) (\<lambda>_.
     need (g_Default grp = [] \<or> contains (g_Members grp) (g_Default grp)) ''default is not a member'')))"

definition validate_rule :: "string list \<Rightarrow> string list \<Rightarrow> Rule \<Rightarrow> unit \<Rightarrow> (config_error, unit) go" where
  "validate_rule known ruleSetIDs rule u =
     gbind (need (length (m_ProcessName (r_Match rule)) = 0) ''process matching is not implemented'') (\<lambda>_.
     gbind (need (\<not> (r_Action rule = ActionRoute \<and> r_Target rule \<noteq> [] \<and> r_Target rule \<notin> set known))
         ''rule references unknown outbound'') (\<lambda>_.
     check_all (\<lambda>i _. need (i \<in> set ruleSetIDs) ''rule references unknown rule set'') (m_RuleSet (r_Match rule)) ()))"

definition validate_api :: "string list \<Rightarrow> string \<Rightarrow> (config_error, unit) go" where
  "validate_api addresses listen =
     (case SplitHostPort listen of
        None \<Rightarrow> Err (Invalid ''invalid API listen address'')
      | Some (host, _) \<Rightarrow>
          gbind (need (isLoopbackHost host) ''API listen address must use loopback'') (\<lambda>_.
          need (listen \<notin> set addresses) ''API listen address conflicts with inbound''))"

definition set_defaults :: "Config \<Rightarrow> Config" where
  "set_defaults cfg =
     cfg\<lparr>cfg_Final := (if cfg_Final cfg = [] then ''direct'' else cfg_Final cfg),
         cfg_API := (cfg_API cfg)\<lparr>api_Listen := (if api_Listen (cfg_API cfg) = [] then ''127.0.0.1:9090'' else api_Listen (cfg_API cfg))\<rparr>\<rparr>"

definition Validate :: "(string \<Rightarrow> string option) \<Rightarrow> Config \<Rightarrow> (config_error, Config) go" where
  "Validate uriScheme cfg =
     gbind (need (length (cfg_Inbounds cfg) \<noteq> 0) ''at least one inbound is required'') (\<lambda>_.
     gbind (need (\<not> c_TUN (cfg_Core cfg)) ''core.tun is deprecated'') (\<lambda>_.
     gbind (check_all (validate_inbound (cfg_DNS cfg)) (cfg_Inbounds cfg) (False, [])) (\<lambda>(active, addresses).
     gbind (need active ''at least one supported proxy inbound is required'') (\<lambda>_.
     gbind (validate_dns (cfg_DNS cfg)) (\<lambda>_.
     gbind (need (length (cfg_Providers cfg) = 0) ''providers are not implemented'') (\<lambda>_.
     gbind (check_all validate_node (cfg_Nodes cfg) [''direct'']) (\<lambda>known1.
     gbind (check_all validate_group_id (cfg_Groups cfg) known1) (\<lambda>known.
     gbind (check_all (validate_ruleset uriScheme known) (cfg_Rulesets cfg) []) (\<lambda>ruleSetIDs.
     gbind (need (dns_Detour (cfg_DNS cfg) = [] \<or> dns_Detour (cfg_DNS cfg) \<in> set known) ''DNS detour references unknown outbound'') (\<lambda>_.
     gbind (check_all (validate_group known) (cfg_Groups cfg) ()) (\<lambda>_.
     gbind (need (cfg_Final (set_defaults cfg) \<in> set known) ''route final references unknown outbound'') (\<lambda>_.
     gbind (check_all (validate_rule known ruleSetIDs) (cfg_Rules cfg) ()) (\<lambda>_.
     gbind (validate_api addresses (api_Listen (cfg_API (set_defaults cfg)))) (\<lambda>_.
       Ret (set_defaults cfg)))))))))))))))"

text \<open>
  \<^verbatim>\<open>FromBytes\<close> and \<^verbatim>\<open>Load\<close>: \<open>document\<close> is the decoded top-level object, \<open>imported\<close> the result of the
  importer on it and \<open>native\<close> the decoding into the configuration type; \<open>dir\<close> is the default cache
  directory beside the file.
\<close>

definition FromBytes ::
  "(string \<times> json) list option \<Rightarrow> ((string \<times> json) list \<Rightarrow> (config_error, Config) go) \<Rightarrow> Config option \<Rightarrow> (config_error, Config) go" where
  "FromBytes document importer native =
     (case document of
        None \<Rightarrow> Err (Invalid ''decode config'')
      | Some raw \<Rightarrow>
          (if map_of raw ''outbounds'' \<noteq> None \<and> map_of raw ''inbounds'' \<noteq> None then importer raw
           else case native of None \<Rightarrow> Err (Invalid ''decode hongda config'') | Some cfg \<Rightarrow> Ret cfg))"

definition Load_config ::
  "(string \<Rightarrow> string option) \<Rightarrow> string \<Rightarrow> (string \<times> json) list option \<Rightarrow> ((string \<times> json) list \<Rightarrow> (config_error, Config) go) \<Rightarrow>
   Config option \<Rightarrow> (config_error, Config) go" where
  "Load_config uriScheme dir document importer native =
     gbind (FromBytes document importer native) (\<lambda>cfg.
       Validate uriScheme (if c_CacheDir (cfg_Core cfg) = [] then cfg\<lparr>cfg_Core := (cfg_Core cfg)\<lparr>c_CacheDir := dir\<rparr>\<rparr> else cfg))"

section \<open>Lemmas\<close>

lemma need_Ret [simp]: "need ok message = Ret u \<longleftrightarrow> ok"
  by (simp add: need_def)

lemma need_np [simp]: "need ok message \<noteq> Panic"
  by (simp add: need_def)

lemma check_all_np: "(\<And>x s. f x s \<noteq> Panic) \<Longrightarrow> check_all f xs s \<noteq> Panic"
  by (induction xs arbitrary: s) auto

lemma check_all_unit: "check_all (\<lambda>x _. f x) xs () = Ret () \<longleftrightarrow> (\<forall>x\<in>set xs. f x = Ret ())"
  by (induction xs) auto

lemma check_all_each: "check_all f xs () = Ret () \<Longrightarrow> x \<in> set xs \<Longrightarrow> f x () = Ret ()"
  by (induction xs) auto

text \<open>A loop that rejects seen keys: the keys are new and different, and end up in the result.\<close>

lemma check_all_keys:
  assumes step: "\<And>x s s'. f x s = Ret s' \<Longrightarrow> s' = key x # s \<and> key x \<notin> set s \<and> P x"
  shows "check_all f xs s = Ret s' \<Longrightarrow>
    s' = rev (map key xs) @ s \<and> distinct (map key xs) \<and> set (map key xs) \<inter> set s = {} \<and> (\<forall>x\<in>set xs. P x)"
proof (induction xs arbitrary: s)
  case (Cons x xs)
  then obtain s1 where s1: "f x s = Ret s1" "check_all f xs s1 = Ret s'" by auto
  with step [OF s1(1)] Cons.IH [OF s1(2)] show ?case by auto
qed simp

definition outbound_ids :: "Config \<Rightarrow> string list" where
  "outbound_ids cfg = ''direct'' # map n_ID (cfg_Nodes cfg) @ map g_ID (cfg_Groups cfg)"

definition ruleset_ids :: "Config \<Rightarrow> string list" where
  "ruleset_ids cfg = map rs_ID (cfg_Rulesets cfg)"

lemma validate_node_step:
  "validate_node n s = Ret s' \<Longrightarrow> s' = n_ID n # s \<and> n_ID n \<notin> set s \<and> n_ID n \<noteq> [] \<and> n_Type n \<in> {''vless'', ''trojan'', ''hysteria2'', ''tuic''}"
  by (auto simp: validate_node_def)

lemma validate_group_id_step: "validate_group_id g s = Ret s' \<Longrightarrow> s' = g_ID g # s \<and> g_ID g \<notin> set s \<and> g_ID g \<noteq> []"
  by (auto simp: validate_group_id_def)

lemma validate_ruleset_step:
  "validate_ruleset u known x s = Ret s' \<Longrightarrow> s' = rs_ID x # s \<and> rs_ID x \<notin> set s \<and>
     (rs_DownloadDetour x = [] \<or> rs_DownloadDetour x \<in> set known)"
  by (auto simp: validate_ruleset_def)

lemma validate_group_ok:
  "validate_group known g () = Ret () \<Longrightarrow> g_Members g \<noteq> [] \<and> set (g_Members g) \<subseteq> set known - {g_ID g} \<and>
     (g_Default g = [] \<or> g_Default g \<in> set (g_Members g)) \<and> g_Type g \<in> {''select'', ''selector'', ''urltest'', ''url-test''}"
  by (auto simp: validate_group_def check_all_unit contains_def list_ex_iff)

lemma validate_rule_ok:
  "validate_rule known ids rule () = Ret () \<Longrightarrow> m_ProcessName (r_Match rule) = [] \<and>
     (r_Action rule = ActionRoute \<and> r_Target rule \<noteq> [] \<longrightarrow> r_Target rule \<in> set known) \<and> set (m_RuleSet (r_Match rule)) \<subseteq> set ids"
  by (auto simp: validate_rule_def check_all_unit)

lemma validate_api_ok:
  "validate_api addresses listen = Ret () \<Longrightarrow> (\<exists>h p. SplitHostPort listen = Some (h, p) \<and> isLoopbackHost h) \<and> listen \<notin> set addresses"
  by (auto simp: validate_api_def split: option.splits)

text \<open>What an accepted configuration guarantees to the rest of the program.\<close>

definition config_ok :: "Config \<Rightarrow> bool" where
  "config_ok cfg \<longleftrightarrow> distinct (outbound_ids cfg) \<and> distinct (ruleset_ids cfg) \<and>
     (\<forall>n\<in>set (cfg_Nodes cfg). n_ID n \<noteq> [] \<and> n_Type n \<in> {''vless'', ''trojan'', ''hysteria2'', ''tuic''}) \<and>
     (\<forall>g\<in>set (cfg_Groups cfg). g_Members g \<noteq> [] \<and> set (g_Members g) \<subseteq> set (outbound_ids cfg) - {g_ID g} \<and>
        (g_Default g = [] \<or> g_Default g \<in> set (g_Members g)) \<and> g_Type g \<in> {''select'', ''selector'', ''urltest'', ''url-test''}) \<and>
     cfg_Final cfg \<in> set (outbound_ids cfg) \<and>
     (dns_Detour (cfg_DNS cfg) = [] \<or> dns_Detour (cfg_DNS cfg) \<in> set (outbound_ids cfg)) \<and>
     (\<forall>x\<in>set (cfg_Rulesets cfg). rs_DownloadDetour x = [] \<or> rs_DownloadDetour x \<in> set (outbound_ids cfg)) \<and>
     (\<forall>rule\<in>set (cfg_Rules cfg). m_ProcessName (r_Match rule) = [] \<and>
        (r_Action rule = ActionRoute \<and> r_Target rule \<noteq> [] \<longrightarrow> r_Target rule \<in> set (outbound_ids cfg)) \<and>
        set (m_RuleSet (r_Match rule)) \<subseteq> set (ruleset_ids cfg)) \<and>
     (\<exists>h p. SplitHostPort (api_Listen (cfg_API cfg)) = Some (h, p) \<and> isLoopbackHost h)"

lemma set_defaults_same [simp]:
  "outbound_ids (set_defaults cfg) = outbound_ids cfg" "ruleset_ids (set_defaults cfg) = ruleset_ids cfg"
  "cfg_Nodes (set_defaults cfg) = cfg_Nodes cfg" "cfg_Groups (set_defaults cfg) = cfg_Groups cfg"
  "cfg_Rulesets (set_defaults cfg) = cfg_Rulesets cfg" "cfg_Rules (set_defaults cfg) = cfg_Rules cfg"
  "cfg_DNS (set_defaults cfg) = cfg_DNS cfg" "cfg_Inbounds (set_defaults cfg) = cfg_Inbounds cfg"
  by (simp_all add: set_defaults_def outbound_ids_def ruleset_ids_def)

lemma Validate_ok:
  assumes "Validate u cfg = Ret cfg'"
  shows "cfg' = set_defaults cfg \<and> config_ok cfg'"
proof -
  from assms obtain addresses known1 known ids where
    n: "check_all validate_node (cfg_Nodes cfg) [''direct''] = Ret known1"
    and g: "check_all validate_group_id (cfg_Groups cfg) known1 = Ret known"
    and rs: "check_all (validate_ruleset u known) (cfg_Rulesets cfg) [] = Ret ids"
    and det: "dns_Detour (cfg_DNS cfg) = [] \<or> dns_Detour (cfg_DNS cfg) \<in> set known"
    and gr: "check_all (validate_group known) (cfg_Groups cfg) () = Ret ()"
    and fin: "cfg_Final (set_defaults cfg) \<in> set known"
    and ru: "check_all (validate_rule known ids) (cfg_Rules cfg) () = Ret ()"
    and api: "validate_api addresses (api_Listen (cfg_API (set_defaults cfg))) = Ret ()"
    and c: "cfg' = set_defaults cfg"
    by (auto simp: Validate_def)
  note nk = check_all_keys [where key = n_ID, OF validate_node_step n]
  note gk = check_all_keys [where key = g_ID, OF validate_group_id_step g]
  note rk = check_all_keys [where key = rs_ID and P = "\<lambda>x. rs_DownloadDetour x = [] \<or> rs_DownloadDetour x \<in> set known",
    OF validate_ruleset_step [where u = u] rs]
  have known: "set known = set (outbound_ids cfg)" using nk gk by (auto simp: outbound_ids_def)
  have ids: "set ids = set (ruleset_ids cfg)" using rk by (auto simp: ruleset_ids_def)
  have d: "distinct (outbound_ids cfg)" using nk gk by (auto simp: outbound_ids_def)
  have r: "distinct (ruleset_ids cfg)" using rk by (auto simp: ruleset_ids_def)
  have groups: "x \<in> set (cfg_Groups cfg) \<Longrightarrow> validate_group known x () = Ret ()" for x by (rule check_all_each [OF gr])
  have rules: "x \<in> set (cfg_Rules cfg) \<Longrightarrow> validate_rule known ids x () = Ret ()" for x by (rule check_all_each [OF ru])
  have nodes: "\<forall>n\<in>set (cfg_Nodes cfg). n_ID n \<noteq> [] \<and> n_Type n \<in> {''vless'', ''trojan'', ''hysteria2'', ''tuic''}"
    using conjunct2 [OF conjunct2 [OF conjunct2 [OF nk]]] .
  have detours: "\<forall>x\<in>set (cfg_Rulesets cfg). rs_DownloadDetour x = [] \<or> rs_DownloadDetour x \<in> set (outbound_ids cfg)"
    using rk by (simp add: known)
  have gs: "\<forall>g\<in>set (cfg_Groups cfg). g_Members g \<noteq> [] \<and> set (g_Members g) \<subseteq> set (outbound_ids cfg) - {g_ID g} \<and>
        (g_Default g = [] \<or> g_Default g \<in> set (g_Members g)) \<and> g_Type g \<in> {''select'', ''selector'', ''urltest'', ''url-test''}"
    by (rule ballI, rule validate_group_ok [OF groups, unfolded known])
  have rus: "\<forall>rule\<in>set (cfg_Rules cfg). m_ProcessName (r_Match rule) = [] \<and>
        (r_Action rule = ActionRoute \<and> r_Target rule \<noteq> [] \<longrightarrow> r_Target rule \<in> set (outbound_ids cfg)) \<and>
        set (m_RuleSet (r_Match rule)) \<subseteq> set (ruleset_ids cfg)"
    by (rule ballI, rule validate_rule_ok [OF rules, unfolded known ids])
  have "config_ok cfg'"
    unfolding config_ok_def c set_defaults_same
    by (intro conjI d r nodes gs detours rus fin [unfolded known] det [unfolded known] conjunct1 [OF validate_api_ok [OF api]])
  with c show ?thesis by simp
qed

lemma validate_inbound_np: "validate_inbound dns i s \<noteq> Panic"
  by (auto simp: validate_inbound_def split: prod.splits)

lemma Validate_np: "Validate u cfg \<noteq> Panic"
proof -
  have a: "validate_node n s \<noteq> Panic" "validate_group_id g s \<noteq> Panic" "validate_ruleset u k x s \<noteq> Panic" for n g k x s
    by (auto simp: validate_node_def validate_group_id_def validate_ruleset_def validate_reality_def validate_transport_def split: option.splits)
  have b: "validate_group k y v \<noteq> Panic" "validate_rule k ids z v \<noteq> Panic" "validate_dns d \<noteq> Panic" "validate_api ad l \<noteq> Panic" for k y v ids z d ad l
    by (auto simp: validate_group_def validate_rule_def validate_dns_def validate_api_def check_all_np split: option.splits)
  note c = check_all_np [OF a(1)] check_all_np [OF a(2)] check_all_np [OF a(3)] check_all_np [OF b(1)] check_all_np [OF b(2)]
    check_all_np [OF validate_inbound_np]
  show ?thesis
    by (auto simp: Validate_def c b)
qed


definition sample_config :: Config where
  "sample_config = zero_Config\<lparr>
     cfg_Inbounds := [\<lparr>i_Type = ''mixed'', i_Tag = ''in'', i_Listen = [], i_Port = 80, i_TUNAddress = [], i_TUNMTU = 0,
       i_TUNAutoRoute = False, i_TUNStrictRoute = False, i_TUNStack = [], i_TUNInterface = [], i_TUNRouteAddr = []\<rparr>],
     cfg_Nodes := [\<lparr>n_ID = ''n1'', n_Name = ''n1'', n_Type = ''trojan'', n_Server = ''a.b'', n_Port = 44, n_TLS = None, n_Transport = None,
       n_Auth = [(''password'', ''x'')], n_Dial = \<lparr>d_BindInterface = [], d_DomainResolver = []\<rparr>, n_UDP = True, n_Tags = []\<rparr>],
     cfg_Groups := [\<lparr>g_ID = ''g'', g_Type = ''select'', g_Members = [''n1'', ''direct''], g_URL = [], g_Interval = 0, g_Tolerance = 0, g_Default = []\<rparr>],
     cfg_Rules := [\<lparr>r_Match = zero_MatchExpr\<lparr>m_Domain := [''x.y'']\<rparr>, r_Action = ''route'', r_Target = ''g'', r_NoResolve = False\<rparr>],
     cfg_Final := ''g''\<rparr>"

lemma sample_config_valid: "Validate (\<lambda>_. None) sample_config = Ret (set_defaults sample_config)"
  by code_simp


end
