(* ===== verification/Fragments.thy ===== *)
theory Fragments
  imports Framing "HOL-Library.Multiset"
begin

text \<open>
  Fragmented datagrams, shared by \<^verbatim>\<open>protocol/tuic.go\<close> and \<^verbatim>\<open>protocol/hysteria2.go\<close>: a packet that does
  not fit a QUIC datagram is cut into numbered fragments, and the receiver puts them together
  whatever order they arrive in. The reassembly step, the send loop and the read loop of the two
  files are the same code up to the datagram format, so they are modelled once; the locale
  \<open>datagram_link\<close> states what they need of the format and proves delivery for both.
\<close>

section \<open>Model\<close>

text \<open>
  The table of incomplete packets. A slot that is \<^verbatim>\<open>nil\<close> is the empty list: \<^verbatim>\<open>append([]byte(nil),
  payload...)\<close> of an empty payload is \<^verbatim>\<open>nil\<close> too.
\<close>

record frag_state =
  fragments :: "(nat \<times> bytes list) list"
  fragCount :: "(nat \<times> nat) list"

definition no_fragments :: frag_state where
  "no_fragments = \<lparr>fragments = [], fragCount = []\<rparr>"

definition map_get :: "(nat \<times> 'a) list \<Rightarrow> 'a \<Rightarrow> nat \<Rightarrow> 'a" where
  "map_get m zero k = (case map_of m k of None \<Rightarrow> zero | Some v \<Rightarrow> v)"

definition frag_accept :: "nat \<Rightarrow> nat \<Rightarrow> nat \<Rightarrow> bytes \<Rightarrow> frag_state \<Rightarrow> bytes option \<times> frag_state" where
  "frag_accept packetID fragTotal fragID payload st0 =
     (let st = (if map_get (fragments st0) [] packetID = []
                then \<lparr>fragments = AList.update packetID (replicate fragTotal []) (fragments st0),
                      fragCount = AList.update packetID 0 (fragCount st0)\<rparr>
                else st0);
          slots = map_get (fragments st) [] packetID in
      if length slots \<le> fragID then (None, st)
      else
        (let st1 = (if slots ! fragID = []
                    then \<lparr>fragments = AList.update packetID (slots[fragID := payload]) (fragments st),
                          fragCount = AList.update packetID (map_get (fragCount st) 0 packetID + 1) (fragCount st)\<rparr>
                    else st) in
         if map_get (fragCount st1) 0 packetID = fragTotal
         then (Some (concat (map_get (fragments st1) [] packetID)),
               \<lparr>fragments = AList.delete packetID (fragments st1), fragCount = AList.delete packetID (fragCount st1)\<rparr>)
         else (None, st1)))"

text \<open>
  The send loop: \<open>mk i parts payload\<close> builds a datagram, \<open>sok\<close> says which datagrams the connection
  sends. The result is what \<^verbatim>\<open>Write\<close> returns, the number of bytes and the error, with the
  datagrams sent.
\<close>

function send_fragments ::
  "(nat \<Rightarrow> nat \<Rightarrow> bytes \<Rightarrow> (conn_error, 'd) go) \<Rightarrow> ('d \<Rightarrow> bool) \<Rightarrow> nat \<Rightarrow> bytes \<Rightarrow> nat \<Rightarrow> nat \<Rightarrow>
   (unit, (nat \<times> conn_error option) \<times> 'd list) go" where
  "send_fragments mk sok chunkSize p parts i =
     (if i < parts then
        (let start = i * chunkSize in
         gbind (slc p start (min (start + chunkSize) (length p))) (\<lambda>payload.
         gtry (mk i parts payload) (\<lambda>e. Ret ((start, Some e), [])) (\<lambda>d.
           if sok d then gbind (send_fragments mk sok chunkSize p parts (i + 1)) (\<lambda>(r, ds). Ret (r, d # ds))
           else Ret ((start, Some WriteFailed), []))))
      else Ret ((length p, None), []))"
  by auto
termination
  by (relation "measure (\<lambda>(mk, sok, chunkSize, p, parts, i). parts - i)") auto

declare send_fragments.simps [simp del]

definition write_fragments ::
  "(nat \<Rightarrow> nat \<Rightarrow> bytes \<Rightarrow> (conn_error, 'd) go) \<Rightarrow> ('d \<Rightarrow> bool) \<Rightarrow> int \<Rightarrow> bytes \<Rightarrow>
   (unit, (nat \<times> conn_error option) \<times> 'd list) go" where
  "write_fragments mk sok chunkSize p =
     (if chunkSize < 1 then Ret ((0, Some (Refused ''target address is too long'')), [])
      else if int (length p) \<le> chunkSize then
        gtry (mk 0 1 p) (\<lambda>e. Ret ((0, Some e), [])) (\<lambda>d.
          if sok d then Ret ((length p, None), [d]) else Ret ((0, Some WriteFailed), []))
      else
        (let sz = nat chunkSize; parts = (length p + sz - 1) div sz in
         if 255 < parts then Ret ((0, Some (Refused ''udp packet requires too many fragments'')), [])
         else send_fragments mk sok sz p parts 0))"

text \<open>
  The read loop: datagrams are taken until one completes a packet that is not empty; the connection
  ends after the last one.
\<close>

fun next_payload ::
  "('d \<Rightarrow> 's \<Rightarrow> (conn_error, bytes option \<times> 's) go) \<Rightarrow> 's \<Rightarrow> 'd list \<Rightarrow> (conn_error, bytes \<times> 's \<times> 'd list) go" where
  "next_payload accept s [] = Err EOF"
| "next_payload accept s (d # ds) =
     gbind (accept d s) (\<lambda>(r, s').
       case r of
         None \<Rightarrow> next_payload accept s' ds
       | Some payload \<Rightarrow> if length payload = 0 then next_payload accept s' ds else Ret (payload, s', ds))"

definition datagram_next ::
  "('d \<Rightarrow> 's \<Rightarrow> (conn_error, bytes option \<times> 's) go) \<Rightarrow> 's \<times> 'd list \<Rightarrow> (conn_error, bytes \<times> 's \<times> 'd list) go" where
  "datagram_next accept c = next_payload accept (fst c) (snd c)"

section \<open>What a reader gets from a sequence of datagrams\<close>

fun delivered :: "('d \<Rightarrow> 's \<Rightarrow> (conn_error, bytes option \<times> 's) go) \<Rightarrow> 's \<Rightarrow> 'd list \<Rightarrow> bytes list option" where
  "delivered accept s [] = Some []"
| "delivered accept s (d # ds) =
     (case accept d s of
        Ret (r, s') \<Rightarrow> map_option ((@) (case r of Some x \<Rightarrow> if x = [] then [] else [x] | None \<Rightarrow> [])) (delivered accept s' ds)
      | _ \<Rightarrow> None)"

lemma next_payload_delivered:
  "delivered accept s ds = Some ps \<Longrightarrow>
   (case ps of [] \<Rightarrow> next_payload accept s ds = Err EOF
    | p # ps' \<Rightarrow> p \<noteq> [] \<and> (\<exists>s' ds'. next_payload accept s ds = Ret (p, s', ds') \<and> delivered accept s' ds' = Some ps'))"
proof (induction ds arbitrary: s ps)
  case (Cons d ds)
  then obtain r s' qs where d: "accept d s = Ret (r, s')" "delivered accept s' ds = Some qs"
    "ps = (case r of Some x \<Rightarrow> if x = [] then [] else [x] | None \<Rightarrow> []) @ qs"
    by (auto split: go.splits)
  show ?case
  proof (cases "r = None \<or> r = Some []")
    case True
    then have "ps = qs" "next_payload accept s (d # ds) = next_payload accept s' ds" using d by auto
    with Cons.IH [OF d(2)] show ?thesis by (cases qs) (simp_all del: next_payload.simps)
  next
    case False
    then obtain x where "r = Some x" "x \<noteq> []" by auto
    with d show ?thesis by auto
  qed
qed simp

interpretation dg: packet_source "datagram_next accept" "\<lambda>(s, ds) ps. delivered accept s ds = Some ps"
  for accept :: "'d \<Rightarrow> 's \<Rightarrow> (conn_error, bytes option \<times> 's) go"
  using next_payload_delivered [where accept = accept]
  by unfold_locales (fastforce simp: datagram_next_def)+

section \<open>Cutting a packet\<close>

definition chunks :: "nat \<Rightarrow> bytes \<Rightarrow> bytes list" where
  "chunks sz p = map (\<lambda>i. take sz (drop (i * sz) p)) [0..<(length p + sz - 1) div sz]"

lemma concat_pieces: "concat (map (\<lambda>i. take sz (drop (i * sz) p)) [0..<k]) = take (k * sz) p"
proof (induction k)
  case (Suc k)
  have "take (k * sz) p @ take sz (drop (k * sz) p) = take (sz + k * sz) p"
    by (simp only: take_add add.commute [of sz])
  with Suc show ?case by simp
qed simp

lemma chunk_count:
  fixes sz n :: nat
  assumes "0 < sz"
  shows "n \<le> (n + sz - 1) div sz * sz" "i < (n + sz - 1) div sz \<longleftrightarrow> i * sz < n"
proof -
  have "(n + sz - 1) div sz * sz + (n + sz - 1) mod sz = n + sz - 1" by (rule div_mult_mod_eq)
  moreover have "(n + sz - 1) mod sz < sz" using assms by simp
  ultimately show le: "n \<le> (n + sz - 1) div sz * sz" by linarith
  have "i < (n + sz - 1) div sz \<longleftrightarrow> Suc i * sz \<le> n + sz - 1"
    using less_eq_div_iff_mult_less_eq [OF assms, of "Suc i" "n + sz - 1"] by (simp add: Suc_le_eq)
  also have "\<dots> \<longleftrightarrow> i * sz < n" using assms by auto
  finally show "i < (n + sz - 1) div sz \<longleftrightarrow> i * sz < n" .
qed

lemma concat_chunks: "0 < sz \<Longrightarrow> concat (chunks sz p) = p"
  using chunk_count(1) [of sz "length p"] by (simp add: chunks_def concat_pieces)

lemma length_chunks [simp]: "length (chunks sz p) = (length p + sz - 1) div sz"
  by (simp add: chunks_def)

lemma chunks_nth: "i < length (chunks sz p) \<Longrightarrow> chunks sz p ! i = take sz (drop (i * sz) p)"
  by (simp add: chunks_def)

lemma chunks_nonempty: "0 < sz \<Longrightarrow> x \<in> set (chunks sz p) \<Longrightarrow> x \<noteq> [] \<and> length x \<le> sz"
proof -
  assume sz: "0 < sz" and x: "x \<in> set (chunks sz p)"
  then obtain i where i: "i < (length p + sz - 1) div sz" "x = take sz (drop (i * sz) p)" by (auto simp: chunks_def)
  then have "i * sz < length p" using chunk_count(2) [OF sz] by blast
  with i sz show ?thesis by simp
qed

lemma send_fragments_all:
  assumes "0 < sz" "parts = (length p + sz - 1) div sz" "i \<le> parts"
    and mk: "\<And>i. i < parts \<Longrightarrow> mk i parts (chunks sz p ! i) = Ret (dat i)"
    and sok: "\<And>d. sok d"
  shows "send_fragments mk sok sz p parts i = Ret ((length p, None), map dat [i..<parts])"
  using assms(3)
proof (induction "parts - i" arbitrary: i)
  case 0
  then show ?case by (subst send_fragments.simps) simp
next
  case (Suc k)
  then have i: "i < parts" by simp
  then have lt: "i * sz < length p" using chunk_count(2) [OF assms(1)] assms(2) by simp
  have "slc p (i * sz) (min (i * sz + sz) (length p)) = (Ret (chunks sz p ! i) :: (unit, bytes) go)"
    using lt i assms(2) by (simp add: chunks_nth slc_def min_def)
  moreover have "send_fragments mk sok sz p parts (i + 1) = Ret ((length p, None), map dat [i + 1..<parts])"
    by (rule Suc.hyps(1)) (use Suc.hyps(2) i in simp_all)
  moreover have "[i..<parts] = i # [i + 1..<parts]" using i by (simp add: upt_conv_Cons)
  ultimately show ?case using i mk [OF i] sok by (subst send_fragments.simps) (simp add: Let_def)
qed

section \<open>Reassembly\<close>

text \<open>
  An arrival is a packet id and a fragment number; \<open>C p\<close> are the fragments of packet \<open>p\<close>. \<open>got\<close> are
  the fragments that have arrived, \<open>slots\<close> what the table holds of them.
\<close>

definition got :: "(nat \<times> nat) list \<Rightarrow> nat \<Rightarrow> nat set" where
  "got as p = {i. (p, i) \<in> set as}"

definition slots_of :: "bytes list \<Rightarrow> nat set \<Rightarrow> bytes list" where
  "slots_of cs R = map (\<lambda>i. if i \<in> R then cs ! i else []) [0..<length cs]"

definition complete :: "(nat \<Rightarrow> bytes list) \<Rightarrow> (nat \<times> nat) list \<Rightarrow> nat \<Rightarrow> bool" where
  "complete C as p \<longleftrightarrow> C p \<noteq> [] \<and> got as p = {..<length (C p)}"

definition entry_ok :: "(nat \<Rightarrow> bytes list) \<Rightarrow> (nat \<times> nat) list \<Rightarrow> frag_state \<Rightarrow> nat \<Rightarrow> bool" where
  "entry_ok C as st p \<longleftrightarrow>
     (if got as p \<noteq> {} \<and> \<not> complete C as p
      then map_of (fragments st) p = Some (slots_of (C p) (got as p)) \<and> map_of (fragCount st) p = Some (card (got as p))
      else map_of (fragments st) p = None)"

definition table_ok :: "(nat \<Rightarrow> bytes list) \<Rightarrow> (nat \<times> nat) list \<Rightarrow> frag_state \<Rightarrow> bool" where
  "table_ok C as st \<longleftrightarrow> (\<forall>p. entry_ok C as st p)"

fun completions :: "(nat \<Rightarrow> bytes list) \<Rightarrow> (nat \<times> nat) list \<Rightarrow> (nat \<times> nat) list \<Rightarrow> nat list" where
  "completions C before [] = []"
| "completions C before (a # as) =
     (if complete C (before @ [a]) (fst a) then [fst a] else []) @ completions C (before @ [a]) as"

text \<open>Arrivals that name existing fragments, each once.\<close>

definition arrivals_ok :: "(nat \<Rightarrow> bytes list) \<Rightarrow> (nat \<times> nat) list \<Rightarrow> bool" where
  "arrivals_ok C as \<longleftrightarrow> distinct as \<and> (\<forall>(p, i)\<in>set as. i < length (C p)) \<and> (\<forall>p. [] \<notin> set (C p))"

lemma got_snoc: "got (as @ [(p, i)]) q = (if q = p then insert i (got as p) else got as q)"
  by (auto simp: got_def)

lemma got_le: "arrivals_ok C as \<Longrightarrow> got as p \<subseteq> {..<length (C p)}"
  by (auto simp: arrivals_ok_def got_def)

lemma slots_of_len [simp]: "length (slots_of cs R) = length cs"
  by (simp add: slots_of_def)

lemma slots_of_all: "slots_of cs {..<length cs} = cs"
  by (rule nth_equalityI) (simp_all add: slots_of_def)

lemma slots_of_none: "slots_of cs {} = replicate (length cs) []"
  by (rule nth_equalityI) (simp_all add: slots_of_def)

lemma slots_of_miss: "i < length cs \<Longrightarrow> i \<notin> R \<Longrightarrow> slots_of cs R ! i = []"
  by (simp add: slots_of_def)

lemma slots_of_insert: "i < length cs \<Longrightarrow> (slots_of cs R)[i := cs ! i] = slots_of cs (insert i R)"
  by (rule nth_equalityI) (auto simp: slots_of_def nth_list_update)

lemma entry_ok_cong:
  "got as' q = got as q \<Longrightarrow> map_of (fragments st') q = map_of (fragments st) q \<Longrightarrow> map_of (fragCount st') q = map_of (fragCount st) q \<Longrightarrow>
   entry_ok C as' st' q = entry_ok C as st q"
  by (simp add: entry_ok_def complete_def)

text \<open>The first lines of the step: the entry of the packet exists afterwards.\<close>

definition opened :: "nat \<Rightarrow> nat \<Rightarrow> frag_state \<Rightarrow> frag_state" where
  "opened p n st = (if map_get (fragments st) [] p = []
      then \<lparr>fragments = AList.update p (replicate n []) (fragments st), fragCount = AList.update p 0 (fragCount st)\<rparr> else st)"

lemma opened_entry:
  assumes "entry_ok C as st p" "\<not> complete C as p" "2 \<le> length (C p)"
  shows "map_of (fragments (opened p (length (C p)) st)) p = Some (slots_of (C p) (got as p))"
    "map_of (fragCount (opened p (length (C p)) st)) p = Some (card (got as p))"
proof -
  have "slots_of (C p) (got as p) \<noteq> []" using slots_of_len [of "C p" "got as p"] assms(3) by (metis list.size(3) not_numeral_le_zero)
  with assms(1,2) show "map_of (fragments (opened p (length (C p)) st)) p = Some (slots_of (C p) (got as p))"
    "map_of (fragCount (opened p (length (C p)) st)) p = Some (card (got as p))"
    by (auto simp: entry_ok_def opened_def map_get_def update_conv' slots_of_none split: if_splits)
qed

lemma opened_other:
  "q \<noteq> p \<Longrightarrow> map_of (fragments (opened p n st)) q = map_of (fragments st) q \<and> map_of (fragCount (opened p n st)) q = map_of (fragCount st) q"
  by (simp add: opened_def update_conv')

lemma frag_accept_opened:
  assumes "map_of (fragments (opened p n st)) p = Some sl" "map_of (fragCount (opened p n st)) p = Some k" "i < length sl" "sl ! i = []"
  shows "frag_accept p n i x st =
    (let st1 = \<lparr>fragments = AList.update p (sl[i := x]) (fragments (opened p n st)), fragCount = AList.update p (k + 1) (fragCount (opened p n st))\<rparr> in
     if k + 1 = n then (Some (concat (sl[i := x])), \<lparr>fragments = AList.delete p (fragments st1), fragCount = AList.delete p (fragCount st1)\<rparr>)
     else (None, st1))"
  using assms unfolding frag_accept_def opened_def [symmetric] Let_def by (simp add: map_get_def update_conv')

lemma frag_accept_step:
  assumes ok: "arrivals_ok C (as @ [(p, i)])" and tab: "table_ok C as st" and len: "2 \<le> length (C p)"
  shows "\<exists>st'. frag_accept p (length (C p)) i (C p ! i) st =
     (if complete C (as @ [(p, i)]) p then Some (concat (C p)) else None, st') \<and> table_ok C (as @ [(p, i)]) st'"
proof -
  let ?n = "length (C p)" and ?R' = "insert i (got as p)"
  let ?st = "opened p ?n st"
  let ?st1 = "\<lparr>fragments = AList.update p (slots_of (C p) ?R') (fragments ?st), fragCount = AList.update p (card ?R') (fragCount ?st)\<rparr>"
  let ?st2 = "\<lparr>fragments = AList.delete p (fragments ?st1), fragCount = AList.delete p (fragCount ?st1)\<rparr>"
  have i: "i < ?n" "i \<notin> got as p" using ok by (auto simp: arrivals_ok_def got_def)
  have Rle: "?R' \<subseteq> {..<?n}" using got_le [OF ok, of p] by (simp add: got_snoc)
  then have fin: "finite (got as p)" using finite_subset by auto
  have notc: "\<not> complete C as p" using i by (auto simp: complete_def)
  have e: "entry_ok C as st q" for q using tab by (simp add: table_ok_def)
  note st = opened_entry [OF e notc len]
  have full: "complete C (as @ [(p, i)]) p \<longleftrightarrow> card ?R' = ?n"
    using Rle len card_subset_eq [of "{..<?n}" ?R'] by (auto simp: complete_def got_snoc)
  have "frag_accept p ?n i (C p ! i) st = (if card ?R' = ?n then (Some (concat (slots_of (C p) ?R')), ?st2) else (None, ?st1))"
    using frag_accept_opened [OF st, of i "C p ! i"] i fin
    by (simp add: Let_def slots_of_insert slots_of_miss)
  moreover have "card ?R' = ?n \<Longrightarrow> slots_of (C p) ?R' = C p"
    using full by (simp add: complete_def got_snoc slots_of_all)
  moreover have "entry_ok C (as @ [(p, i)]) (if card ?R' = ?n then ?st2 else ?st1) q" for q
  proof (cases "q = p")
    case True
    then show ?thesis using full by (simp add: entry_ok_def got_snoc update_conv' delete_conv')
  next
    case False
    then show ?thesis
      using e [of q] opened_other [OF False, of ?n st]
      by (subst entry_ok_cong [of _ _ as _ st]) (simp_all add: got_snoc update_conv' delete_conv')
  qed
  ultimately show ?thesis using full by (auto simp: table_ok_def)
qed

section \<open>Delivery\<close>

locale datagram_link =
  fixes accept :: "'d \<Rightarrow> frag_state \<Rightarrow> (conn_error, bytes option \<times> frag_state) go"
    and carries :: "'d \<Rightarrow> nat \<Rightarrow> nat \<Rightarrow> nat \<Rightarrow> bytes \<Rightarrow> bool"
  assumes accept_whole: "carries d p 1 0 x \<Longrightarrow> accept d st = Ret (Some x, st)"
    and accept_part: "carries d p n i x \<Longrightarrow> 2 \<le> n \<Longrightarrow> accept d st = Ret (frag_accept p n i x st)"
begin

lemma delivered_completions:
  assumes "list_all2 (\<lambda>d (p, i). carries d p (length (C p)) i (C p ! i)) ds as"
    and "arrivals_ok C (before @ as)" "table_ok C before st"
  shows "delivered accept st ds = Some (map (\<lambda>p. concat (C p)) (completions C before as))"
  using assms
proof (induction ds as arbitrary: before st rule: list_all2_induct)
  case (Cons d ds a as)
  obtain p i where a: "a = (p, i)" by fastforce
  have car: "carries d p (length (C p)) i (C p ! i)" using Cons.hyps(1) a by simp
  have ok: "arrivals_ok C (before @ [(p, i)])" "arrivals_ok C ((before @ [(p, i)]) @ as)"
    using Cons.prems(1) a by (auto simp: arrivals_ok_def)
  have i: "i < length (C p)" "[] \<notin> set (C p)" using ok(1) by (auto simp: arrivals_ok_def)
  then have ne: "concat (C p) \<noteq> []" by (metis concat_eq_Nil_conv list.size(3) not_less_zero nth_mem)
  have "\<exists>st'. accept d st = Ret (if complete C (before @ [(p, i)]) p then Some (concat (C p)) else None, st') \<and>
      table_ok C (before @ [(p, i)]) st'"
  proof (cases "2 \<le> length (C p)")
    case True
    from frag_accept_step [OF ok(1) Cons.prems(2) True] accept_part [OF car True] show ?thesis by auto
  next
    case False
    then have one: "length (C p) = 1" "i = 0" using i by auto
    have free: "0 \<notin> got before p" using ok(1) one by (auto simp: arrivals_ok_def got_def)
    have "got before p \<subseteq> {..<length (C p)}" using ok(1) by (intro got_le) (auto simp: arrivals_ok_def)
    with free one have none: "got before p = {}" by auto
    have c: "complete C (before @ [(p, i)]) p" using none one by (auto simp: complete_def got_snoc)
    moreover have "C p ! 0 = concat (C p)" using one by (cases "C p") auto
    moreover have "entry_ok C (before @ [(p, i)]) st q" for q
      using Cons.prems(2) none c by (cases "q = p") (auto simp: table_ok_def entry_ok_def got_snoc complete_def)
    ultimately show ?thesis using accept_whole [of d p "C p ! 0" st] car one by (auto simp: table_ok_def)
  qed
  then obtain st' where st': "accept d st = Ret (if complete C (before @ [(p, i)]) p then Some (concat (C p)) else None, st')"
    "table_ok C (before @ [(p, i)]) st'" by blast
  from Cons.IH [OF ok(2) st'(2)] st'(1) ne show ?case by (auto simp: a)
qed simp

end

text \<open>Which packets complete, in whatever order the fragments arrive.\<close>

lemma completions_set:
  assumes "arrivals_ok C (before @ as)"
  shows "distinct (completions C before as) \<and> set (completions C before as) = {p. complete C (before @ as) p \<and> \<not> complete C before p}"
  using assms
proof (induction as arbitrary: before)
  case (Cons a as)
  obtain p i where a: "a = (p, i)" by fastforce
  have i: "i < length (C p)" "i \<notin> got before p" using Cons.prems a by (auto simp: arrivals_ok_def got_def)
  have IH: "distinct (completions C (before @ [a]) as)"
    "set (completions C (before @ [a]) as) = {p. complete C (before @ a # as) p \<and> \<not> complete C (before @ [a]) p}"
    using Cons.IH [of "before @ [a]"] Cons.prems by auto
  have notb: "\<not> complete C before p" using i by (auto simp: complete_def)
  have mono: "complete C (before @ [a]) p \<Longrightarrow> complete C (before @ a # as) p"
    using got_le [OF Cons.prems, of p] by (auto simp: complete_def got_def)
  have other: "q \<noteq> p \<Longrightarrow> complete C (before @ [a]) q = complete C before q" for q by (simp add: complete_def got_snoc a)
  have iff: "complete C (before @ [a]) q \<longleftrightarrow> complete C before q \<or> q = p \<and> complete C (before @ [a]) p" for q
    using other [of q] notb by (cases "q = p") auto
  show ?case
  proof (cases "complete C (before @ [a]) p")
    case True
    have "completions C before (a # as) = p # completions C (before @ [a]) as" using True by (simp add: a)
    moreover have "{q. complete C (before @ a # as) q \<and> \<not> complete C before q} =
        insert p {q. complete C (before @ a # as) q \<and> \<not> complete C (before @ [a]) q}"
      using iff True notb mono by blast
    ultimately show ?thesis using IH True by simp
  next
    case False
    then have "completions C before (a # as) = completions C (before @ [a]) as" by (simp add: a)
    moreover have "complete C (before @ [a]) q = complete C before q" for q using iff [of q] False by blast
    ultimately show ?thesis using IH by simp
  qed
qed simp

lemma completions_run:
  assumes "C p \<noteq> []" "got before p = {}" "k \<le> length (C p)"
  shows "completions C before (map (Pair p) [0..<k] @ rest) =
    (if k = length (C p) then [p] else []) @ completions C (before @ map (Pair p) [0..<k]) rest"
  using assms(3)
proof (induction k arbitrary: rest)
  case 0
  then show ?case using assms(1) by simp
next
  case (Suc k)
  have "got (before @ map (Pair p) [0..<Suc k]) p = {..<Suc k}" using assms(2) by (auto simp: got_def)
  then have "complete C (before @ map (Pair p) [0..<Suc k]) p \<longleftrightarrow> Suc k = length (C p)"
    using assms(1) by (auto simp: complete_def)
  with Suc.IH [of "(p, k) # rest"] Suc.prems show ?case by simp
qed

lemma completions_in_order:
  assumes "distinct ids" "\<forall>p\<in>set ids. C p \<noteq> [] \<and> got before p = {}"
  shows "completions C before (concat (map (\<lambda>p. map (Pair p) [0..<length (C p)]) ids)) = ids"
  using assms
proof (induction ids arbitrary: before)
  case (Cons p ids)
  have "\<forall>q\<in>set ids. C q \<noteq> [] \<and> got (before @ map (Pair p) [0..<length (C p)]) q = {}"
    using Cons.prems by (auto simp: got_def)
  with Cons.IH [of "before @ map (Pair p) [0..<length (C p)]"] Cons.prems completions_run [of C p before "length (C p)"]
  show ?case by simp
qed simp

lemma table_ok_empty: "table_ok C [] no_fragments"
  by (simp add: table_ok_def entry_ok_def got_def no_fragments_def)

text \<open>All fragments of some packets.\<close>

definition all_fragments :: "(nat \<Rightarrow> bytes list) \<Rightarrow> nat list \<Rightarrow> (nat \<times> nat) list" where
  "all_fragments C ids = concat (map (\<lambda>p. map (Pair p) [0..<length (C p)]) ids)"

lemma all_fragments_set: "set (all_fragments C ids) = {(p, i). p \<in> set ids \<and> i < length (C p)}"
  by (auto simp: all_fragments_def)

lemma all_fragments_distinct: "distinct ids \<Longrightarrow> distinct (all_fragments C ids)"
  by (induction ids) (auto simp: all_fragments_def distinct_map inj_on_def)

lemma list_all2_concat: "list_all2 (list_all2 R) xss yss \<Longrightarrow> list_all2 R (concat xss) (concat yss)"
  by (induction rule: list_all2_induct) (auto intro: list_all2_appendI)

lemma write_fragments_all:
  assumes "0 < sz" "p \<noteq> []" "length (chunks sz p) \<le> 255"
    and mk: "\<And>i. i < length (chunks sz p) \<Longrightarrow> mk i (length (chunks sz p)) (chunks sz p ! i) = Ret (dat i)" and sok: "\<And>d. sok d"
  shows "write_fragments mk sok (int sz) p = Ret ((length p, None), map dat [0..<length (chunks sz p)])"
proof (cases "length p \<le> sz")
  case True
  then have "(length p + sz - 1) div sz = 1" using assms(1,2) by (cases p) (auto intro!: div_nat_eqI)
  then have one: "length (chunks sz p) = 1" by simp
  then have "chunks sz p ! 0 = p" using chunks_nth [of 0 sz p] True by simp
  with mk [of 0] one True assms(1) sok show ?thesis by (simp add: write_fragments_def)
next
  case False
  with send_fragments_all [OF assms(1) refl le0, where mk = mk and dat = dat and sok = sok and p = p] mk sok assms(1,3)
  show ?thesis by (simp add: write_fragments_def Let_def)
qed

text \<open>A sequence of \<^verbatim>\<open>Write\<close> calls on one connection, with what each returns and sends.\<close>

fun write_all :: "(bytes \<Rightarrow> 'c \<Rightarrow> (unit, (nat \<times> conn_error option) \<times> 'd list) go \<times> 'c) \<Rightarrow> bytes list \<Rightarrow> 'c \<Rightarrow>
   (unit, ((nat \<times> conn_error option) \<times> 'd list) list) go" where
  "write_all wr [] c = Ret []"
| "write_all wr (p # ps) c = (case wr p c of (r, c') \<Rightarrow> gbind r (\<lambda>x. gbind (write_all wr ps c') (\<lambda>xs. Ret (x # xs))))"

context datagram_link
begin

lemma delivers:
  assumes sent: "list_all2 (\<lambda>d (p, i). carries d p (length (C p)) i (C p ! i)) sent (all_fragments C ids)"
    and ids: "distinct ids" "\<forall>p\<in>set ids. C p \<noteq> []" "\<forall>p. [] \<notin> set (C p)"
  shows "delivered accept no_fragments sent = Some (map (\<lambda>p. concat (C p)) ids)"
    "mset arrived = mset sent \<Longrightarrow>
     \<exists>out. delivered accept no_fragments arrived = Some out \<and> mset out = mset (map (\<lambda>p. concat (C p)) ids)"
proof -
  have ok: "arrivals_ok C as" if "mset as = mset (all_fragments C ids)" for as
    using that all_fragments_distinct [OF ids(1), of C] ids(3) all_fragments_set [of C ids]
    by (auto simp: arrivals_ok_def dest: mset_eq_imp_distinct_iff mset_eq_setD)
  show "delivered accept no_fragments sent = Some (map (\<lambda>p. concat (C p)) ids)"
    using delivered_completions [OF sent, of "[]" no_fragments] ok table_ok_empty ids
    by (simp add: all_fragments_def completions_in_order got_def)
  assume "mset arrived = mset sent"
  with list_all2_reorder_left_invariance [OF sent] obtain as where as:
    "list_all2 (\<lambda>d (p, i). carries d p (length (C p)) i (C p ! i)) arrived as" "mset as = mset (all_fragments C ids)" by blast
  have "set (completions C [] as) = set ids" "distinct (completions C [] as)"
  proof -
    have "got as p = {i. i < length (C p) \<and> p \<in> set ids}" for p
      using mset_eq_setD [OF as(2)] by (auto simp: got_def all_fragments_set)
    then have "complete C as p \<longleftrightarrow> p \<in> set ids" for p using ids(2) by (auto simp: complete_def)
    moreover have "\<not> complete C [] p" for p by (auto simp: complete_def got_def)
    ultimately show "set (completions C [] as) = set ids" "distinct (completions C [] as)"
      using completions_set [of C "[]" as] ok [OF as(2)] by auto
  qed
  then have "mset (completions C [] as) = mset ids" using ids(1) by (simp add: set_eq_iff_mset_eq_distinct)
  then have "mset (map (\<lambda>p. concat (C p)) (completions C [] as)) = mset (map (\<lambda>p. concat (C p)) ids)" by (simp only: mset_map)
  with delivered_completions [OF as(1), of "[]" no_fragments] ok [OF as(2)] table_ok_empty
  show "\<exists>out. delivered accept no_fragments arrived = Some out \<and> mset out = mset (map (\<lambda>p. concat (C p)) ids)" by simp
qed

lemma delivers_writes:
  assumes ids: "distinct ids" "length ids = length ps" and sz: "0 < sz" and ps: "[] \<notin> set ps"
    and sents: "length sents = length ps"
    and sent: "\<And>k. k < length ps \<Longrightarrow>
      length (sents ! k) = length (chunks sz (ps ! k)) \<and>
      (\<forall>i<length (chunks sz (ps ! k)). carries (sents ! k ! i) (ids ! k) (length (chunks sz (ps ! k))) i (chunks sz (ps ! k) ! i))"
  shows "delivered accept no_fragments (concat sents) = Some ps"
    "mset arrived = mset (concat sents) \<Longrightarrow> \<exists>out. delivered accept no_fragments arrived = Some out \<and> mset out = mset ps"
proof -
  define C where "C q = (case map_of (zip ids ps) q of Some p \<Rightarrow> chunks sz p | None \<Rightarrow> [])" for q
  have C: "C (ids ! k) = chunks sz (ps ! k)" if "k < length ps" for k
    using that ids by (simp add: C_def map_of_zip_nth)
  have "list_all2 (list_all2 (\<lambda>d (p, i). carries d p (length (C p)) i (C p ! i))) sents (map (\<lambda>p. map (Pair p) [0..<length (C p)]) ids)"
    using sent sents ids by (auto simp: list_all2_conv_all_nth C simp del: length_chunks)
  then have all: "list_all2 (\<lambda>d (p, i). carries d p (length (C p)) i (C p ! i)) (concat sents) (all_fragments C ids)"
    unfolding all_fragments_def by (rule list_all2_concat)
  have ne: "\<forall>p\<in>set ids. C p \<noteq> []"
  proof
    fix p assume "p \<in> set ids"
    then obtain k where "k < length ps" "p = ids ! k" using ids by (auto simp: in_set_conv_nth)
    moreover from this have "ps ! k \<noteq> []" using ps by (metis nth_mem)
    ultimately show "C p \<noteq> []" using C concat_chunks [OF sz, of "ps ! k"] by (metis concat.simps(1))
  qed
  have full: "\<forall>p. [] \<notin> set (C p)" using chunks_nonempty [OF sz] by (auto simp: C_def split: option.splits)
  have whole: "map (\<lambda>p. concat (C p)) ids = ps"
    by (rule nth_equalityI) (use ids C concat_chunks [OF sz] in auto)
  show "delivered accept no_fragments (concat sents) = Some ps"
    using delivers(1) [OF all ids(1) ne full] by (simp only: whole)
  show "mset arrived = mset (concat sents) \<Longrightarrow> \<exists>out. delivered accept no_fragments arrived = Some out \<and> mset out = mset ps"
    using delivers(2) [OF all ids(1) ne full] by (simp only: whole)
qed

end

section \<open>Connections\<close>

text \<open>The datagrams of one packet, and packets that need at most 255 of them.\<close>

definition is_cut :: "('d \<Rightarrow> nat \<Rightarrow> nat \<Rightarrow> nat \<Rightarrow> bytes \<Rightarrow> bool) \<Rightarrow> nat \<Rightarrow> nat \<Rightarrow> bytes \<Rightarrow> 'd list \<Rightarrow> bool" where
  "is_cut carries sz pid p ds \<longleftrightarrow> length ds = length (chunks sz p) \<and>
     (\<forall>i<length (chunks sz p). carries (ds ! i) pid (length (chunks sz p)) i (chunks sz p ! i))"

definition fits_datagrams :: "nat \<Rightarrow> bytes \<Rightarrow> bool" where
  "fits_datagrams sz p \<longleftrightarrow> p \<noteq> [] \<and> length (chunks sz p) \<le> 255"

lemma packet_ids_distinct:
  "n \<le> 65536 \<Longrightarrow> distinct (map (\<lambda>k. unat (w + word_of_nat (Suc k) :: u16)) [0..<n])"
proof -
  assume n: "n \<le> 65536"
  have "inj_on (\<lambda>k. unat (w + word_of_nat (Suc k) :: u16)) {0..<n}"
  proof (rule inj_onI)
    fix x y assume xy: "x \<in> {0..<n}" "y \<in> {0..<n}" "unat (w + word_of_nat (Suc x) :: u16) = unat (w + word_of_nat (Suc y))"
    then have "(word_of_nat (Suc x) :: u16) = word_of_nat (Suc y)" by (metis add_left_cancel unsigned_word_eqI)
    then have "unat (word_of_nat x :: u16) = unat (word_of_nat y :: u16)" by simp
    with xy n show "x = y" by (simp add: unat_of_nat)
  qed
  then show ?thesis by (simp add: distinct_map)
qed

text \<open>A connection over a link: \<open>ready c w\<close> says that it can send and that \<open>w\<close> was its last packet id.\<close>

locale datagram_conn = datagram_link accept carries
  for accept :: "'d \<Rightarrow> frag_state \<Rightarrow> (conn_error, bytes option \<times> frag_state) go" and carries :: "'d \<Rightarrow> nat \<Rightarrow> nat \<Rightarrow> nat \<Rightarrow> bytes \<Rightarrow> bool" +
  fixes wr :: "bytes \<Rightarrow> 'c \<Rightarrow> (unit, (nat \<times> conn_error option) \<times> 'd list) go \<times> 'c"
    and sz :: nat
    and ready :: "'c \<Rightarrow> u16 \<Rightarrow> bool"
  assumes write_cut: "ready c w \<Longrightarrow> fits_datagrams sz p \<Longrightarrow>
      \<exists>ds c'. wr p c = (Ret ((length p, None), ds), c') \<and> ready c' (w + 1) \<and> is_cut carries sz (unat (w + 1)) p ds"
    and ready_pos: "ready c w \<Longrightarrow> 0 < sz"
begin

lemma writes_cut:
  "ready c w \<Longrightarrow> list_all (fits_datagrams sz) ps \<Longrightarrow>
   \<exists>sents. write_all wr ps c = Ret (zip (map (\<lambda>p. (length p, None)) ps) sents) \<and> length sents = length ps \<and>
     (\<forall>k<length ps. is_cut carries sz (unat (w + word_of_nat (Suc k))) (ps ! k) (sents ! k))"
proof (induction ps arbitrary: c w)
  case (Cons p ps)
  from write_cut [OF Cons.prems(1), of p] Cons.prems(2) obtain ds c' where
    ds: "wr p c = (Ret ((length p, None), ds), c')" "ready c' (w + 1)" "is_cut carries sz (unat (w + 1)) p ds" by auto
  from Cons.IH [OF ds(2)] Cons.prems(2) obtain sents where
    sents: "write_all wr ps c' = Ret (zip (map (\<lambda>p. (length p, None)) ps) sents)" "length sents = length ps"
      "\<forall>k<length ps. is_cut carries sz (unat (w + 1 + word_of_nat (Suc k))) (ps ! k) (sents ! k)" by auto
  have "is_cut carries sz (unat (w + word_of_nat (Suc k))) ((p # ps) ! k) ((ds # sents) ! k)" if k: "k < length (p # ps)" for k
  proof (cases k)
    case 0
    then show ?thesis using ds(3) by simp
  next
    case (Suc j)
    have "w + word_of_nat (Suc (Suc j)) = w + 1 + word_of_nat (Suc j)" by simp
    moreover have "is_cut carries sz (unat (w + 1 + word_of_nat (Suc j))) (ps ! j) (sents ! j)" using sents(3) k Suc by auto
    ultimately show ?thesis by (simp only: Suc nth_Cons_Suc)
  qed
  then show ?case using ds(1) sents(1,2) by (intro exI [of _ "ds # sents"]) simp
qed simp

lemma delivers_all:
  assumes "ready c w" "list_all (fits_datagrams sz) ps" "length ps \<le> 65536" "\<forall>p\<in>set ps. length p \<le> n"
  shows "\<exists>sents. write_all wr ps c = Ret (zip (map (\<lambda>p. (length p, None)) ps) sents) \<and>
    reads (datagram_next accept) (replicate (length ps) n) ([], no_fragments, concat sents) = ps \<and>
    (\<forall>arrived. mset arrived = mset (concat sents) \<longrightarrow>
       mset (reads (datagram_next accept) (replicate (length ps) n) ([], no_fragments, arrived)) = mset ps)"
proof -
  from writes_cut [OF assms(1,2)] obtain sents where
    sents: "write_all wr ps c = Ret (zip (map (\<lambda>p. (length p, None)) ps) sents)" "length sents = length ps"
      "\<forall>k<length ps. is_cut carries sz (unat (w + word_of_nat (Suc k))) (ps ! k) (sents ! k)" by auto
  let ?ids = "map (\<lambda>k. unat (w + word_of_nat (Suc k))) [0..<length ps]"
  have ne: "[] \<notin> set ps" using assms(2) by (auto simp: list_all_iff fits_datagrams_def)
  have cut: "k < length ps \<Longrightarrow> length (sents ! k) = length (chunks sz (ps ! k)) \<and>
      (\<forall>i<length (chunks sz (ps ! k)). carries (sents ! k ! i) (?ids ! k) (length (chunks sz (ps ! k))) i (chunks sz (ps ! k) ! i))" for k
    using sents(3) by (simp add: is_cut_def del: length_chunks of_nat_Suc)
  have len: "length ?ids = length ps" by simp
  note d = delivers_writes [OF packet_ids_distinct [OF assms(3)] len ready_pos [OF assms(1)] ne sents(2) cut]
  have got: "reads (datagram_next accept) (replicate (length out) n) ([], no_fragments, ds) = out"
    if "delivered accept no_fragments ds = Some out" "\<forall>p\<in>set out. length p \<le> n" for ds out
    using dg.reads_packets [where accept = accept and s = "(no_fragments, ds)" and ps = out and n = n] that by simp
  have "mset (reads (datagram_next accept) (replicate (length ps) n) ([], no_fragments, arrived)) = mset ps"
    if "mset arrived = mset (concat sents)" for arrived
  proof -
    from d(2) [OF _ that] obtain out where out: "delivered accept no_fragments arrived = Some out" "mset out = mset ps" by auto
    then have "length out = length ps" "set out = set ps" by (auto dest: mset_eq_length mset_eq_setD)
    with got [OF out(1)] out(2) assms(4) show ?thesis by simp
  qed
  moreover have "reads (datagram_next accept) (replicate (length ps) n) ([], no_fragments, concat sents) = ps"
    using got [OF d(1)] assms(4) by simp
  ultimately show ?thesis using sents(1) by blast
qed

end

end
