(* ===== verification/Session.thy ===== *)
theory Session
  imports Framing
begin

text \<open>
  The shared QUIC session of the TUIC and Hysteria2 outbounds (\<^verbatim>\<open>session\<close> and \<^verbatim>\<open>Close\<close> of
  \<^verbatim>\<open>protocol/tuic.go\<close> and \<^verbatim>\<open>protocol/hysteria2.go\<close>): callers share one session, one of them dials it
  while the others wait on a channel, an expired session is replaced and \<^verbatim>\<open>Close\<close> ends it. The two
  files hold the same code; each critical section under the mutex is one function here, and a step
  relation interleaves them with any number of callers.
\<close>

section \<open>Model\<close>

datatype session_error = Canceled_ctx | NetErrClosed | DialError

text \<open>
  \<open>q_closes\<close> records the sessions on which \<^verbatim>\<open>CloseWithError\<close> has been called; a channel is its number,
  \<open>q_chans\<close> counts the channels made.
\<close>

record qstate =
  q_sess :: "nat option"
  q_closed :: bool
  q_dialing :: "nat option"
  q_chans :: nat
  q_closes :: "nat list"

definition new_qstate :: qstate where
  "new_qstate = \<lparr>q_sess = None, q_closed = False, q_dialing = None, q_chans = 0, q_closes = []\<rparr>"

datatype enter_result = Fail session_error | UseSession nat | WaitFor nat | DialWith nat

text \<open>From the check of the context to the unlock before waiting or dialling.\<close>

definition session_enter :: "bool \<Rightarrow> (nat \<Rightarrow> bool) \<Rightarrow> qstate \<Rightarrow> enter_result \<times> qstate" where
  "session_enter ctxErr alive q =
     (if ctxErr then (Fail Canceled_ctx, q)
      else if q_closed q then (Fail NetErrClosed, q)
      else case q_sess q of
        Some s \<Rightarrow>
          (if alive s then (UseSession s, q)
           else
             (let q1 = q\<lparr>q_sess := None, q_closes := s # q_closes q\<rparr> in
              case q_dialing q1 of
                Some ch \<Rightarrow> (WaitFor ch, q1)
              | None \<Rightarrow> (DialWith (q_chans q1), q1\<lparr>q_dialing := Some (q_chans q1), q_chans := q_chans q1 + 1\<rparr>)))
      | None \<Rightarrow>
          (case q_dialing q of
             Some ch \<Rightarrow> (WaitFor ch, q)
           | None \<Rightarrow> (DialWith (q_chans q), q\<lparr>q_dialing := Some (q_chans q), q_chans := q_chans q + 1\<rparr>)))"

text \<open>The second critical section, with the result of \<^verbatim>\<open>dialSession\<close>.\<close>

definition session_finish :: "session_error + nat \<Rightarrow> qstate \<Rightarrow> (session_error + nat) \<times> qstate" where
  "session_finish r q =
     (let q1 = q\<lparr>q_dialing := None\<rparr> in
      case r of
        Inl e \<Rightarrow> (Inl e, q1)
      | Inr s \<Rightarrow>
          (if q_closed q1 then (Inl NetErrClosed, q1\<lparr>q_closes := s # q_closes q1\<rparr>)
           else (Inr s, q1\<lparr>q_sess := Some s\<rparr>)))"

definition session_Close :: "qstate \<Rightarrow> qstate" where
  "session_Close q =
     (let q1 = q\<lparr>q_closed := True\<rparr> in
      case q_sess q1 of None \<Rightarrow> q1 | Some s \<Rightarrow> q1\<lparr>q_closes := s # q_closes q1, q_sess := None\<rparr>)"

section \<open>Interleavings\<close>

text \<open>
  Where a caller of \<^verbatim>\<open>session\<close> is; \<open>dialed\<close> are the sessions established so far and \<open>expired\<close> those whose
  connection has ended by itself.
\<close>

datatype pc = Calling | WaitingOn nat | DialingOn nat | Returned "session_error + nat"

record qsys =
  st :: qstate
  pcs :: "nat \<Rightarrow> pc"
  dialed :: "nat set"
  expired :: "nat set"

definition resume :: "nat \<Rightarrow> enter_result \<Rightarrow> qsys \<Rightarrow> (nat \<Rightarrow> pc)" where
  "resume t r y = (pcs y)(t := (case r of
     Fail e \<Rightarrow> Returned (Inl e) | UseSession s \<Rightarrow> Returned (Inr s) | WaitFor ch \<Rightarrow> WaitingOn ch | DialWith ch \<Rightarrow> DialingOn ch))"

inductive qstep :: "qsys \<Rightarrow> qsys \<Rightarrow> bool" where
  enter: "pcs y t = Calling \<Longrightarrow> session_enter c (\<lambda>s. s \<notin> expired y) (st y) = (r, q) \<Longrightarrow>
    qstep y (y\<lparr>st := q, pcs := resume t r y\<rparr>)"
| wake: "pcs y t = WaitingOn ch \<Longrightarrow> q_dialing (st y) \<noteq> Some ch \<Longrightarrow> qstep y (y\<lparr>pcs := (pcs y)(t := Calling)\<rparr>)"
| give_up: "pcs y t = WaitingOn ch \<Longrightarrow> qstep y (y\<lparr>pcs := (pcs y)(t := Returned (Inl Canceled_ctx))\<rparr>)"
| dial_ok: "pcs y t = DialingOn ch \<Longrightarrow> s \<notin> dialed y \<Longrightarrow> session_finish (Inr s) (st y) = (r, q) \<Longrightarrow>
    qstep y (y\<lparr>st := q, pcs := (pcs y)(t := Returned r), dialed := insert s (dialed y)\<rparr>)"
| dial_err: "pcs y t = DialingOn ch \<Longrightarrow> session_finish (Inl e) (st y) = (r, q) \<Longrightarrow>
    qstep y (y\<lparr>st := q, pcs := (pcs y)(t := Returned r)\<rparr>)"
| close: "qstep y (y\<lparr>st := session_Close (st y)\<rparr>)"
| expire: "qstep y (y\<lparr>expired := insert s (expired y)\<rparr>)"
| call: "pcs y t = Returned r \<Longrightarrow> qstep y (y\<lparr>pcs := (pcs y)(t := Calling)\<rparr>)"

definition qinit :: qsys where
  "qinit = \<lparr>st = new_qstate, pcs = (\<lambda>_. Calling), dialed = {}, expired = {}\<rparr>"

text \<open>
  The invariant. Exactly the caller the state says is dialling, on the channel the state holds, and
  nobody dials when \<open>q_dialing\<close> is \<^verbatim>\<open>nil\<close>; while a dial runs there is no session to overwrite; a closed
  outbound has no session; and every session ever dialled is the current one or has been closed.
\<close>

definition dialers :: "(nat \<Rightarrow> pc) \<Rightarrow> (nat \<times> nat) set" where
  "dialers f = {(t, ch). f t = DialingOn ch}"

definition dialing_ok :: "(nat \<Rightarrow> pc) \<Rightarrow> nat option \<Rightarrow> bool" where
  "dialing_ok f d \<longleftrightarrow> (case d of None \<Rightarrow> dialers f = {} | Some ch \<Rightarrow> \<exists>t. dialers f = {(t, ch)})"

definition sessions_ok :: "qstate \<Rightarrow> nat set \<Rightarrow> bool" where
  "sessions_ok q made \<longleftrightarrow>
     (q_dialing q \<noteq> None \<or> q_closed q \<longrightarrow> q_sess q = None) \<and>
     made = set_option (q_sess q) \<union> set (q_closes q) \<and> set_option (q_sess q) \<inter> set (q_closes q) = {}"

definition qinv :: "qsys \<Rightarrow> bool" where
  "qinv y \<longleftrightarrow> dialing_ok (pcs y) (q_dialing (st y)) \<and> sessions_ok (st y) (dialed y)"

lemma dialers_upd:
  "dialers (f(t := x)) = (dialers f - {t} \<times> UNIV) \<union> (case x of DialingOn ch \<Rightarrow> {(t, ch)} | _ \<Rightarrow> {})"
  by (auto simp: dialers_def split: pc.splits if_splits)

lemma dialers_same: "f t \<notin> range DialingOn \<Longrightarrow> x \<notin> range DialingOn \<Longrightarrow> dialers (f(t := x)) = dialers f"
  by (auto simp: dialers_def split: if_splits)

lemma dialing_ok_same:
  "f t \<notin> range DialingOn \<Longrightarrow> x \<notin> range DialingOn \<Longrightarrow> dialing_ok (f(t := x)) d = dialing_ok f d"
  using dialers_same [of f t x] by (cases d) (simp_all add: dialing_ok_def)

lemma dialing_ok_only: "dialing_ok f d \<Longrightarrow> f t = DialingOn ch \<Longrightarrow> f u = DialingOn ch' \<Longrightarrow> t = u \<and> d = Some ch"
proof -
  assume ok: "dialing_ok f d" and "f t = DialingOn ch" "f u = DialingOn ch'"
  then have "(t, ch) \<in> dialers f" "(u, ch') \<in> dialers f" by (simp_all add: dialers_def)
  with ok show ?thesis by (cases d) (auto simp: dialing_ok_def)
qed

lemma dialing_ok_some: "dialing_ok f (Some ch) \<Longrightarrow> \<exists>t. f t = DialingOn ch"
  by (auto simp: dialing_ok_def dialers_def)

lemma dialing_ok_start: "dialing_ok f None \<Longrightarrow> dialing_ok (f(t := DialingOn ch)) (Some ch)"
  by (auto simp: dialing_ok_def dialers_upd)

lemma dialing_ok_stop: "dialing_ok f d \<Longrightarrow> f t = DialingOn ch \<Longrightarrow> dialing_ok (f(t := Returned r)) None"
proof -
  assume ok: "dialing_ok f d" and t: "f t = DialingOn ch"
  have "(t, ch) \<in> dialers f" using t by (simp add: dialers_def)
  then have "dialers f = {(t, ch)}" using ok by (cases d) (auto simp: dialing_ok_def)
  then show ?thesis by (simp add: dialing_ok_def dialers_upd)
qed

text \<open>What the first critical section can do.\<close>

lemma session_enter_cases:
  assumes "session_enter c alive q = (r, q')"
  obtains (fail) e where "r = Fail e" "q' = q"
  | (reuse) s where "r = UseSession s" "q' = q" "q_sess q = Some s" "alive s"
  | (wait) ch s' where "r = WaitFor ch" "q_dialing q = Some ch" "q' = q\<lparr>q_sess := None, q_closes := s' @ q_closes q\<rparr>"
      "set s' = set_option (q_sess q)" "\<not> q_closed q"
  | (dial) ch s' where "r = DialWith ch" "q_dialing q = None" "\<not> q_closed q"
      "q' = q\<lparr>q_sess := None, q_closes := s' @ q_closes q, q_dialing := Some ch, q_chans := Suc ch\<rparr>" "set s' = set_option (q_sess q)"
proof (cases "c \<or> q_closed q")
  case True
  with assms fail show ?thesis by (auto simp: session_enter_def split: if_splits)
next
  case open': False
  show ?thesis
  proof (cases "q_sess q")
    case None
    show ?thesis
    proof (cases "q_dialing q")
      case None': None
      with assms open' None dial [of "q_chans q" "[]"] show ?thesis by (cases q) (simp add: session_enter_def)
    next
      case (Some ch)
      with assms open' None wait [of ch "[]"] show ?thesis by (cases q) (simp add: session_enter_def)
    qed
  next
    case (Some s)
    show ?thesis
    proof (cases "alive s")
      case True
      with assms open' Some reuse [of s] show ?thesis by (auto simp: session_enter_def)
    next
      case dead: False
      then show ?thesis
        using assms open' Some wait [of _ "[s]"] dial [of "q_chans q" "[s]"]
        by (cases "q_dialing q") (auto simp: session_enter_def Let_def)
    qed
  qed
qed

lemma qinv_enter:
  assumes inv: "qinv y" and pc: "pcs y t = Calling" and e: "session_enter c alive (st y) = (r, q)"
  shows "qinv (y\<lparr>st := q, pcs := resume t r y\<rparr>)"
  using e
proof (cases rule: session_enter_cases)
  case (fail e)
  then show ?thesis using inv pc by (simp add: qinv_def resume_def dialing_ok_same image_iff)
next
  case (reuse s)
  then show ?thesis using inv pc by (simp add: qinv_def resume_def dialing_ok_same image_iff)
next
  case (wait ch s')
  have "q_sess (st y) = None" using inv wait(2) by (simp add: qinv_def sessions_ok_def)
  with wait have "q = st y" by (cases "st y") simp
  with wait(1) show ?thesis using inv pc by (simp add: qinv_def resume_def dialing_ok_same image_iff)
next
  case (dial ch s')
  have "dialing_ok (resume t r y) (Some ch)"
    using inv dial(1,2) by (simp add: qinv_def resume_def dialing_ok_start)
  moreover have "sessions_ok q (dialed y)" using inv dial by (auto simp: qinv_def sessions_ok_def)
  ultimately show ?thesis using dial(4) by (simp add: qinv_def)
qed

lemma qinv_finish:
  assumes inv: "qinv y" and pc: "pcs y t = DialingOn ch" and f: "session_finish res (st y) = (r, q)"
    and made: "made = (case res of Inl e \<Rightarrow> dialed y | Inr s \<Rightarrow> insert s (dialed y))" "\<And>s. res = Inr s \<Longrightarrow> s \<notin> dialed y"
  shows "qinv (y\<lparr>st := q, pcs := (pcs y)(t := Returned r), dialed := made\<rparr>)"
proof -
  have d: "dialing_ok ((pcs y)(t := Returned r)) None" using inv pc dialing_ok_stop [of "pcs y"] by (auto simp: qinv_def)
  have busy: "q_dialing (st y) \<noteq> None" using inv pc dialing_ok_only [of "pcs y" _ t ch t ch] by (auto simp: qinv_def)
  then have none: "q_sess (st y) = None" using inv by (simp add: qinv_def sessions_ok_def)
  show ?thesis
  proof (cases res)
    case (Inl e)
    with f have "q = (st y)\<lparr>q_dialing := None\<rparr>" by (simp add: session_finish_def)
    with Inl inv made d show ?thesis by (simp add: qinv_def sessions_ok_def)
  next
    case (Inr s)
    with f have q: "q = (if q_closed (st y) then (st y)\<lparr>q_dialing := None, q_closes := s # q_closes (st y)\<rparr>
        else (st y)\<lparr>q_dialing := None, q_sess := Some s\<rparr>)"
      by (auto simp: session_finish_def Let_def split: if_splits)
    have "sessions_ok q (insert s (dialed y))"
      using inv none made(2) [OF Inr] q by (auto simp: qinv_def sessions_ok_def)
    with Inr made(1) d q show ?thesis by (simp add: qinv_def)
  qed
qed

lemma qinv_close: "qinv y \<Longrightarrow> qinv (y\<lparr>st := session_Close (st y)\<rparr>)"
  by (auto simp: qinv_def session_Close_def sessions_ok_def Let_def split: option.splits)

lemma qinv_step: "qstep y y' \<Longrightarrow> qinv y \<Longrightarrow> qinv y'"
proof (induction rule: qstep.induct)
  case (enter y t c r q)
  show ?case by (rule qinv_enter [OF enter(3,1,2)])
next
  case (dial_ok y t ch s r q)
  show ?case using qinv_finish [OF dial_ok(4,1,3)] dial_ok(2) by auto
next
  case (dial_err y t ch e r q)
  show ?case using qinv_finish [OF dial_err(3,1,2), of "dialed y"] by (simp add: fun_upd_def)
next
  case (close y)
  then show ?case by (rule qinv_close)
qed (auto simp: qinv_def dialing_ok_same image_iff)

lemma qinv_reachable: "qstep\<^sup>*\<^sup>* qinit y \<Longrightarrow> qinv y"
proof (induction rule: rtranclp_induct)
  case base
  show ?case by (simp add: qinv_def qinit_def new_qstate_def dialing_ok_def dialers_def sessions_ok_def)
qed (rule qinv_step)

lemma closed_step: "qstep y y' \<Longrightarrow> q_closed (st y) \<Longrightarrow> q_closed (st y')"
  by (induction rule: qstep.induct)
    (auto simp: session_enter_def session_finish_def session_Close_def Let_def split: if_splits option.splits sum.splits)

lemma closed_steps: "qstep\<^sup>*\<^sup>* y y' \<Longrightarrow> q_closed (st y) \<Longrightarrow> q_closed (st y')"
  by (induction rule: rtranclp_induct) (auto dest: closed_step)

text \<open>
  C17: the shared session under any interleaving of callers, dials that succeed or fail, sessions that expire and
  calls of \<^verbatim>\<open>Close\<close>: at most one caller dials at a time, and a caller that waits does so on the channel of a
  caller that is dialling or on one that is closed already; no session leaks, that is, every session
  ever dialled is the current one or has been closed, and never both; and once the outbound is
  closed every session is closed, also one whose dial finishes later.
\<close>

theorem session_no_leak:
  assumes "qstep\<^sup>*\<^sup>* qinit y"
  shows "(pcs y t = DialingOn ch \<and> pcs y u = DialingOn ch' \<longrightarrow> t = u \<and> q_dialing (st y) = Some ch) \<and>
    (q_dialing (st y) = Some ch \<longrightarrow> (\<exists>t. pcs y t = DialingOn ch)) \<and>
    dialed y = set_option (q_sess (st y)) \<union> set (q_closes (st y)) \<and>
    set_option (q_sess (st y)) \<inter> set (q_closes (st y)) = {} \<and>
    (q_closed (st y) \<and> qstep\<^sup>*\<^sup>* y y' \<longrightarrow> dialed y' = set (q_closes (st y')))"
proof -
  have inv: "qinv y" by (rule qinv_reachable [OF assms])
  have later: "dialed y' = set (q_closes (st y'))" if "q_closed (st y)" "qstep\<^sup>*\<^sup>* y y'"
    using qinv_reachable [OF rtranclp_trans [OF assms that(2)]] closed_steps [OF that(2,1)] by (auto simp: qinv_def sessions_ok_def)
  have d: "dialing_ok (pcs y) (q_dialing (st y))" using inv by (simp add: qinv_def)
  note dialing_ok_only [OF d, of t ch u ch'] dialing_ok_some [of "pcs y" ch]
  with d inv later show ?thesis by (auto simp: qinv_def sessions_ok_def)
qed

text \<open>A run: one caller starts to dial, the outbound is closed meanwhile, and the dial succeeds.\<close>

definition dialing_example :: qsys where
  "dialing_example = qinit\<lparr>st := new_qstate\<lparr>q_closed := True, q_dialing := Some 0, q_chans := 1\<rparr>, pcs := (\<lambda>_. Calling)(5 := DialingOn 0)\<rparr>"

lemma dialing_example_reachable: "qstep\<^sup>*\<^sup>* qinit dialing_example"
proof -
  let ?y = "qinit\<lparr>st := new_qstate\<lparr>q_dialing := Some 0, q_chans := 1\<rparr>, pcs := (\<lambda>_. Calling)(5 := DialingOn 0)\<rparr>"
  have "qstep qinit ?y"
    using qstep.enter [of qinit 5 False "DialWith 0" "new_qstate\<lparr>q_dialing := Some 0, q_chans := 1\<rparr>"]
    by (simp add: qinit_def new_qstate_def session_enter_def resume_def)
  moreover have "qstep ?y dialing_example"
    using qstep.close [of ?y] by (simp add: dialing_example_def session_Close_def qinit_def new_qstate_def)
  ultimately show ?thesis by (meson converse_rtranclp_into_rtranclp rtranclp.rtrancl_refl)
qed

theorem session_no_leak_witness:
  "dialed (dialing_example\<lparr>st := snd (session_finish (Inr 7) (st dialing_example)),
     pcs := (pcs dialing_example)(5 := Returned (Inl NetErrClosed)), dialed := {7}\<rparr>) = {7} \<and>
   {7} = set (q_closes (snd (session_finish (Inr 7) (st dialing_example))))"
proof -
  let ?q = "snd (session_finish (Inr 7) (st dialing_example))"
  have "qstep dialing_example (dialing_example\<lparr>st := ?q, pcs := (pcs dialing_example)(5 := Returned (Inl NetErrClosed)), dialed := {7}\<rparr>)"
    using qstep.dial_ok [of dialing_example 5 0 7 "Inl NetErrClosed" ?q]
    by (simp add: dialing_example_def session_finish_def qinit_def new_qstate_def)
  then have "qstep\<^sup>*\<^sup>* dialing_example (dialing_example\<lparr>st := ?q, pcs := (pcs dialing_example)(5 := Returned (Inl NetErrClosed)), dialed := {7}\<rparr>)"
    by (rule r_into_rtranclp)
  moreover have "q_closed (st dialing_example)" by (simp add: dialing_example_def)
  ultimately have "dialed (dialing_example\<lparr>st := ?q, pcs := (pcs dialing_example)(5 := Returned (Inl NetErrClosed)), dialed := {7}\<rparr>) =
      set (q_closes (st (dialing_example\<lparr>st := ?q, pcs := (pcs dialing_example)(5 := Returned (Inl NetErrClosed)), dialed := {7}\<rparr>)))"
    using session_no_leak [OF dialing_example_reachable] by blast
  then show ?thesis by simp
qed

end
