(* ===== verification/TUIC.thy ===== *)
theory TUIC
  imports Model Proto_Address Fragments Session
begin

text \<open>
  The TUIC outbound (\<^verbatim>\<open>protocol/tuic.go\<close>): construction, addresses, the commands it writes and UDP
  packets over QUIC datagrams. A QUIC connection is the list of datagrams that will still arrive;
  \<open>sok\<close> says which datagrams it sends.
\<close>

section \<open>Model\<close>

record TUIC =
  tu_id :: string
  tu_server :: string
  tu_port :: nat
  tu_uuid :: bytes
  tu_uuidStr :: string
  tu_password :: string
  tu_tls :: "TLSOptions option"

definition NewTUIC :: "Node \<Rightarrow> (conn_error, TUIC) go" where
  "NewTUIC node =
     (let uuidStr = TrimSpace (auth_get (n_Auth node) ''uuid'') in
      gbind (parseUUID uuidStr) (\<lambda>uuidBytes.
      let password = auth_get (n_Auth node) ''password'' in
      if password = [] then Err (Refused ''tuic password is required'')
      else Ret \<lparr>tu_id = n_ID node, tu_server = n_Server node, tu_port = n_Port node, tu_uuid = uuidBytes,
                tu_uuidStr = uuidStr, tu_password = password, tu_tls = n_TLS node\<rparr>))"

text \<open>The server name and verification a session is dialled with.\<close>

definition tls_identity :: "string \<Rightarrow> TLSOptions option \<Rightarrow> string \<times> bool" where
  "tls_identity server tls =
     ((case tls of Some t \<Rightarrow> if t_ServerName t \<noteq> [] then t_ServerName t else server | None \<Rightarrow> server),
      (case tls of Some t \<Rightarrow> t_Insecure t | None \<Rightarrow> False))"

definition tuicAddress :: "string \<Rightarrow> (conn_error, bytes) go" where
  "tuicAddress address =
     gbind (splitAddress address) (\<lambda>(host, port).
     gbind (case ParseIP host of
              Some ip \<Rightarrow>
                (case To4 ip of
                   Some v4 \<Rightarrow> Ret ([0x01] @ v4)
                 | None \<Rightarrow> Ret ([0x02] @ To16 ip))
            | None \<Rightarrow>
                (if 255 < length host then Err (Refused ''tuic: domain name is too long'')
                 else Ret ([0x00, word_of_nat (length host)] @ bytes_of_string host)))
       (\<lambda>out. Ret (out @ put16 port)))"

definition writeAuthenticate :: "(string \<Rightarrow> bytes \<Rightarrow> bytes option) \<Rightarrow> TUIC \<Rightarrow> (bytes \<Rightarrow> bool) \<Rightarrow> (conn_error, bytes) go" where
  "writeAuthenticate exportKey t wok =
     (case exportKey (tu_uuidStr t) (bytes_of_string (tu_password t)) of
        None \<Rightarrow> Err (Refused ''tuic: export keying material'')
      | Some token \<Rightarrow> send wok [[0x05, 0x00] @ tu_uuid t @ token] [])"

definition writeTUICConnect :: "(bytes \<Rightarrow> bool) \<Rightarrow> string \<Rightarrow> (conn_error, bytes) go" where
  "writeTUICConnect wok address =
     gbind (tuicAddress address) (\<lambda>addrBytes. send wok [[0x05, 0x01] @ addrBytes] [])"

definition parseTUICAddress :: "bytes \<Rightarrow> (conn_error, string \<times> nat) go" where
  "parseTUICAddress data =
     (if length data < 1 then Err UnexpectedEOF
      else gbind (idx data 0) (\<lambda>t.
        if t = 0xFF then Ret ([], 1)
        else
          gbind
            (if t = 0x00 then
               (if length data < 2 then Err UnexpectedEOF
                else gbind (idx data 1) (\<lambda>c.
                  let n = unat c in
                  if length data < 2 + n + 2 then Err UnexpectedEOF
                  else gbind (slc data 2 (2 + n)) (\<lambda>h. Ret (string_of_bytes h, 2 + n + 2))))
             else if t = 0x01 then
               (if length data < 1 + 4 + 2 then Err UnexpectedEOF
                else gbind (slc data 1 5) (\<lambda>ip. Ret (IP_String ip, 1 + 4 + 2)))
             else if t = 0x02 then
               (if length data < 1 + 16 + 2 then Err UnexpectedEOF
                else gbind (slc data 1 17) (\<lambda>ip. Ret (IP_String ip, 1 + 16 + 2)))
             else Err (Refused ''tuic: unknown address type''))
            (\<lambda>(host, consumed).
              gbind (u16_at data (consumed - 2)) (\<lambda>port. Ret (JoinHostPort host (Itoa port), consumed)))))"

record tuicPacketHeader =
  h_assocID :: nat
  h_packetID :: nat
  h_fragTotal :: u8
  h_fragID :: u8

definition parseTUICPacket :: "bytes \<Rightarrow> (conn_error, tuicPacketHeader \<times> bytes) go" where
  "parseTUICPacket data =
     (if length data < 2 \<or> data ! 0 \<noteq> 0x05 \<or> data ! 1 \<noteq> 0x02 then Err (Refused ''tuic: invalid packet command'')
      else if length data < 10 then Err UnexpectedEOF
      else
        gbind (u16_at data 2) (\<lambda>assocID.
        gbind (u16_at data 4) (\<lambda>packetID.
        gbind (idx data 6) (\<lambda>fragTotal.
        gbind (idx data 7) (\<lambda>fragID.
        gbind (u16_at data 8) (\<lambda>sz.
        gbind
          (if fragID = 0 then
             gbind (slc data 10 (length data)) (\<lambda>rest.
             gbind (parseTUICAddress rest) (\<lambda>(_, consumed). Ret (10 + consumed)))
           else if length data < 11 then Err UnexpectedEOF
           else gbind (idx data 10) (\<lambda>t.
             if t \<noteq> 0xFF then Err (Refused ''tuic: non-first fragment must use address type none'') else Ret 11))
          (\<lambda>addrEnd.
            let payloadEnd = addrEnd + sz in
            if length data < payloadEnd then Err UnexpectedEOF
            else gbind (slc data addrEnd payloadEnd) (\<lambda>payload.
              Ret (\<lparr>h_assocID = assocID, h_packetID = packetID, h_fragTotal = fragTotal, h_fragID = fragID\<rparr>, payload)))))))))"

record tuicUDPConn =
  tc_assocID :: u16
  tc_target :: string
  tc_packetID :: u16

definition sendPacket :: "tuicUDPConn \<Rightarrow> u16 \<Rightarrow> u8 \<Rightarrow> u8 \<Rightarrow> bytes \<Rightarrow> (conn_error, bytes) go" where
  "sendPacket c packetID fragID fragTotal payload =
     (let buf = [0x05, 0x02] @ put16 (unat (tc_assocID c)) @ put16 (unat packetID) @ [fragTotal, fragID] @ put16 (length payload) in
      gbind (if fragID = 0 then tuicAddress (tc_target c) else Ret [0xFF]) (\<lambda>addrBytes.
        Ret (buf @ addrBytes @ payload)))"

definition tuicUDP_Write :: "(bytes \<Rightarrow> bool) \<Rightarrow> bytes \<Rightarrow> tuicUDPConn \<Rightarrow>
   (unit, (nat \<times> conn_error option) \<times> bytes list) go \<times> tuicUDPConn" where
  "tuicUDP_Write sok p c =
     (if length p = 0 then (Ret ((0, None), []), c)
      else
        (let c1 = c\<lparr>tc_packetID := tc_packetID c + 1\<rparr>;
             chunkSize = 1200 - 13 - int (length (tc_target c1)) in
         (write_fragments (\<lambda>i n x. sendPacket c1 (tc_packetID c1) (word_of_nat i) (word_of_nat n) x) sok chunkSize p, c1)))"

definition tuic_handleIncomingDatagram :: "u16 \<Rightarrow> bytes \<Rightarrow> frag_state \<Rightarrow> (conn_error, bytes option \<times> frag_state) go" where
  "tuic_handleIncomingDatagram assocID data fs =
     gtry (parseTUICPacket data) (\<lambda>_. Ret (None, fs)) (\<lambda>(header, payload).
       if h_assocID header \<noteq> unat assocID \<or> h_fragTotal header = 0 then Ret (None, fs)
       else if h_fragTotal header = 1 then Ret (Some payload, fs)
       else Ret (frag_accept (h_packetID header) (unat (h_fragTotal header)) (unat (h_fragID header)) payload fs))"

definition tuicUDP_Read :: "u16 \<Rightarrow> nat \<Rightarrow> bytes \<times> frag_state \<times> bytes list \<Rightarrow> (conn_error, bytes \<times> bytes \<times> frag_state \<times> bytes list) go" where
  "tuicUDP_Read assocID = buffered_read (datagram_next (tuic_handleIncomingDatagram assocID))"

section \<open>Lemmas\<close>

lemma tuicAddress_np [simp, np_rules]: "tuicAddress a \<noteq> Panic"
  by (auto simp: tuicAddress_def split: option.splits)

lemma parseTUICAddress_np [simp, np_rules]: "parseTUICAddress data \<noteq> Panic"
  by (auto simp: parseTUICAddress_def Let_def not_less split: if_splits)

lemma parseTUICAddress_le: "parseTUICAddress data = Ret (h, n) \<Longrightarrow> n \<le> length data"
  by (auto simp: parseTUICAddress_def Let_def Suc_le_eq split: if_splits)

lemma parseTUICPacket_np [simp, np_rules]: "parseTUICPacket data \<noteq> Panic"
  by (auto simp: parseTUICPacket_def Let_def not_less split: if_splits)

text \<open>An address that was written parses, whatever follows it, and prints in canonical form.\<close>

lemma parseTUICAddress_enc:
  assumes "tuicAddress a = Ret b" "splitAddress a = Ret (host, port)"
  shows "parseTUICAddress (b @ rest) = Ret (JoinHostPort (canonical_host host) (Itoa port), length b)"
proof -
  have port: "port mod 65536 = port" using splitAddress_range [OF assms(2)] by simp
  show ?thesis
  proof (cases rule: ParseIP_cases [of host])
    case (v4 ip v)
    then have "IP_String v = IP_String ip" by (simp add: IP_String_def To4_def)
    with v4 assms port show ?thesis
      by (auto simp: tuicAddress_def parseTUICAddress_def canonical_host_def u16_at_def slc_def)
  next
    case (v6 ip)
    with assms port show ?thesis by (auto simp: tuicAddress_def parseTUICAddress_def canonical_host_def u16_at_def slc_def)
  next
    case name
    with assms have b: "b = [0, word_of_nat (length host)] @ bytes_of_string host @ put16 port" "length host \<le> 255"
      by (auto simp: tuicAddress_def split: if_splits)
    then have "length host mod 256 = length host" by simp
    with name b port show ?thesis
      by (simp add: parseTUICAddress_def canonical_host_def u16_at_def slc_def Let_def)
  qed
qed

lemma tuicAddress_split: "tuicAddress a = Ret b \<Longrightarrow> \<exists>host port. splitAddress a = Ret (host, port)"
  by (auto simp: tuicAddress_def)

lemma parse_sendPacket:
  assumes "sendPacket c packetID fragID fragTotal payload = Ret d" "length payload \<le> 65535"
  shows "parseTUICPacket d =
    Ret (\<lparr>h_assocID = unat (tc_assocID c), h_packetID = unat packetID, h_fragTotal = fragTotal, h_fragID = fragID\<rparr>, payload)"
proof -
  from assms(1) obtain ab where ab: "(if fragID = 0 then tuicAddress (tc_target c) else Ret [0xFF]) = Ret ab"
    and d: "d = [0x05, 0x02] @ put16 (unat (tc_assocID c)) @ put16 (unat packetID) @ [fragTotal, fragID] @ put16 (length payload) @ ab @ payload"
    by (auto simp: sendPacket_def Let_def)
  have ids: "unat (w :: u16) mod 65536 = unat w" for w using unsigned_less [of w, where ?'a = nat] by simp
  have wd: "be16 (word_of_nat (unat w div 256)) (ucast w) = unat w" for w :: u16
    using be16_put16 [of "unat w"] ids [of w] by simp
  have len: "length payload mod 65536 = length payload" using assms(2) by simp
  have head: "u16_at d 2 = (Ret (unat (tc_assocID c)) :: (conn_error, nat) go)" "u16_at d 4 = (Ret (unat packetID) :: (conn_error, nat) go)"
    "u16_at d 8 = (Ret (length payload) :: (conn_error, nat) go)" "d ! 0 = 5" "d ! 1 = 2" "d ! 6 = fragTotal" "d ! 7 = fragID"
    "length d = 10 + length ab + length payload" "drop 10 d = ab @ payload"
    by (simp_all add: d u16_at_def slc_def len put16_def wd)
  show ?thesis
  proof (cases "fragID = 0")
    case True
    then obtain h p where "splitAddress (tc_target c) = Ret (h, p)" using ab tuicAddress_split by fastforce
    with parseTUICAddress_enc [of "tc_target c" ab h p payload] ab True
    have "parseTUICAddress (ab @ payload) = Ret (JoinHostPort (canonical_host h) (Itoa p), length ab)" by simp
    moreover have "drop (length ab + 10) d = payload" unfolding drop_drop [symmetric] head(9) by simp
    then have "drop (10 + length ab) d = payload" by (simp only: add.commute)
    ultimately show ?thesis using head True by (simp add: parseTUICPacket_def Let_def)
  next
    case False
    then have "ab = [0xFF]" using ab by simp
    moreover from this have "d ! 10 = 0xFF" by (simp add: d put16_def)
    moreover from \<open>ab = [0xFF]\<close> have "drop 11 d = payload" by (simp add: d put16_def)
    ultimately show ?thesis using head False by (simp add: parseTUICPacket_def Let_def)
  qed
qed

definition tuic_carries :: "u16 \<Rightarrow> bytes \<Rightarrow> nat \<Rightarrow> nat \<Rightarrow> nat \<Rightarrow> bytes \<Rightarrow> bool" where
  "tuic_carries assocID d p n i x \<longleftrightarrow> i < n \<and> n \<le> 255 \<and> length x \<le> 65535 \<and>
     (\<exists>c w. tc_assocID c = assocID \<and> unat w = p \<and> sendPacket c w (word_of_nat i) (word_of_nat n) x = Ret d)"

lemma word_of_nat_eq_1: "n \<le> 255 \<Longrightarrow> (word_of_nat n :: u8) = 1 \<longleftrightarrow> n = 1"
proof -
  assume "n \<le> 255"
  then have "unat (word_of_nat n :: u8) = n" by (simp add: unat_of_nat)
  then show ?thesis by (metis unat_1 of_nat_1)
qed

lemma tuic_accept:
  assumes "tuic_carries a d p n i x"
  shows "tuic_handleIncomingDatagram a d fs = (if n = 1 then Ret (Some x, fs) else Ret (frag_accept p n i x fs))"
proof -
  from assms obtain c w where c: "i < n" "n \<le> 255" "tc_assocID c = a" "unat w = p"
    "length x \<le> 65535" "sendPacket c w (word_of_nat i) (word_of_nat n) x = Ret d"
    by (auto simp: tuic_carries_def)
  have d: "parseTUICPacket d = Ret (\<lparr>h_assocID = unat a, h_packetID = p, h_fragTotal = word_of_nat n, h_fragID = word_of_nat i\<rparr>, x)"
    using parse_sendPacket [OF c(6,5)] c(3,4) by simp
  have "unat (word_of_nat n :: u8) = n" "unat (word_of_nat i :: u8) = i" using c(1,2) by (simp_all add: unat_of_nat)
  moreover have "(word_of_nat n :: u8) = 1 \<longleftrightarrow> n = 1" "(word_of_nat n :: u8) \<noteq> 0"
    using c(1,2) by (auto simp: word_of_nat_eq_0_iff word_of_nat_eq_1 dest: dvd_imp_le)
  ultimately show ?thesis using d by (simp add: tuic_handleIncomingDatagram_def)
qed

interpretation tuic: datagram_link "tuic_handleIncomingDatagram a" "tuic_carries a" for a
  by unfold_locales (simp_all add: tuic_accept)

section \<open>Properties\<close>

text \<open>The chunk size of a connection, and the packets it can send.\<close>

abbreviation tuic_chunk :: "string \<Rightarrow> nat" where
  "tuic_chunk target' \<equiv> 1187 - length target'"

lemma sendPacket_ok:
  assumes "tuicAddress (tc_target c) = Ret b"
  shows "\<exists>d. sendPacket c w i n x = Ret d"
  using assms by (cases "i = 0") (simp_all add: sendPacket_def)

definition tuic_ready :: "u16 \<Rightarrow> string \<Rightarrow> tuicUDPConn \<Rightarrow> u16 \<Rightarrow> bool" where
  "tuic_ready assocID address c w \<longleftrightarrow> tc_assocID c = assocID \<and> tc_target c = address \<and> tc_packetID c = w \<and>
     length address < 1187 \<and> (\<exists>b. tuicAddress address = Ret b)"

lemma tuic_write:
  assumes ready: "tuic_ready a address c w" and p: "fits_datagrams (tuic_chunk address) p"
  shows "\<exists>ds c'. tuicUDP_Write (\<lambda>_. True) p c = (Ret ((length p, None), ds), c') \<and> tuic_ready a address c' (w + 1) \<and>
    is_cut (tuic_carries a) (tuic_chunk address) (unat (w + 1)) p ds"
proof -
  let ?c = "c\<lparr>tc_packetID := w + 1\<rparr>" and ?sz = "tuic_chunk address"
  let ?cs = "chunks ?sz p"
  obtain b where c: "tc_assocID c = a" "tc_target c = address" "tc_packetID c = w" "length address < 1187" "tuicAddress address = Ret b"
    using ready by (auto simp: tuic_ready_def)
  have sz: "0 < ?sz" "int ?sz = 1200 - 13 - int (length address)" using c(4) by auto
  have ne: "p \<noteq> []" "length ?cs \<le> 255" using p by (simp_all add: fits_datagrams_def del: length_chunks)
  have "\<forall>i. \<exists>d. sendPacket ?c (w + 1) (word_of_nat i) (word_of_nat (length ?cs)) (?cs ! i) = Ret d"
    using sendPacket_ok [of ?c b] c by simp
  then obtain dat where dat: "\<And>i. sendPacket ?c (w + 1) (word_of_nat i) (word_of_nat (length ?cs)) (?cs ! i) = Ret (dat i)"
    by metis
  have "write_fragments (\<lambda>i n x. sendPacket ?c (w + 1) (word_of_nat i) (word_of_nat n) x) (\<lambda>_. True) (int ?sz) p =
      Ret ((length p, None), map dat [0..<length ?cs])"
    by (rule write_fragments_all [OF sz(1) ne]) (simp_all add: dat del: length_chunks)
  then have "tuicUDP_Write (\<lambda>_. True) p c = (Ret ((length p, None), map dat [0..<length ?cs]), ?c)"
    using ne(1) sz(2) c by (simp add: tuicUDP_Write_def Let_def del: length_chunks of_nat_diff)
  moreover have "tuic_carries a (dat i) (unat (w + 1)) (length ?cs) i (?cs ! i)" if "i < length ?cs" for i
  proof -
    have "length (?cs ! i) \<le> ?sz" using chunks_nonempty [OF sz(1)] nth_mem [OF that] by blast
    then have "length (?cs ! i) \<le> 65535" by linarith
    then show ?thesis unfolding tuic_carries_def using that ne(2) dat [of i] c(1) by (auto intro!: exI [of _ ?c])
  qed
  moreover have "tuic_ready a address ?c (w + 1)" using ready by (simp add: tuic_ready_def)
  ultimately show ?thesis by (auto simp: is_cut_def simp del: length_chunks)
qed

interpretation tuic_udp: datagram_conn "tuic_handleIncomingDatagram a" "tuic_carries a" "tuicUDP_Write (\<lambda>_. True)" "tuic_chunk address" "tuic_ready a address"
  for a address
  by unfold_locales (simp_all add: tuic_write, simp add: tuic_ready_def)

text \<open>
  C38: UDP packets through a TUIC connection survive fragmentation: if the destination can be encoded
  and each packet needs at most 255 datagrams, every write succeeds, and a reader whose buffer is
  large enough gets exactly the packets that were written, in order when the datagrams arrive in
  order, and all of them, each complete and once, however the network permutes the datagrams of
  up to 65536 packets.
\<close>

theorem tuicUDP_delivers:
  assumes "tuicAddress address = Ret b" "length address < 1187" "list_all (fits_datagrams (1187 - length address)) ps"
    and "length ps \<le> 65536" "\<forall>p\<in>set ps. length p \<le> n"
  shows "\<exists>sents. write_all (tuicUDP_Write (\<lambda>_. True)) ps \<lparr>tc_assocID = a, tc_target = address, tc_packetID = w\<rparr> =
      Ret (zip (map (\<lambda>p. (length p, None)) ps) sents) \<and>
    reads (datagram_next (tuic_handleIncomingDatagram a)) (replicate (length ps) n) ([], no_fragments, concat sents) = ps \<and>
    (\<forall>arrived. mset arrived = mset (concat sents) \<longrightarrow>
       mset (reads (datagram_next (tuic_handleIncomingDatagram a)) (replicate (length ps) n) ([], no_fragments, arrived)) = mset ps)"
proof -
  have "tuic_ready a address \<lparr>tc_assocID = a, tc_target = address, tc_packetID = w\<rparr> w" using assms(1,2) by (simp add: tuic_ready_def)
  from tuic_udp.delivers_all [OF this assms(3-5)] show ?thesis .
qed

theorem tuicUDP_delivers_witness:
  "\<exists>sents. write_all (tuicUDP_Write (\<lambda>_. True)) [[1, 2], [3]] \<lparr>tc_assocID = 5, tc_target = ''1.2.3.4:53'', tc_packetID = 0xFFFF\<rparr> =
      Ret (zip [(2, None), (1, None)] sents) \<and>
    mset (reads (datagram_next (tuic_handleIncomingDatagram 5)) [9, 9] ([], no_fragments, List.rev (concat sents))) = mset [[1, 2], [3]]"
proof -
  let ?ps = "[[1, 2], [3]] :: bytes list"
  have a: "tuicAddress ''1.2.3.4:53'' = Ret [1, 1, 2, 3, 4, 0, 53]" "length ''1.2.3.4:53'' < 1187" by code_simp simp
  have f: "list_all (fits_datagrams (1187 - length ''1.2.3.4:53'')) ?ps" by (simp add: fits_datagrams_def)
  have le: "length ?ps \<le> 65536" "\<forall>p\<in>set ?ps. length p \<le> 9" by simp_all
  have r: "replicate (length ?ps) 9 = [9, 9 :: nat]" "map (\<lambda>p. (length p, None)) ?ps = [(2, None), (1, None)]" by simp_all
  from tuicUDP_delivers [OF a f le, of 5 "0xFFFF"] obtain sents where
    "write_all (tuicUDP_Write (\<lambda>_. True)) ?ps \<lparr>tc_assocID = 5, tc_target = ''1.2.3.4:53'', tc_packetID = 0xFFFF\<rparr> =
      Ret (zip [(2, None), (1, None)] sents)"
    "\<forall>arrived. mset arrived = mset (concat sents) \<longrightarrow>
       mset (reads (datagram_next (tuic_handleIncomingDatagram 5)) [9, 9] ([], no_fragments, arrived)) = mset ?ps"
    unfolding r by blast
  then show ?thesis using mset_rev [of "concat sents"] by blast
qed

end
