(* ===== verification/Hysteria2.thy ===== *)
theory Hysteria2
  imports TUIC
begin

text \<open>
  The Hysteria2 outbound (\<^verbatim>\<open>protocol/hysteria2.go\<close>, \<^verbatim>\<open>protocol/hysteria2_salamander.go\<close>): construction,
  the TCP handshake, UDP packets over QUIC datagrams and the Salamander packet transform. The fields of
  \<open>varint\<close> stand for the package \<^verbatim>\<open>quicvarint\<close> of quic-go, \<open>blake2b\<close> for \<^verbatim>\<open>blake2b.Sum256\<close>.
\<close>

section \<open>Model\<close>

record varint =
  v_Append :: "nat \<Rightarrow> bytes"
  v_Len :: "nat \<Rightarrow> nat"
  v_Parse :: "bytes \<Rightarrow> (conn_error, nat \<times> nat) go"
  v_Read :: "bytes \<Rightarrow> (conn_error, nat \<times> bytes) go"

record Hysteria2 =
  hy_id :: string
  hy_server :: string
  hy_port :: nat
  hy_password :: string
  hy_obfsPassword :: string
  hy_tls :: "TLSOptions option"

definition NewHysteria2 :: "Node \<Rightarrow> (conn_error, Hysteria2) go" where
  "NewHysteria2 node =
     (let password = auth_get (n_Auth node) ''password'' in
      if password = [] then Err (Refused ''hysteria2 password is required'')
      else Ret \<lparr>hy_id = n_ID node, hy_server = n_Server node, hy_port = n_Port node, hy_password = password,
                hy_obfsPassword = auth_get (n_Auth node) ''obfs_password'', hy_tls = n_TLS node\<rparr>)"

text \<open>\<open>pad\<close> are the random bytes of the padding, \<open>status\<close> the answer of the server or \<open>None\<close> when the request fails.\<close>

definition randomPadding :: "nat \<Rightarrow> nat \<Rightarrow> nat option \<Rightarrow> (nat \<Rightarrow> u8) \<Rightarrow> string" where
  "randomPadding mn mx rand16 rand =
     (let n = (if mn < mx then (case rand16 of Some r \<Rightarrow> mn + r mod (mx - mn + 1) | None \<Rightarrow> mn) else mn) in
      map (\<lambda>i. char_of (97 + unat (rand i) mod 26)) [0..<n])"

definition hysteria2_auth_headers :: "string \<Rightarrow> string \<Rightarrow> (string \<times> string) list" where
  "hysteria2_auth_headers password padding =
     [(''Hysteria-Auth'', password), (''Hysteria-CC-RX'', ''0''), (''Hysteria-Padding'', padding)]"

definition hysteria2Auth :: "((string \<times> string) list \<Rightarrow> nat option) \<Rightarrow> string \<Rightarrow> string \<Rightarrow> (conn_error, unit) go" where
  "hysteria2Auth roundTrip password padding =
     (case roundTrip (hysteria2_auth_headers password padding) of
        None \<Rightarrow> Err (Refused ''hysteria2: auth request'')
      | Some status \<Rightarrow> if status \<noteq> 233 then Err (Refused ''hysteria2: authentication rejected'') else Ret ())"

definition writeHysteria2TCPRequest :: "varint \<Rightarrow> (bytes \<Rightarrow> bool) \<Rightarrow> string \<Rightarrow> (conn_error, bytes) go" where
  "writeHysteria2TCPRequest v wok address =
     send wok [v_Append v 0x401 @ v_Append v (length address) @ bytes_of_string address @ v_Append v 0] []"

definition skip_block :: "nat \<Rightarrow> bytes \<Rightarrow> (conn_error, bytes) go" where
  "skip_block n r = (if 0 < n then Discard n r else Ret r)"

definition readHysteria2TCPResponse :: "varint \<Rightarrow> bytes \<Rightarrow> (conn_error, bytes) go" where
  "readHysteria2TCPResponse v r =
     gbind (ReadFull 1 r) (\<lambda>(status, r1).
     gbind (idx status 0) (\<lambda>s.
       if s \<noteq> 0x00 then
         gbind (v_Read v r1) (\<lambda>(msgLen, r2).
         gbind (skip_block msgLen r2) (\<lambda>_. Err (Refused ''hysteria2: tcp connect failed'')))
       else
         gbind (v_Read v r1) (\<lambda>(msgLen, r2).
         gbind (skip_block msgLen r2) (\<lambda>r3.
         gbind (v_Read v r3) (\<lambda>(paddingLen, r4).
         skip_block paddingLen r4)))))"

record hysteria2UDPHeader =
  u_sessionID :: nat
  u_packetID :: nat
  u_fragmentID :: u8
  u_fragmentCount :: u8

definition parseHysteria2UDPMessage :: "varint \<Rightarrow> bytes \<Rightarrow> (conn_error, hysteria2UDPHeader \<times> bytes \<times> bytes) go" where
  "parseHysteria2UDPMessage v data =
     (if length data < 8 then Err UnexpectedEOF
      else
        gbind (u32_at data 0) (\<lambda>sessionID.
        gbind (u16_at data 4) (\<lambda>packetID.
        gbind (idx data 6) (\<lambda>fragmentID.
        gbind (idx data 7) (\<lambda>fragmentCount.
        gbind (slc data 8 (length data)) (\<lambda>rest.
        gbind (v_Parse v rest) (\<lambda>(addrLen, consumed).
          let addrStart = 8 + consumed; addrEnd = addrStart + addrLen in
          if length data < addrEnd then Err UnexpectedEOF
          else
            gbind (slc data addrStart addrEnd) (\<lambda>addr.
            gbind (slc data addrEnd (length data)) (\<lambda>payload.
              Ret (\<lparr>u_sessionID = sessionID, u_packetID = packetID, u_fragmentID = fragmentID, u_fragmentCount = fragmentCount\<rparr>,
                   addr, payload))))))))))"

record hysteria2UDPConn =
  hc_sessionID :: u32
  hc_target :: string
  hc_packetID :: u32

definition sendDatagram :: "varint \<Rightarrow> hysteria2UDPConn \<Rightarrow> u16 \<Rightarrow> u8 \<Rightarrow> u8 \<Rightarrow> bytes \<Rightarrow> bytes" where
  "sendDatagram v c packetID fragmentID fragmentCount payload =
     put32 (unat (hc_sessionID c)) @ put16 (unat packetID) @ [fragmentID, fragmentCount] @
     v_Append v (length (hc_target c)) @ bytes_of_string (hc_target c) @ payload"

definition hysteria2UDP_Write :: "varint \<Rightarrow> (bytes \<Rightarrow> bool) \<Rightarrow> bytes \<Rightarrow> hysteria2UDPConn \<Rightarrow>
   (unit, (nat \<times> conn_error option) \<times> bytes list) go \<times> hysteria2UDPConn" where
  "hysteria2UDP_Write v sok p c =
     (if length p = 0 then (Ret ((0, None), []), c)
      else
        (let c1 = c\<lparr>hc_packetID := hc_packetID c + 1\<rparr>; packetID = ucast (hc_packetID c1);
             chunkSize = 1200 - 24 - int (length (hc_target c1)) - int (v_Len v (length (hc_target c1))) in
         (write_fragments (\<lambda>i n x. Ret (sendDatagram v c1 packetID (word_of_nat i) (word_of_nat n) x)) sok chunkSize p, c1)))"

definition hysteria2_handleIncomingDatagram :: "varint \<Rightarrow> u32 \<Rightarrow> bytes \<Rightarrow> frag_state \<Rightarrow> (conn_error, bytes option \<times> frag_state) go" where
  "hysteria2_handleIncomingDatagram v sessionID data fs =
     gtry (parseHysteria2UDPMessage v data) (\<lambda>_. Ret (None, fs)) (\<lambda>(header, addrBytes, payload).
       if u_sessionID header \<noteq> unat sessionID then Ret (None, fs)
       else if u_fragmentCount header \<le> 1 then Ret (Some payload, fs)
       else Ret (frag_accept (u_packetID header) (unat (u_fragmentCount header)) (unat (u_fragmentID header)) payload fs))"

definition hysteria2UDP_Read :: "varint \<Rightarrow> u32 \<Rightarrow> nat \<Rightarrow> bytes \<times> frag_state \<times> bytes list \<Rightarrow> (conn_error, bytes \<times> bytes \<times> frag_state \<times> bytes list) go" where
  "hysteria2UDP_Read v sessionID = buffered_read (datagram_next (hysteria2_handleIncomingDatagram v sessionID))"

text \<open>The session operations of this outbound are those of \<open>Session\<close>.\<close>

definition hysteria2_session_enter :: "bool \<Rightarrow> (nat \<Rightarrow> bool) \<Rightarrow> qstate \<Rightarrow> enter_result \<times> qstate" where
  "hysteria2_session_enter = session_enter"

definition hysteria2_session_finish :: "session_error + nat \<Rightarrow> qstate \<Rightarrow> (session_error + nat) \<times> qstate" where
  "hysteria2_session_finish = session_finish"

definition hysteria2_Close :: "qstate \<Rightarrow> qstate" where
  "hysteria2_Close = session_Close"

section \<open>Salamander\<close>

definition salamanderKey :: "(bytes \<Rightarrow> bytes) \<Rightarrow> bytes \<Rightarrow> bytes \<Rightarrow> bytes" where
  "salamanderKey blake2b password salt = blake2b (password @ salt)"

definition xor_key :: "bytes \<Rightarrow> bytes \<Rightarrow> bytes" where
  "xor_key key p = map (\<lambda>i. p ! i XOR key ! (i mod length key)) [0..<length p]"

definition newSalamanderPacketConn :: "bool \<Rightarrow> string \<Rightarrow> (conn_error, bytes) go" where
  "newSalamanderPacketConn connNil password =
     (if connNil then Err (Refused ''hysteria2 salamander: packet connection is nil'')
      else if password = [] then Err (Refused ''hysteria2 salamander: password is required'')
      else Ret (bytes_of_string password))"

text \<open>\<open>salt\<close> are the eight random bytes, \<open>None\<close> when the generator fails; \<open>wr\<close> is the socket's \<^verbatim>\<open>WriteTo\<close>.\<close>

definition salamander_WriteTo :: "(bytes \<Rightarrow> bytes) \<Rightarrow> bytes \<Rightarrow> bytes option \<Rightarrow> (bytes \<Rightarrow> (conn_error, nat) go) \<Rightarrow> bytes \<Rightarrow> (conn_error, nat \<times> bytes) go" where
  "salamander_WriteTo blake2b password salt wr p =
     (case salt of
        None \<Rightarrow> Err (Refused ''hysteria2 salamander: generate salt'')
      | Some s \<Rightarrow>
          (let packet = s @ xor_key (salamanderKey blake2b password s) p in
           gbind (wr packet) (\<lambda>n. if n \<noteq> length packet then Err (Refused ''short write'') else Ret (length p, packet))))"

text \<open>Packets that are not longer than a salt are skipped; a packet that does not fit the buffer is cut by the socket.\<close>

fun salamander_ReadFrom :: "(bytes \<Rightarrow> bytes) \<Rightarrow> bytes \<Rightarrow> nat \<Rightarrow> bytes list \<Rightarrow> (conn_error, bytes \<times> bytes list) go" where
  "salamander_ReadFrom blake2b password n [] = (if n = 0 then Ret ([], []) else Err EOF)"
| "salamander_ReadFrom blake2b password n (d # ds) =
     (if n = 0 then Ret ([], d # ds)
      else
        (let packet = take (n + 8) d in
         if length packet \<le> 8 then salamander_ReadFrom blake2b password n ds
         else Ret (xor_key (salamanderKey blake2b password (take 8 packet)) (drop 8 packet), ds)))"

section \<open>Lemmas\<close>

text \<open>What the code relies on from the variable-length integers: what is appended is read back, whatever follows.\<close>

definition varint_ok :: "varint \<Rightarrow> nat \<Rightarrow> bool" where
  "varint_ok v n \<longleftrightarrow> (\<forall>rest. v_Parse v (v_Append v n @ rest) = Ret (n, length (v_Append v n)) \<and> v_Read v (v_Append v n @ rest) = Ret (n, rest))"

lemma varint_okD: "varint_ok v n \<Longrightarrow> v_Parse v (v_Append v n @ rest) = Ret (n, length (v_Append v n))"
  "varint_ok v n \<Longrightarrow> v_Read v (v_Append v n @ rest) = Ret (n, rest)"
  by (simp_all add: varint_ok_def)

lemma parse_sendDatagram:
  assumes "varint_ok v (length (hc_target c))"
  shows "parseHysteria2UDPMessage v (sendDatagram v c packetID fragmentID fragmentCount payload) =
    Ret (\<lparr>u_sessionID = unat (hc_sessionID c), u_packetID = unat packetID, u_fragmentID = fragmentID, u_fragmentCount = fragmentCount\<rparr>,
      bytes_of_string (hc_target c), payload)"
proof -
  let ?t = "bytes_of_string (hc_target c)" and ?v = "v_Append v (length (hc_target c))"
  let ?d = "sendDatagram v c packetID fragmentID fragmentCount payload"
  have ids: "unat (hc_sessionID c) mod 4294967296 = unat (hc_sessionID c)" "unat packetID mod 65536 = unat packetID"
    using unsigned_less [of "hc_sessionID c", where ?'a = nat] unsigned_less [of packetID, where ?'a = nat] by simp_all
  have p32: "take 4 (put32 n @ rest) = put32 n" "drop 4 (put32 n @ rest) = rest" "length (put32 n) = 4" for n rest
    by (simp_all add: put32_def)
  have head: "u32_at ?d 0 = (Ret (unat (hc_sessionID c)) :: (conn_error, nat) go)" "u16_at ?d 4 = (Ret (unat packetID) :: (conn_error, nat) go)"
    unfolding sendDatagram_def using ids Uint32_put32 [of "unat (hc_sessionID c)" "[]"]
    by (simp_all add: u32_at_def u16_at_def slc_def p32)
  have bytes: "?d ! 6 = fragmentID" "?d ! 7 = fragmentCount"
    unfolding sendDatagram_def by (simp_all add: nth_append p32)
  have d8: "drop 8 ?d = ?v @ ?t @ payload" unfolding sendDatagram_def by (simp add: p32)
  have len: "length ?d = 8 + length ?v + length ?t + length payload" unfolding sendDatagram_def by (simp add: p32)
  have tail: "drop (length ?v + 8) ?d = ?t @ payload" "drop (length ?t + (length ?v + 8)) ?d = payload"
    unfolding drop_drop [symmetric] d8 by simp_all
  show ?thesis
    unfolding parseHysteria2UDPMessage_def
    using assms head bytes len tail by (simp add: d8 varint_okD Let_def add.commute add.left_commute)
qed

text \<open>The size of the pieces a connection cuts a packet into.\<close>

abbreviation hysteria2_chunk :: "varint \<Rightarrow> string \<Rightarrow> nat" where
  "hysteria2_chunk v address \<equiv> 1176 - (length address + v_Len v (length address))"

definition hysteria2_carries :: "varint \<Rightarrow> u32 \<Rightarrow> bytes \<Rightarrow> nat \<Rightarrow> nat \<Rightarrow> nat \<Rightarrow> bytes \<Rightarrow> bool" where
  "hysteria2_carries v sessionID d p n i x \<longleftrightarrow> i < n \<and> n \<le> 255 \<and>
     (\<exists>c w. hc_sessionID c = sessionID \<and> varint_ok v (length (hc_target c)) \<and> unat w = p \<and>
        d = sendDatagram v c w (word_of_nat i) (word_of_nat n) x)"

lemma hysteria2_accept:
  assumes "hysteria2_carries v a d p n i x"
  shows "hysteria2_handleIncomingDatagram v a d fs = (if n = 1 then Ret (Some x, fs) else Ret (frag_accept p n i x fs))"
proof -
  from assms obtain c w where c: "i < n" "n \<le> 255" "hc_sessionID c = a" "varint_ok v (length (hc_target c))" "unat w = p"
    "d = sendDatagram v c w (word_of_nat i) (word_of_nat n) x" by (auto simp: hysteria2_carries_def)
  have u: "unat (word_of_nat n :: u8) = n" "unat (word_of_nat i :: u8) = i" using c(1,2) by (simp_all add: unat_of_nat)
  then have "(word_of_nat n :: u8) \<le> 1 \<longleftrightarrow> n = 1" using c(1) by (auto simp: word_le_nat_alt)
  then show ?thesis using c u parse_sendDatagram [OF c(4)] by (simp add: hysteria2_handleIncomingDatagram_def)
qed

interpretation hysteria2: datagram_link "hysteria2_handleIncomingDatagram v a" "hysteria2_carries v a" for v a
  by unfold_locales (simp_all add: hysteria2_accept)

lemma ucast_Suc: "(ucast (x + 1 :: u32) :: u16) = ucast x + 1"
proof transfer
  fix x :: int
  have "x mod 4294967296 mod 65536 = x mod 65536" by (rule mod_mod_cancel) simp
  then have "(x mod 4294967296 + 1) mod 65536 = (x + 1) mod 65536" by (metis mod_add_left_eq)
  then show "take_bit LENGTH(16) (take_bit LENGTH(32) (x + 1)) = take_bit LENGTH(16) (take_bit LENGTH(32) x + 1)"
    by (simp add: take_bit_eq_mod mod_mod_cancel)
qed

definition hysteria2_ready :: "varint \<Rightarrow> u32 \<Rightarrow> string \<Rightarrow> hysteria2UDPConn \<Rightarrow> u16 \<Rightarrow> bool" where
  "hysteria2_ready v a address c w \<longleftrightarrow> hc_sessionID c = a \<and> hc_target c = address \<and> ucast (hc_packetID c) = w \<and>
     length address + v_Len v (length address) < 1176 \<and> varint_ok v (length address)"

lemma hysteria2_write:
  assumes ready: "hysteria2_ready v a address c w" and p: "fits_datagrams (hysteria2_chunk v address) p"
  shows "\<exists>ds c'. hysteria2UDP_Write v (\<lambda>_. True) p c = (Ret ((length p, None), ds), c') \<and> hysteria2_ready v a address c' (w + 1) \<and>
    is_cut (hysteria2_carries v a) (hysteria2_chunk v address) (unat (w + 1)) p ds"
proof -
  let ?c = "c\<lparr>hc_packetID := hc_packetID c + 1\<rparr>" and ?sz = "hysteria2_chunk v address"
  let ?cs = "chunks ?sz p"
  let ?dat = "\<lambda>i. sendDatagram v ?c (w + 1) (word_of_nat i) (word_of_nat (length ?cs)) (?cs ! i)"
  have c: "hc_sessionID c = a" "hc_target c = address" "ucast (hc_packetID c) = w" "length address + v_Len v (length address) < 1176"
    "varint_ok v (length address)" using ready by (auto simp: hysteria2_ready_def)
  have w: "ucast (hc_packetID c + 1) = w + 1" using c(3) ucast_Suc [of "hc_packetID c"] by simp
  have sz: "0 < ?sz" "int ?sz = 1200 - 24 - int (length address) - int (v_Len v (length address))" using c(4) by auto
  have ne: "p \<noteq> []" "length ?cs \<le> 255" using p by (simp_all add: fits_datagrams_def del: length_chunks)
  have "write_fragments (\<lambda>i n x. Ret (sendDatagram v ?c (w + 1) (word_of_nat i) (word_of_nat n) x)) (\<lambda>_. True) (int ?sz) p =
      Ret ((length p, None), map ?dat [0..<length ?cs])"
    by (rule write_fragments_all [OF sz(1) ne]) (simp_all del: length_chunks)
  then have "hysteria2UDP_Write v (\<lambda>_. True) p c = (Ret ((length p, None), map ?dat [0..<length ?cs]), ?c)"
    using ne(1) sz(2) c w by (simp add: hysteria2UDP_Write_def Let_def del: length_chunks of_nat_diff)
  moreover have "hysteria2_carries v a (?dat i) (unat (w + 1)) (length ?cs) i (?cs ! i)" if "i < length ?cs" for i
    unfolding hysteria2_carries_def using that ne(2) c by (auto intro!: exI [of _ ?c])
  moreover have "hysteria2_ready v a address ?c (w + 1)" using c w by (simp add: hysteria2_ready_def)
  ultimately show ?thesis by (auto simp: is_cut_def simp del: length_chunks)
qed

interpretation hysteria2_udp: datagram_conn "hysteria2_handleIncomingDatagram v a" "hysteria2_carries v a"
  "hysteria2UDP_Write v (\<lambda>_. True)" "hysteria2_chunk v address" "hysteria2_ready v a address"
  for v a address
  by unfold_locales (simp_all add: hysteria2_write, simp add: hysteria2_ready_def)

lemma skip_block_app [simp]: "n = length xs \<Longrightarrow> skip_block n (xs @ rest) = Ret rest"
  by (simp add: skip_block_def)

text \<open>The answers of a server.\<close>

definition hysteria2_response :: "varint \<Rightarrow> u8 \<Rightarrow> bytes \<Rightarrow> bytes \<Rightarrow> bytes" where
  "hysteria2_response v status msg padding = [status] @ v_Append v (length msg) @ msg @ v_Append v (length padding) @ padding"

lemma readHysteria2TCPResponse_enc:
  assumes "varint_ok v (length msg)" "varint_ok v (length padding)"
  shows "readHysteria2TCPResponse v (hysteria2_response v status msg padding @ rest) =
    (if status = 0 then Ret rest else Err (Refused ''hysteria2: tcp connect failed''))"
  using assms by (simp add: readHysteria2TCPResponse_def hysteria2_response_def varint_okD)

lemma xor_key_twice: "xor_key key (xor_key key p) = p"
  by (rule nth_equalityI) (auto simp: xor_key_def bit_eq_iff bit_xor_iff)

lemma xor_key_len [simp]: "length (xor_key key p) = length p"
  by (simp add: xor_key_def)

lemma salamander_roundtrip:
  assumes "length salt = 8" "p \<noteq> []" "length p \<le> n" "salamander_WriteTo blake2b password (Some salt) wr p = Ret (k, packet)"
  shows "k = length p \<and> salamander_ReadFrom blake2b password n (packet # ds) = Ret (p, ds)"
proof -
  have "packet = salt @ xor_key (salamanderKey blake2b password salt) p" "k = length p"
    using assms(4) by (auto simp: salamander_WriteTo_def Let_def split: if_splits)
  moreover have "0 < n" using assms(2,3) by (cases p) auto
  ultimately show ?thesis using assms(1-3) by (simp add: Let_def xor_key_twice)
qed

section \<open>Properties\<close>

text \<open>
  UDP packets through a Hysteria2 session survive fragmentation: if the variable-length integer
  of the destination's length reads back and each packet needs at most 255 datagrams, every write
  succeeds, and a reader whose buffer is large enough gets the packets in order when the datagrams
  arrive in order, and all of them, each complete and once, however the network permutes the
  datagrams of up to 65536 packets.
\<close>

theorem hysteria2UDP_delivers:
  assumes "varint_ok v (length address)" "length address + v_Len v (length address) < 1176"
    and "list_all (fits_datagrams (1176 - (length address + v_Len v (length address)))) ps"
    and "length ps \<le> 65536" "\<forall>p\<in>set ps. length p \<le> n"
  shows "\<exists>sents. write_all (hysteria2UDP_Write v (\<lambda>_. True)) ps \<lparr>hc_sessionID = a, hc_target = address, hc_packetID = w\<rparr> =
      Ret (zip (map (\<lambda>p. (length p, None)) ps) sents) \<and>
    reads (datagram_next (hysteria2_handleIncomingDatagram v a)) (replicate (length ps) n) ([], no_fragments, concat sents) = ps \<and>
    (\<forall>arrived. mset arrived = mset (concat sents) \<longrightarrow>
       mset (reads (datagram_next (hysteria2_handleIncomingDatagram v a)) (replicate (length ps) n) ([], no_fragments, arrived)) = mset ps)"
proof -
  have "hysteria2_ready v a address \<lparr>hc_sessionID = a, hc_target = address, hc_packetID = w\<rparr> (ucast w)"
    using assms(1,2) by (simp add: hysteria2_ready_def)
  from hysteria2_udp.delivers_all [OF this assms(3-5)] show ?thesis .
qed

text \<open>One-byte integers, the first form of the encoding.\<close>

definition varint1 :: varint where
  "varint1 = \<lparr>v_Append = (\<lambda>n. [word_of_nat n]), v_Len = (\<lambda>_. 1),
     v_Parse = (\<lambda>b. if b = [] then Err EOF else Ret (unat (hd b), 1)),
     v_Read = (\<lambda>b. if b = [] then Err EOF else Ret (unat (hd b), tl b))\<rparr>"

lemma varint1_ok: "n < 64 \<Longrightarrow> varint_ok varint1 n"
  by (simp add: varint_ok_def varint1_def unat_of_nat)

theorem hysteria2UDP_delivers_witness:
  "\<exists>sents. write_all (hysteria2UDP_Write varint1 (\<lambda>_. True)) [[1, 2], [3]] \<lparr>hc_sessionID = 5, hc_target = ''a.b:53'', hc_packetID = 0xFFFF\<rparr> =
      Ret (zip [(2, None), (1, None)] sents) \<and>
    mset (reads (datagram_next (hysteria2_handleIncomingDatagram varint1 5)) [9, 9] ([], no_fragments, List.rev (concat sents))) = mset [[1, 2], [3]]"
proof -
  let ?ps = "[[1, 2], [3]] :: bytes list" and ?t = "''a.b:53''"
  have a: "varint_ok varint1 (length ?t)" "length ?t + v_Len varint1 (length ?t) < 1176"
    by (simp add: varint1_ok, simp add: varint1_def)
  have f: "list_all (fits_datagrams (1176 - (length ?t + v_Len varint1 (length ?t)))) ?ps" by (simp add: fits_datagrams_def varint1_def)
  have le: "length ?ps \<le> 65536" "\<forall>p\<in>set ?ps. length p \<le> 9" by simp_all
  have r: "replicate (length ?ps) 9 = [9, 9 :: nat]" "map (\<lambda>p. (length p, None)) ?ps = [(2, None), (1, None)]" by simp_all
  from hysteria2UDP_delivers [OF a f le, of 5 "0xFFFF"] obtain sents where
    "write_all (hysteria2UDP_Write varint1 (\<lambda>_. True)) ?ps \<lparr>hc_sessionID = 5, hc_target = ?t, hc_packetID = 0xFFFF\<rparr> =
      Ret (zip [(2, None), (1, None)] sents)"
    "\<forall>arrived. mset arrived = mset (concat sents) \<longrightarrow>
       mset (reads (datagram_next (hysteria2_handleIncomingDatagram varint1 5)) [9, 9] ([], no_fragments, arrived)) = mset ?ps"
    unfolding r by blast
  then show ?thesis using mset_rev [of "concat sents"] by blast
qed

end
