(* ===== verification/Runtime.thy ===== *)
theory Runtime
  imports Router_Props Config_Validate Ruleset_Loader VLESS Hysteria2
begin

text \<open>
  Compilation of a configuration into outbounds, groups and a router (\<^verbatim>\<open>core/runtime.go\<close>, \<^verbatim>\<open>Build\<close> and
  \<^verbatim>\<open>PrepareRuleSets\<close>, with \<^verbatim>\<open>protocol/registry.go\<close>). The outbounds are a map from ids; a group holds the
  names of its members, which the router resolves through the same map.
\<close>

section \<open>Model\<close>

datatype runtime_error =
    TUNUnavailable
  | BuildNode string conn_error
  | UnresolvedGroups "string list"
  | NotBuilt
  | PrepareRuleSet string load_error

definition NewOutbound :: "Node \<Rightarrow> (conn_error, string \<times> outbound) go" where
  "NewOutbound node =
     (if n_Type node = ''direct'' then Ret (n_ID node, Direct 0)
      else if n_Type node = ''vless'' then gbind (NewVLESS node) (\<lambda>v. Ret (vl_id v, Leaf ''vless''))
      else if n_Type node = ''trojan'' then gbind (NewTrojan node) (\<lambda>t. Ret (tj_id t, Leaf ''trojan''))
      else if n_Type node = ''hysteria2'' then gbind (NewHysteria2 node) (\<lambda>h. Ret (hy_id h, Leaf ''hysteria2''))
      else if n_Type node = ''tuic'' then gbind (NewTUIC node) (\<lambda>t. Ret (tu_id t, Leaf ''tuic''))
      else Err (Refused ''protocol not implemented yet''))"

type_synonym outbounds = "(string \<times> outbound) list"

fun build_nodes :: "Node list \<Rightarrow> outbounds \<Rightarrow> (runtime_error, outbounds) go" where
  "build_nodes [] obs = Ret obs"
| "build_nodes (node # nodes) obs =
     gtry (NewOutbound node) (\<lambda>e. Err (BuildNode (n_ID node) e)) (\<lambda>(i, ob). build_nodes nodes (AList.update i ob obs))"

definition group_members :: "outbounds \<Rightarrow> GroupConfig \<Rightarrow> (string \<times> unit) list" where
  "group_members obs gc =
     foldl (\<lambda>m name. case map_of obs name of Some _ \<Rightarrow> AList.update name () m | None \<Rightarrow> m) [] (g_Members gc)"

definition new_group :: "GroupConfig \<Rightarrow> (string \<times> unit) list \<Rightarrow> outbound" where
  "new_group gc m =
     (if g_Type gc \<in> {''urltest'', ''url-test''} then GURLTest (NewURLTest (g_ID gc) m (g_URL gc) (g_Tolerance gc))
      else GSelect (NewSelect (g_ID gc) m (g_Default gc)))"

text \<open>One pass over the pending groups: the groups that remain, the outbounds and how many groups were built.\<close>

fun build_pass :: "GroupConfig list \<Rightarrow> outbounds \<Rightarrow> GroupConfig list \<times> outbounds \<times> nat" where
  "build_pass [] obs = ([], obs, 0)"
| "build_pass (gc # gcs) obs =
     (let m = group_members obs gc in
      if length m \<noteq> length (g_Members gc) then
        (case build_pass gcs obs of (remaining, obs', built) \<Rightarrow> (gc # remaining, obs', built))
      else
        (case build_pass gcs (AList.update (g_ID gc) (new_group gc m) obs) of (remaining, obs', built) \<Rightarrow> (remaining, obs', built + 1)))"

lemma build_pass_length: "build_pass gcs obs = (remaining, obs', built) \<Longrightarrow> length remaining + built = length gcs"
  by (induction gcs arbitrary: obs remaining obs' built) (fastforce simp: Let_def split: if_splits prod.splits)+

function build_groups :: "GroupConfig list \<Rightarrow> outbounds \<Rightarrow> (runtime_error, outbounds) go" where
  "build_groups pending obs =
     (if length pending = 0 then Ret obs
      else
        (case build_pass pending obs of (remaining, obs', built) \<Rightarrow>
           if built = 0 then Err (UnresolvedGroups (map g_ID remaining)) else build_groups remaining obs'))"
  by auto
termination
  by (relation "measure (\<lambda>(pending, obs). length pending)") (auto dest!: build_pass_length [OF sym])

declare build_groups.simps [simp del]

definition add_direct :: "outbounds \<Rightarrow> outbounds" where
  "add_direct obs = (if map_of obs ''direct'' = None then AList.update ''direct'' (Direct 0) obs else obs)"

definition register_all :: "outbounds \<Rightarrow> router \<Rightarrow> router" where
  "register_all obs r = foldl (\<lambda>r (i, ob). Register i ob r) r obs"

text \<open>
  \<^verbatim>\<open>Build\<close>: \<open>tunSupported\<close> is \<^verbatim>\<open>tunnel.Supported()\<close>. The call of \<^verbatim>\<open>EnableDNSPersistence\<close> only concerns the DNS
  state, which \<open>loadDNSCache\<close> of \<open>DNS_Cache\<close> describes.
\<close>

definition Build :: "bool \<Rightarrow> Config \<Rightarrow> (runtime_error, outbounds \<times> router) go" where
  "Build tunSupported cfg =
     (if list_ex (\<lambda>i. i_Type i = ''tun'' \<and> \<not> tunSupported) (cfg_Inbounds cfg) then Err TUNUnavailable
      else
        gbind (build_nodes (cfg_Nodes cfg) []) (\<lambda>obs.
        gbind (build_groups (cfg_Groups cfg) (add_direct obs)) (\<lambda>obs.
          Ret (obs, register_all obs (SetPolicy (cfg_Rules cfg) (cfg_DNS cfg) (New (cfg_Final cfg)))))))"

text \<open>
  \<^verbatim>\<open>PrepareRuleSets\<close>: the workers' results in the order they arrive. After the first error the context
  is canceled, so \<open>results\<close> may hold further errors.
\<close>

fun prepare_loop :: "(string \<times> (load_error + ruleset)) list \<Rightarrow> (string \<times> ruleset) list \<Rightarrow> runtime_error option \<Rightarrow>
    (string \<times> ruleset) list \<times> runtime_error option" where
  "prepare_loop [] loaded firstErr = (loaded, firstErr)"
| "prepare_loop ((i, r) # rs) loaded firstErr =
     (case r of
        Inl e \<Rightarrow> prepare_loop rs loaded (if firstErr = None then Some (PrepareRuleSet i e) else firstErr)
      | Inr s \<Rightarrow> prepare_loop rs (AList.update i s loaded) firstErr)"

definition PrepareRuleSets ::
  "(string \<times> (load_error + ruleset)) list \<Rightarrow> bool \<Rightarrow> router option \<Rightarrow> (runtime_error, bool \<times> router option) go" where
  "PrepareRuleSets results prepared r =
     (if prepared then Ret (prepared, r)
      else case r of
        None \<Rightarrow> Err NotBuilt
      | Some router \<Rightarrow>
          (case prepare_loop results [] None of
             (_, Some e) \<Rightarrow> Err e
           | (loaded, None) \<Rightarrow> Ret (True, Some (SetRuleSets loaded router))))"

section \<open>What a pass does\<close>

text \<open>The members found among the outbounds; the lengths agree when all exist and none is repeated.\<close>

lemma foldl_members:
  "dom (map_of (foldl (\<lambda>m name. case map_of obs name of Some _ \<Rightarrow> AList.update name () m | None \<Rightarrow> m) m0 ns)) =
     dom (map_of m0) \<union> {n \<in> set ns. map_of obs n \<noteq> None} \<and>
   (distinct (map fst m0) \<longrightarrow>
     distinct (map fst (foldl (\<lambda>m name. case map_of obs name of Some _ \<Rightarrow> AList.update name () m | None \<Rightarrow> m) m0 ns)))"
proof (induction ns arbitrary: m0)
  case (Cons n ns)
  show ?case
  proof (cases "map_of obs n")
    case None
    with Cons [of m0] show ?thesis by auto
  next
    case (Some ob)
    with Cons [of "AList.update n () m0"] show ?thesis by (auto simp: update_conv' distinct_update split: if_splits)
  qed
qed simp

lemma group_members_ok:
  "fst ` set (group_members obs gc) = {n \<in> set (g_Members gc). map_of obs n \<noteq> None}" "distinct (map fst (group_members obs gc))"
  using foldl_members [of obs "[]" "g_Members gc"] by (simp_all add: group_members_def dom_map_of_conv_image_fst)

lemma group_members_all:
  "length (group_members obs gc) = length (g_Members gc) \<longleftrightarrow>
   distinct (g_Members gc) \<and> (\<forall>n\<in>set (g_Members gc). map_of obs n \<noteq> None)"
proof -
  let ?S = "{n \<in> set (g_Members gc). map_of obs n \<noteq> None}"
  have len: "length (group_members obs gc) = card ?S"
    using group_members_ok [of obs gc] distinct_card [of "map fst (group_members obs gc)"] by simp
  have le: "card ?S \<le> card (set (g_Members gc))" by (rule card_mono) auto
  show ?thesis
  proof
    assume eq: "length (group_members obs gc) = length (g_Members gc)"
    then have "card (set (g_Members gc)) = length (g_Members gc)" using len le card_length [of "g_Members gc"] by linarith
    then have d: "distinct (g_Members gc)" by (rule card_distinct)
    then have "card ?S = card (set (g_Members gc))" using eq len by (simp add: distinct_card)
    then have "?S = set (g_Members gc)" by (intro card_subset_eq) auto
    with d show "distinct (g_Members gc) \<and> (\<forall>n\<in>set (g_Members gc). map_of obs n \<noteq> None)" by auto
  next
    assume a: "distinct (g_Members gc) \<and> (\<forall>n\<in>set (g_Members gc). map_of obs n \<noteq> None)"
    then have "?S = set (g_Members gc)" by auto
    with len a show "length (group_members obs gc) = length (g_Members gc)" by (simp add: distinct_card)
  qed
qed

section \<open>The invariant of the outbounds\<close>

fun group_order :: "outbound \<Rightarrow> string list" where
  "group_order (GSelect b) = order b"
| "group_order (GURLTest u) = order u"
| "group_order _ = []"

fun group_ok :: "outbound \<Rightarrow> bool" where
  "group_ok (GSelect b) \<longleftrightarrow> base_ok b \<and> order b \<noteq> []"
| "group_ok (GURLTest u) \<longleftrightarrow> urltest_ok u \<and> order u \<noteq> []"
| "group_ok _ \<longleftrightarrow> True"

text \<open>
  Every group is in a good state and has members, all of them registered and of a lower rank; no id is
  registered twice.
\<close>

definition obs_ok :: "(string \<Rightarrow> nat) \<Rightarrow> outbounds \<Rightarrow> bool" where
  "obs_ok rk obs \<longleftrightarrow> distinct (map fst obs) \<and>
     (\<forall>tag ob. map_of obs tag = Some ob \<longrightarrow> group_ok ob \<and> (\<forall>m\<in>set (group_order ob). rk m < rk tag \<and> map_of obs m \<noteq> None))"

lemma obs_okD:
  "obs_ok rk obs \<Longrightarrow> map_of obs tag = Some ob \<Longrightarrow> group_ok ob"
  "obs_ok rk obs \<Longrightarrow> map_of obs tag = Some ob \<Longrightarrow> m \<in> set (group_order ob) \<Longrightarrow> rk m < rk tag \<and> map_of obs m \<noteq> None"
  unfolding obs_ok_def by blast+

lemma group_ok_current: "group_ok ob \<Longrightarrow> group_current ob = Some cur \<Longrightarrow> cur \<in> set (group_order ob)"
  by (cases ob) (auto simp: Current_def urltest_ok_def base_ok_cur)

lemma new_group_ok:
  assumes "distinct (map fst m)" "m \<noteq> []"
  shows "group_ok (new_group gc m)" "set (group_order (new_group gc m)) = fst ` set m"
proof -
  note s = NewSelect_ok [OF assms(1), of "g_ID gc" "g_Default gc"] and u = NewURLTest_ok [OF assms(1), of "g_ID gc" "g_URL gc" "g_Tolerance gc"]
  have "base.more (NewURLTest (g_ID gc) m (g_URL gc) (g_Tolerance gc)) = \<lparr>target = g_URL gc, tolerance = (if g_Tolerance gc < 0 then 0 else g_Tolerance gc) * 1000000\<rparr>"
    by (simp add: NewURLTest_def Let_def add_all_more base.extend_def newBase_def)
  then have "tolerance (NewURLTest (g_ID gc) m (g_URL gc) (g_Tolerance gc)) = (if g_Tolerance gc < 0 then 0 else g_Tolerance gc) * 1000000"
    by (cases "NewURLTest (g_ID gc) m (g_URL gc) (g_Tolerance gc)") simp
  then have tol: "0 \<le> tolerance (NewURLTest (g_ID gc) m (g_URL gc) (g_Tolerance gc))" by simp
  show "group_ok (new_group gc m)" "set (group_order (new_group gc m)) = fst ` set m"
    using s u tol assms(2) by (simp_all add: new_group_def urltest_ok_def)
qed

text \<open>A new id keeps the invariant, with a rank above the ranks of its members.\<close>

lemma obs_ok_add:
  assumes ok: "obs_ok rk obs" and new: "map_of obs i = None" and ob: "group_ok ob" and mem: "\<forall>m\<in>set (group_order ob). map_of obs m \<noteq> None"
  shows "\<exists>rk'. obs_ok rk' (AList.update i ob obs)"
proof -
  let ?rk = "rk(i := Suc (Max (insert 0 (rk ` set (group_order ob)))))"
  have lt: "m \<in> set (group_order ob) \<Longrightarrow> rk m < Suc (Max (insert 0 (rk ` set (group_order ob))))" for m
    by (rule le_imp_less_Suc, rule Max_ge) auto
  have "obs_ok ?rk (AList.update i ob obs)"
    unfolding obs_ok_def
  proof (intro conjI allI impI ballI)
    show "distinct (map fst (AList.update i ob obs))" using ok by (simp add: obs_ok_def distinct_update)
    fix tag o' assume o': "map_of (AList.update i ob obs) tag = Some o'"
    show "group_ok o'" using o' ob obs_okD(1) [OF ok] by (auto simp: update_conv' split: if_splits)
    fix m assume m: "m \<in> set (group_order o')"
    have reg: "map_of obs m \<noteq> None"
      using o' m mem obs_okD(2) [OF ok, of tag o' m] by (auto simp: update_conv' split: if_splits)
    then show "map_of (AList.update i ob obs) m \<noteq> None" by (simp add: update_conv')
    have "m \<noteq> i" using reg new by auto
    then show "?rk m < ?rk tag"
      using o' m lt obs_okD(2) [OF ok, of tag o' m] by (cases "tag = i") (auto simp: update_conv')
  qed
  then show ?thesis by blast
qed

definition built_in :: "outbounds \<Rightarrow> GroupConfig \<Rightarrow> bool" where
  "built_in obs g \<longleftrightarrow> distinct (g_Members g) \<and> (\<exists>ob. map_of obs (g_ID g) = Some ob \<and> set (group_order ob) = set (g_Members g))"

text \<open>Pending groups: their ids are new and different, and they have members.\<close>

definition pending_ok :: "outbounds \<Rightarrow> GroupConfig list \<Rightarrow> bool" where
  "pending_ok obs gcs \<longleftrightarrow> distinct (map g_ID gcs) \<and> (\<forall>g\<in>set gcs. map_of obs (g_ID g) = None \<and> g_Members g \<noteq> [])"

definition extends :: "outbounds \<Rightarrow> outbounds \<Rightarrow> bool" where
  "extends obs obs' \<longleftrightarrow> (\<forall>tag ob. map_of obs tag = Some ob \<longrightarrow> map_of obs' tag = Some ob)"

lemma build_one:
  assumes "obs_ok rk obs" "pending_ok obs (gc # gcs)" "length (group_members obs gc) = length (g_Members gc)"
  shows "\<exists>rk'. obs_ok rk' (AList.update (g_ID gc) (new_group gc (group_members obs gc)) obs)"
    "pending_ok (AList.update (g_ID gc) (new_group gc (group_members obs gc)) obs) gcs"
    "extends obs (AList.update (g_ID gc) (new_group gc (group_members obs gc)) obs)"
    "built_in (AList.update (g_ID gc) (new_group gc (group_members obs gc)) obs) gc"
proof -
  let ?m = "group_members obs gc"
  have all: "distinct (g_Members gc)" "\<forall>n\<in>set (g_Members gc). map_of obs n \<noteq> None" using assms(3) group_members_all by blast+
  have "fst ` set ?m = set (g_Members gc)" using group_members_ok(1) [of obs gc] all(2) by auto
  moreover have "?m \<noteq> []" using assms(2,3) by (auto simp: pending_ok_def)
  ultimately have g: "group_ok (new_group gc ?m)" "set (group_order (new_group gc ?m)) = set (g_Members gc)"
    using new_group_ok [OF group_members_ok(2)] by simp_all
  have new: "map_of obs (g_ID gc) = None" using assms(2) by (simp add: pending_ok_def)
  have mem: "\<forall>m\<in>set (group_order (new_group gc ?m)). map_of obs m \<noteq> None" using g(2) all(2) by blast
  show "\<exists>rk'. obs_ok rk' (AList.update (g_ID gc) (new_group gc ?m) obs)" by (rule obs_ok_add [OF assms(1) new g(1) mem])
  show "pending_ok (AList.update (g_ID gc) (new_group gc ?m) obs) gcs"
    using assms(2) by (auto simp: pending_ok_def update_conv' image_iff)
  show "extends obs (AList.update (g_ID gc) (new_group gc ?m) obs)" using new by (auto simp: extends_def update_conv')
  show "built_in (AList.update (g_ID gc) (new_group gc ?m) obs) gc" using all(1) g(2) by (simp add: built_in_def update_conv')
qed

lemma pending_ok_tl: "pending_ok obs (gc # gcs) \<Longrightarrow> pending_ok obs gcs"
  by (simp add: pending_ok_def)

lemma extends_trans: "extends a b \<Longrightarrow> extends b c \<Longrightarrow> extends a c"
  by (simp add: extends_def)

lemma extends_built: "extends a b \<Longrightarrow> built_in a g \<Longrightarrow> built_in b g"
  by (auto simp: extends_def built_in_def)

lemma build_pass_inv:
  assumes "obs_ok rk obs" "pending_ok obs gcs" "build_pass gcs obs = (remaining, obs', built)"
  shows "(\<exists>rk'. obs_ok rk' obs') \<and> extends obs obs' \<and> pending_ok obs' remaining \<and> set remaining \<subseteq> set gcs \<and>
    dom (map_of obs') = dom (map_of obs) \<union> g_ID ` (set gcs - set remaining) \<and> (\<forall>g\<in>set gcs - set remaining. built_in obs' g)"
  using assms
proof (induction gcs arbitrary: rk obs remaining obs' built)
  case Nil
  then show ?case by (auto simp: extends_def)
next
  case (Cons gc gcs)
  let ?m = "group_members obs gc"
  have gc: "gc \<notin> set gcs" "g_ID gc \<notin> g_ID ` set gcs" using Cons.prems(2) by (auto simp: pending_ok_def)
  show ?case
  proof (cases "length ?m = length (g_Members gc)")
    case False
    then obtain rem where r: "build_pass gcs obs = (rem, obs', built)" "remaining = gc # rem"
      using Cons.prems(3) by (auto simp: Let_def split: prod.splits)
    note IH = Cons.IH [OF Cons.prems(1) pending_ok_tl [OF Cons.prems(2)] r(1)]
    have eq: "set (gc # gcs) - set remaining = set gcs - set rem" using r(2) gc(1) by auto
    have "g_ID gc \<notin> dom (map_of obs')" using IH gc(2) Cons.prems(2) by (auto simp: pending_ok_def)
    then have "pending_ok obs' remaining" using IH r(2) Cons.prems(2) gc(2) by (auto simp: pending_ok_def image_iff)
    with IH r(2) show ?thesis unfolding eq by auto
  next
    case True
    let ?obs = "AList.update (g_ID gc) (new_group gc ?m) obs"
    obtain b where r: "build_pass gcs ?obs = (remaining, obs', b)"
      using True Cons.prems(3) by (auto simp: Let_def split: prod.splits)
    note one = build_one [OF Cons.prems(1,2) True]
    obtain rk' where rk': "obs_ok rk' ?obs" using one(1) by blast
    note IH = Cons.IH [OF rk' one(2) r]
    have "gc \<notin> set remaining" using IH gc(1) by auto
    then have eq: "set (gc # gcs) - set remaining = insert gc (set gcs - set remaining)" by auto
    have "dom (map_of ?obs) = insert (g_ID gc) (dom (map_of obs))" by (auto simp: update_conv')
    with IH extends_trans [OF one(3)] extends_built [OF _ one(4)] show ?thesis unfolding eq by auto
  qed
qed

lemma build_groups_inv:
  assumes "obs_ok rk obs" "pending_ok obs pending" "build_groups pending obs = Ret obs'"
  shows "(\<exists>rk'. obs_ok rk' obs') \<and> extends obs obs' \<and> dom (map_of obs') = dom (map_of obs) \<union> g_ID ` set pending \<and>
    (\<forall>g\<in>set pending. built_in obs' g)"
  using assms
proof (induction pending obs arbitrary: rk rule: build_groups.induct)
  case (1 pending obs)
  show ?case
  proof (cases "pending = []")
    case True
    then show ?thesis using 1 by (auto simp: build_groups.simps extends_def)
  next
    case False
    obtain remaining obs1 built where p: "build_pass pending obs = (remaining, obs1, built)" by (cases "build_pass pending obs") auto
    then have b: "built \<noteq> 0" "build_groups remaining obs1 = Ret obs'"
      using False 1(4) by (auto simp: build_groups.simps [of pending] split: if_splits)
    note P = build_pass_inv [OF 1(2,3) p]
    then obtain rk1 where rk1: "obs_ok rk1 obs1" by blast
    have IH: "(\<exists>rk'. obs_ok rk' obs') \<and> extends obs1 obs' \<and> dom (map_of obs') = dom (map_of obs1) \<union> g_ID ` set remaining \<and>
        (\<forall>g\<in>set remaining. built_in obs' g)"
      by (rule 1(1) [OF _ p [symmetric] refl b(1) rk1 _ b(2)]) (use False P in blast)+
    have "extends obs obs'" by (rule extends_trans [of obs obs1 obs']) (use P IH in \<open>simp_all only: simp_thms\<close>)
    moreover have "built_in obs' g" if "g \<in> set pending" for g
      using that P IH extends_built [of obs1 obs' g] by (cases "g \<in> set remaining") auto
    moreover have "dom (map_of obs') = dom (map_of obs) \<union> g_ID ` set pending" using P IH by auto
    ultimately show ?thesis using IH by blast
  qed
qed

section \<open>Build\<close>

lemma NewOutbound_node: "NewOutbound n = Ret (i, ob) \<Longrightarrow> i = n_ID n \<and> group_order ob = [] \<and> group_ok ob"
  by (auto simp: NewOutbound_def NewVLESS_def NewTrojan_def NewHysteria2_def NewTUIC_def Let_def split: if_splits)

lemma build_nodes_inv:
  assumes "obs_ok rk obs" "distinct (map n_ID nodes)" "\<forall>n\<in>set nodes. map_of obs (n_ID n) = None" "build_nodes nodes obs = Ret obs'"
  shows "(\<exists>rk'. obs_ok rk' obs') \<and> dom (map_of obs') = dom (map_of obs) \<union> n_ID ` set nodes"
  using assms
proof (induction nodes arbitrary: rk obs)
  case (Cons n nodes)
  then obtain i ob where n: "NewOutbound n = Ret (i, ob)" "build_nodes nodes (AList.update i ob obs) = Ret obs'" by auto
  then have i: "i = n_ID n" "group_order ob = []" "group_ok ob" using NewOutbound_node by blast+
  obtain rk' where rk': "obs_ok rk' (AList.update i ob obs)"
    using obs_ok_add [OF Cons.prems(1) _ i(3), of i] i(1,2) Cons.prems(3) by auto
  have fresh: "\<forall>x\<in>set nodes. map_of (AList.update i ob obs) (n_ID x) = None"
    using Cons.prems(2,3) i(1) by (auto simp: update_conv' image_iff)
  have "dom (map_of (AList.update i ob obs)) = insert (n_ID n) (dom (map_of obs))" using i(1) by (auto simp: update_conv')
  with Cons.IH [OF rk' _ fresh n(2)] Cons.prems(2) show ?case by auto
qed auto

lemma register_all_outbounds:
  "distinct (map fst obs) \<Longrightarrow> rt_outbounds r = [] \<Longrightarrow> map_of (rt_outbounds (register_all obs r)) = map_of obs"
proof -
  have "distinct (map fst obs) \<Longrightarrow> map_of (rt_outbounds (foldl (\<lambda>r (i, ob). Register i ob r) r obs)) = map_of (rt_outbounds r) ++ map_of obs" for r
  proof (induction obs arbitrary: r)
    case (Cons x xs)
    obtain i ob where x: "x = (i, ob)" by fastforce
    have "map_of xs i = None" using Cons.prems x by (simp add: map_of_eq_None_iff)
    with Cons x show ?case by (auto simp: Register_def update_conv' fun_eq_iff map_add_def split: option.splits)
  qed simp
  then show "distinct (map fst obs) \<Longrightarrow> rt_outbounds r = [] \<Longrightarrow> map_of (rt_outbounds (register_all obs r)) = map_of obs"
    by (simp add: register_all_def)
qed

lemma register_all_same: "rt_final (register_all obs r) = rt_final r" "rt_rules (register_all obs r) = rt_rules r" "rt_dns (register_all obs r) = rt_dns r"
proof -
  have "rt_final (foldl (\<lambda>r (i, ob). Register i ob r) r obs) = rt_final r \<and> rt_rules (foldl (\<lambda>r (i, ob). Register i ob r) r obs) = rt_rules r \<and>
      rt_dns (foldl (\<lambda>r (i, ob). Register i ob r) r obs) = rt_dns r"
    by (induction obs arbitrary: r) (auto simp: Register_def)
  then show "rt_final (register_all obs r) = rt_final r" "rt_rules (register_all obs r) = rt_rules r" "rt_dns (register_all obs r) = rt_dns r"
    by (auto simp: register_all_def)
qed

lemma config_ok_ids:
  assumes "config_ok cfg"
  shows "distinct (map n_ID (cfg_Nodes cfg))" "''direct'' \<notin> n_ID ` set (cfg_Nodes cfg)" "distinct (map g_ID (cfg_Groups cfg))"
    "g_ID ` set (cfg_Groups cfg) \<inter> insert ''direct'' (n_ID ` set (cfg_Nodes cfg)) = {}"
    "\<forall>g\<in>set (cfg_Groups cfg). g_Members g \<noteq> [] \<and> set (g_Members g) \<subseteq> set (outbound_ids cfg)"
proof -
  have "distinct (outbound_ids cfg)" using assms by (simp add: config_ok_def)
  then show "distinct (map n_ID (cfg_Nodes cfg))" "''direct'' \<notin> n_ID ` set (cfg_Nodes cfg)" "distinct (map g_ID (cfg_Groups cfg))"
    "g_ID ` set (cfg_Groups cfg) \<inter> insert ''direct'' (n_ID ` set (cfg_Nodes cfg)) = {}"
    by (auto simp: outbound_ids_def)
  show "\<forall>g\<in>set (cfg_Groups cfg). g_Members g \<noteq> [] \<and> set (g_Members g) \<subseteq> set (outbound_ids cfg)"
    using assms unfolding config_ok_def by blast
qed

text \<open>The outbounds before any group is built: the nodes and the direct outbound.\<close>

lemma base_outbounds:
  assumes "config_ok cfg" "build_nodes (cfg_Nodes cfg) [] = Ret obs"
  shows "\<exists>rk. obs_ok rk (add_direct obs)" "dom (map_of (add_direct obs)) = insert ''direct'' (n_ID ` set (cfg_Nodes cfg))"
    "pending_ok (add_direct obs) (cfg_Groups cfg)"
proof -
  note ids = config_ok_ids [OF assms(1)]
  have "obs_ok (\<lambda>_. 0) []" by (simp add: obs_ok_def)
  from build_nodes_inv [OF this ids(1) _ assms(2)] obtain rk where rk: "obs_ok rk obs" "dom (map_of obs) = n_ID ` set (cfg_Nodes cfg)" by auto
  then have new: "map_of obs ''direct'' = None" using ids(2) by auto
  then have eq: "add_direct obs = AList.update ''direct'' (Direct 0) obs" by (simp add: add_direct_def)
  show "\<exists>rk. obs_ok rk (add_direct obs)" unfolding eq using obs_ok_add [OF rk(1) new, of "Direct 0"] by simp
  show d: "dom (map_of (add_direct obs)) = insert ''direct'' (n_ID ` set (cfg_Nodes cfg))"
    unfolding eq using rk(2) by (auto simp: update_conv')
  have "map_of (add_direct obs) (g_ID g) = None" if "g \<in> set (cfg_Groups cfg)" for g
    using ids(4) that d by blast
  then show "pending_ok (add_direct obs) (cfg_Groups cfg)" using ids(3,5) by (simp add: pending_ok_def)
qed

lemma register_all_distinct: "distinct (map fst (rt_outbounds r)) \<Longrightarrow> distinct (map fst (rt_outbounds (register_all obs r)))"
proof -
  have "distinct (map fst (rt_outbounds r)) \<Longrightarrow> distinct (map fst (rt_outbounds (foldl (\<lambda>r (i, ob). Register i ob r) r obs)))" for r
    by (induction obs arbitrary: r) (auto simp: Register_def distinct_update)
  then show "distinct (map fst (rt_outbounds r)) \<Longrightarrow> distinct (map fst (rt_outbounds (register_all obs r)))" by (simp add: register_all_def)
qed

lemma obs_ok_cong: "obs_ok rk obs \<Longrightarrow> map_of obs' = map_of obs \<Longrightarrow> distinct (map fst obs') \<Longrightarrow> obs_ok rk obs'"
  by (metis obs_ok_def)

lemma Build_inv:
  assumes "config_ok cfg" "Build tun cfg = Ret (obs, r)"
  shows "\<exists>rk. obs_ok rk (rt_outbounds r)" "map_of (rt_outbounds r) = map_of obs" "dom (map_of obs) = set (outbound_ids cfg)"
    "\<forall>g\<in>set (cfg_Groups cfg). built_in obs g" "rt_final r = cfg_Final cfg" "rt_rules r = cfg_Rules cfg" "rt_dns r = cfg_DNS cfg"
proof -
  let ?r = "SetPolicy (cfg_Rules cfg) (cfg_DNS cfg) (New (cfg_Final cfg))"
  from assms(2) obtain ns where ns: "build_nodes (cfg_Nodes cfg) [] = Ret ns" "build_groups (cfg_Groups cfg) (add_direct ns) = Ret obs"
    and r: "r = register_all obs ?r" by (auto simp: Build_def split: if_splits)
  note base = base_outbounds [OF assms(1) ns(1)]
  obtain rk0 where rk0: "obs_ok rk0 (add_direct ns)" using base(1) by blast
  note g = build_groups_inv [OF rk0 base(3) ns(2)]
  then obtain rk where rk: "obs_ok rk obs" by blast
  have e: "rt_outbounds ?r = []" by (simp add: SetPolicy_def New_def)
  show m: "map_of (rt_outbounds r) = map_of obs" unfolding r using rk e by (intro register_all_outbounds) (simp_all add: obs_ok_def)
  show "\<exists>rk. obs_ok rk (rt_outbounds r)" using obs_ok_cong [OF rk m] register_all_distinct [of ?r obs] e r by auto
  show "dom (map_of obs) = set (outbound_ids cfg)" using g base(2) by (auto simp: outbound_ids_def)
  show "\<forall>g\<in>set (cfg_Groups cfg). built_in obs g" using g by blast
  show "rt_final r = cfg_Final cfg" "rt_rules r = cfg_Rules cfg" "rt_dns r = cfg_DNS cfg"
    by (simp_all add: r register_all_same SetPolicy_def New_def)
qed

section \<open>Running groups\<close>

text \<open>
  What happens to the outbounds while the core runs: a selection through the control API, a refresh
  of a URL test group whose probes return in any order, and the binding of direct sockets to an
  adapter.
\<close>

inductive group_step :: "router \<Rightarrow> router \<Rightarrow> bool" where
  select: "map_of (rt_outbounds r) tag = Some (GSelect b) \<Longrightarrow> group_step r (Register tag (GSelect (snd (SetCurrent name b))) r)"
| refresh: "map_of (rt_outbounds r) tag = Some (GURLTest u) \<Longrightarrow> set arrival = set (order u) \<Longrightarrow>
    group_step r (Register tag (GURLTest (snd (URLTest_Refresh urlParse probe arrival u))) r)"
| adapter: "group_step r (SetDirectInterface index r)"
| rulesets: "group_step r (SetRuleSets sets r)"

lemma obs_ok_replace:
  assumes "obs_ok rk obs" "map_of obs tag = Some ob" "group_ok ob'" "set (group_order ob') = set (group_order ob)"
  shows "obs_ok rk (AList.update tag ob' obs)"
proof -
  have "group_ok o' \<and> (\<forall>m\<in>set (group_order o'). rk m < rk t \<and> map_of (AList.update tag ob' obs) m \<noteq> None)"
    if t: "map_of (AList.update tag ob' obs) t = Some o'" for t o'
  proof (cases "t = tag")
    case True
    then have "o' = ob'" using t by (simp add: update_conv')
    then show ?thesis using assms(3,4) True obs_okD(2) [OF assms(1,2)] by (auto simp: update_conv')
  next
    case False
    then have "map_of obs t = Some o'" using t by (simp add: update_conv')
    then show ?thesis using obs_okD [OF assms(1), of t o'] by (auto simp: update_conv')
  qed
  moreover have "distinct (map fst (AList.update tag ob' obs))" using assms(1) by (simp add: obs_ok_def distinct_update)
  ultimately show ?thesis unfolding obs_ok_def by blast
qed

lemma dom_replace: "map_of obs tag = Some ob \<Longrightarrow> dom (map_of (AList.update tag ob' obs)) = dom (map_of obs)"
  by (auto simp: update_conv' split: if_splits)

lemma set_index_simps [simp]: "group_ok (set_index i ob) = group_ok ob" "group_order (set_index i ob) = group_order ob"
  by (cases ob; simp)+

lemma map_of_set_index: "map_of (map (\<lambda>(i, ob). (i, set_index index ob)) obs) t = map_option (set_index index) (map_of obs t)"
  by (induction obs) auto

lemma group_step_ok: "group_step r r' \<Longrightarrow> obs_ok rk (rt_outbounds r) \<Longrightarrow>
  obs_ok rk (rt_outbounds r') \<and> dom (map_of (rt_outbounds r')) = dom (map_of (rt_outbounds r))"
proof (induction rule: group_step.induct)
  case (select r tag b name)
  have "group_ok (GSelect b)" using obs_okD(1) [OF select(2,1)] .
  then have "group_ok (GSelect (snd (SetCurrent name b)))" "group_order (GSelect (snd (SetCurrent name b))) = group_order (GSelect b)"
    using SetCurrent_ok [of b name] by auto
  with obs_ok_replace [OF select(2,1)] show ?case by (simp add: Register_def dom_replace [OF select(1)])
next
  case (refresh r tag u arrival urlParse probe)
  have ok: "urltest_ok u" "order u \<noteq> []" using obs_okD(1) [OF refresh(3,1)] by auto
  let ?u = "urltest_upd (urlParse, probe, arrival) u"
  have l: "urltest_legal (urlParse, probe, arrival) u" using refresh(2) by (simp add: urltest_legal_def)
  have "urltest_ok ?u" "order ?u = order u" using ut.upd_ok [OF ok(1) l] ut.upd_mems [OF ok(1) l] by auto
  then have "group_ok (GURLTest ?u)" "set (group_order (GURLTest ?u)) = set (group_order (GURLTest u))" using ok(2) by simp_all
  from obs_ok_replace [OF refresh(3,1) this] show ?case by (simp add: Register_def dom_replace [OF refresh(1)] urltest_upd_def)
next
  case (adapter r index)
  let ?obs = "rt_outbounds (SetDirectInterface index r)"
  have m: "map_of ?obs t = map_option (set_index index) (map_of (rt_outbounds r) t)" for t
    by (simp add: SetDirectInterface_def map_of_set_index)
  have "distinct (map fst ?obs)" using adapter by (simp add: obs_ok_def SetDirectInterface_def comp_def case_prod_unfold)
  then have "obs_ok rk ?obs" using adapter by (auto simp: obs_ok_def m)
  moreover have "dom (map_of ?obs) = dom (map_of (rt_outbounds r))" by (auto simp: m)
  ultimately show ?case by simp
next
  case (rulesets r sets)
  then show ?case by (simp add: SetRuleSets_def)
qed

lemma group_steps_ok: "group_step\<^sup>*\<^sup>* r r' \<Longrightarrow> obs_ok rk (rt_outbounds r) \<Longrightarrow>
  obs_ok rk (rt_outbounds r') \<and> dom (map_of (rt_outbounds r')) = dom (map_of (rt_outbounds r))"
proof (induction rule: rtranclp_induct)
  case (step y z)
  with group_step_ok [OF step(2), of rk] show ?case by simp
qed simp

lemma obs_ok_ranked: "obs_ok rk (rt_outbounds r) \<Longrightarrow> ranked rk r"
proof -
  assume ok: "obs_ok rk (rt_outbounds r)"
  have "rk cur < rk tag \<and> map_of (rt_outbounds r) cur \<noteq> None" if "map_of (rt_outbounds r) tag = Some ob" "group_current ob = Some cur" for tag ob cur
    by (rule obs_okD(2) [OF ok that(1) group_ok_current [OF obs_okD(1) [OF ok that(1)] that(2)]])
  then show ?thesis by (auto simp: ranked_def current_edge_def)
qed

section \<open>Properties\<close>

text \<open>
  C2: a configuration that was validated and built always has a way out: the registered outbounds are
  exactly the direct outbound, the nodes and the groups, and whatever selections, latency
  refreshes and adapter changes happen afterwards, in any order, every id that a rule, the final
  route or a DNS detour can name resolves, through nested groups, to a registered outbound that
  is not a group.
\<close>

theorem Build_resolves:
  assumes "Validate uriScheme cfg0 = Ret cfg" "Build tun cfg = Ret (obs, r)" "group_step\<^sup>*\<^sup>* r r'"
  shows "dom (map_of (rt_outbounds r')) = set (outbound_ids cfg) \<and>
    (\<forall>tag\<in>set (outbound_ids cfg). \<exists>ob. map_of (rt_outbounds r') (resolve r' tag) = Some ob \<and> group_current ob = None) \<and>
    rt_final r \<in> set (outbound_ids cfg)"
proof -
  have ok: "config_ok cfg" using Validate_ok [OF assms(1)] by (rule conjunct2)
  note b = Build_inv [OF ok assms(2)]
  obtain rk where rk: "obs_ok rk (rt_outbounds r)" using b(1) by blast
  note s = group_steps_ok [OF assms(3) rk]
  then have d: "dom (map_of (rt_outbounds r')) = set (outbound_ids cfg)" using b(2,3) by simp
  have "\<exists>ob. map_of (rt_outbounds r') (resolve r' tag) = Some ob \<and> group_current ob = None" if "tag \<in> set (outbound_ids cfg)" for tag
    using resolve_loop_leaf [OF obs_ok_ranked, of rk r' tag "[]"] s d that by (auto simp: resolve_def)
  moreover have "rt_final r \<in> set (outbound_ids cfg)" using b(5) ok by (simp add: config_ok_def)
  ultimately show ?thesis using d by blast
qed

lemma sample_config_builds: "\<exists>obs r. Build True (set_defaults sample_config) = Ret (obs, r)"
proof -
  have "(case Build True (set_defaults sample_config) of Ret _ \<Rightarrow> True | _ \<Rightarrow> False)" by code_simp
  then show ?thesis by (cases "Build True (set_defaults sample_config)") auto
qed

theorem Build_resolves_witness:
  "\<exists>obs r ob. Build True (set_defaults sample_config) = Ret (obs, r) \<and> map_of (rt_outbounds r) (resolve r ''g'') = Some ob \<and> group_current ob = None"
proof -
  obtain obs r where b: "Build True (set_defaults sample_config) = Ret (obs, r)" using sample_config_builds by blast
  have "''g'' \<in> set (outbound_ids (set_defaults sample_config))" by code_simp
  with Build_resolves [OF sample_config_valid b rtranclp.rtrancl_refl] b show ?thesis by blast
qed

section \<open>When a configuration builds\<close>

text \<open>A group of the list whose members are all there is built in the pass.\<close>

lemma build_pass_progress:
  assumes "obs_ok rk obs" "pending_ok obs gcs" "g \<in> set gcs" "distinct (g_Members g)" "\<forall>m\<in>set (g_Members g). map_of obs m \<noteq> None"
    and "build_pass gcs obs = (remaining, obs', built)"
  shows "0 < built"
  using assms
proof (induction gcs arbitrary: rk obs remaining obs' built)
  case (Cons gc gcs)
  show ?case
  proof (cases "length (group_members obs gc) = length (g_Members gc)")
    case True
    then show ?thesis using Cons.prems(6) by (auto simp: Let_def split: prod.splits)
  next
    case False
    then have "g \<noteq> gc" using group_members_all [of obs gc] Cons.prems(4,5) by auto
    moreover obtain rem where "build_pass gcs obs = (rem, obs', built)" using False Cons.prems(6) by (auto simp: Let_def split: prod.splits)
    ultimately show ?thesis using Cons.IH [OF Cons.prems(1) pending_ok_tl [OF Cons.prems(2)]] Cons.prems(3-5) by auto
  qed
qed simp

lemma build_groups_complete:
  assumes "obs_ok rk obs" "pending_ok obs pending"
    and "\<forall>g\<in>set pending. distinct (g_Members g) \<and> set (g_Members g) \<subseteq> dom (map_of obs) \<union> g_ID ` set pending \<and>
      (\<forall>m\<in>set (g_Members g). (lv m :: nat) < lv (g_ID g))"
  shows "\<exists>obs'. build_groups pending obs = Ret obs'"
  using assms
proof (induction pending obs arbitrary: rk rule: build_groups.induct)
  case (1 pending obs)
  show ?case
  proof (cases "pending = []")
    case True
    then show ?thesis by (simp add: build_groups.simps)
  next
    case False
    obtain remaining obs1 built where p: "build_pass pending obs = (remaining, obs1, built)" by (cases "build_pass pending obs") auto
    obtain g where g: "g \<in> set pending" "\<forall>h\<in>set pending. lv (g_ID g) \<le> lv (g_ID h)"
      using ex_min_if_finite [of "lv ` g_ID ` set pending"] False by fastforce
    have "\<forall>m\<in>set (g_Members g). map_of obs m \<noteq> None" using 1(4) g by fastforce
    then have b: "built \<noteq> 0" using build_pass_progress [OF 1(2,3) g(1) _ _ p] 1(4) g(1) by simp
    note P = build_pass_inv [OF 1(2,3) p]
    then obtain rk1 where rk1: "obs_ok rk1 obs1" by blast
    have sub: "set remaining \<subseteq> set pending" and "dom (map_of obs1) = dom (map_of obs) \<union> g_ID ` (set pending - set remaining)"
      using P by blast+
    then have doms: "dom (map_of obs) \<union> g_ID ` set pending \<subseteq> dom (map_of obs1) \<union> g_ID ` set remaining" by blast
    have rest: "\<forall>g\<in>set remaining. distinct (g_Members g) \<and> set (g_Members g) \<subseteq> dom (map_of obs1) \<union> g_ID ` set remaining \<and>
        (\<forall>m\<in>set (g_Members g). lv m < lv (g_ID g))"
    proof
      fix g assume "g \<in> set remaining"
      with sub 1(4) have "distinct (g_Members g)" "set (g_Members g) \<subseteq> dom (map_of obs) \<union> g_ID ` set pending"
        "\<forall>m\<in>set (g_Members g). lv m < lv (g_ID g)" by auto
      with doms show "distinct (g_Members g) \<and> set (g_Members g) \<subseteq> dom (map_of obs1) \<union> g_ID ` set remaining \<and>
        (\<forall>m\<in>set (g_Members g). lv m < lv (g_ID g))" by (meson order_trans)
    qed
    have "\<exists>obs'. build_groups remaining obs1 = Ret obs'"
      by (rule 1(1) [OF _ p [symmetric] refl b rk1 _ rest]) (use False P in blast)+
    then show ?thesis using False p b by (simp add: build_groups.simps [of pending])
  qed
qed

lemma build_groups_result:
  "(\<exists>obs'. build_groups pending obs = Ret obs') \<or> (\<exists>ids. build_groups pending obs = Err (UnresolvedGroups ids))"
proof (induction pending obs rule: build_groups.induct)
  case (1 pending obs)
  obtain remaining obs1 built where p: "build_pass pending obs = (remaining, obs1, built)" by (cases "build_pass pending obs") auto
  show ?case
  proof (cases "pending = [] \<or> built = 0")
    case True
    then show ?thesis using p by (auto simp: build_groups.simps [of pending])
  next
    case False
    with 1 [OF _ p [symmetric] refl] p show ?thesis by (simp add: build_groups.simps [of pending])
  qed
qed

lemma Build_iff:
  assumes "Validate uriScheme cfg0 = Ret cfg" "build_nodes (cfg_Nodes cfg) [] = Ret ns" "tun \<or> (\<forall>i\<in>set (cfg_Inbounds cfg). i_Type i \<noteq> ''tun'')"
  shows "(\<exists>obs r. Build tun cfg = Ret (obs, r)) \<longleftrightarrow>
    (\<forall>g\<in>set (cfg_Groups cfg). distinct (g_Members g)) \<and>
    (\<exists>lv :: string \<Rightarrow> nat. \<forall>g\<in>set (cfg_Groups cfg). \<forall>m\<in>set (g_Members g). lv m < lv (g_ID g))"
proof
  have ok: "config_ok cfg" using Validate_ok [OF assms(1)] by (rule conjunct2)
  assume "\<exists>obs r. Build tun cfg = Ret (obs, r)"
  then obtain obs r where b: "Build tun cfg = Ret (obs, r)" by blast
  note inv = Build_inv [OF ok b]
  obtain rk where rk: "obs_ok rk (rt_outbounds r)" using inv(1) by blast
  have d: "distinct (g_Members g)" "\<forall>m\<in>set (g_Members g). rk m < rk (g_ID g)" if g: "g \<in> set (cfg_Groups cfg)" for g
  proof -
    from inv(4) g obtain ob where ob: "distinct (g_Members g)" "map_of (rt_outbounds r) (g_ID g) = Some ob" "set (group_order ob) = set (g_Members g)"
      unfolding inv(2) built_in_def by blast
    then show "distinct (g_Members g)" "\<forall>m\<in>set (g_Members g). rk m < rk (g_ID g)" using obs_okD(2) [OF rk ob(2)] by auto
  qed
  then show "(\<forall>g\<in>set (cfg_Groups cfg). distinct (g_Members g)) \<and>
    (\<exists>lv :: string \<Rightarrow> nat. \<forall>g\<in>set (cfg_Groups cfg). \<forall>m\<in>set (g_Members g). lv m < lv (g_ID g))" by blast
next
  have ok: "config_ok cfg" using Validate_ok [OF assms(1)] by (rule conjunct2)
  assume "(\<forall>g\<in>set (cfg_Groups cfg). distinct (g_Members g)) \<and>
    (\<exists>lv :: string \<Rightarrow> nat. \<forall>g\<in>set (cfg_Groups cfg). \<forall>m\<in>set (g_Members g). lv m < lv (g_ID g))"
  then obtain lv :: "string \<Rightarrow> nat" where a: "\<forall>g\<in>set (cfg_Groups cfg). distinct (g_Members g)"
    "\<forall>g\<in>set (cfg_Groups cfg). \<forall>m\<in>set (g_Members g). lv m < lv (g_ID g)" by blast
  note base = base_outbounds [OF ok assms(2)]
  obtain rk where rk: "obs_ok rk (add_direct ns)" using base(1) by blast
  have "set (outbound_ids cfg) = dom (map_of (add_direct ns)) \<union> g_ID ` set (cfg_Groups cfg)" using base(2) by (auto simp: outbound_ids_def)
  then have "\<exists>obs. build_groups (cfg_Groups cfg) (add_direct ns) = Ret obs"
    using config_ok_ids(5) [OF ok] a by (intro build_groups_complete [OF rk base(3), of lv]) blast
  moreover have "\<not> list_ex (\<lambda>i. i_Type i = ''tun'' \<and> \<not> tun) (cfg_Inbounds cfg)" using assms(3) by (auto simp: list_ex_iff)
  ultimately show "\<exists>obs r. Build tun cfg = Ret (obs, r)" using assms(2) by (auto simp: Build_def)
qed

lemma Build_ends:
  assumes "build_nodes (cfg_Nodes cfg) [] = Ret ns" "tun \<or> (\<forall>i\<in>set (cfg_Inbounds cfg). i_Type i \<noteq> ''tun'')"
  shows "(\<exists>obs r. Build tun cfg = Ret (obs, r)) \<or> (\<exists>ids. Build tun cfg = Err (UnresolvedGroups ids))"
proof -
  have "\<not> list_ex (\<lambda>i. i_Type i = ''tun'' \<and> \<not> tun) (cfg_Inbounds cfg)" using assms(2) by (auto simp: list_ex_iff)
  then show ?thesis
    using build_groups_result [of "cfg_Groups cfg" "add_direct ns"] assms(1) by (auto simp: Build_def)
qed

text \<open>
  C39: when a validated configuration builds: provided every node can be constructed and TUN is
  available if it is asked for, \<^verbatim>\<open>Build\<close> ends, with a router exactly when no group lists a
  member twice and the groups are not cyclic (their members can be ranked below them), whatever order they
  are declared in; and otherwise it reports the unresolved groups.
\<close>

theorem Build_iff_acyclic:
  assumes "Validate uriScheme cfg0 = Ret cfg" "build_nodes (cfg_Nodes cfg) [] = Ret ns" "tun \<or> (\<forall>i\<in>set (cfg_Inbounds cfg). i_Type i \<noteq> ''tun'')"
  shows "((\<exists>obs r. Build tun cfg = Ret (obs, r)) \<longleftrightarrow>
      (\<forall>g\<in>set (cfg_Groups cfg). distinct (g_Members g)) \<and>
      (\<exists>lv :: string \<Rightarrow> nat. \<forall>g\<in>set (cfg_Groups cfg). \<forall>m\<in>set (g_Members g). lv m < lv (g_ID g))) \<and>
    ((\<exists>obs r. Build tun cfg = Ret (obs, r)) \<or> (\<exists>ids. Build tun cfg = Err (UnresolvedGroups ids)))"
  by (intro conjI Build_iff [OF assms] Build_ends [OF assms(2,3)])

theorem Build_iff_acyclic_witness:
  "(\<exists>obs r. Build True (set_defaults sample_config) = Ret (obs, r)) \<longleftrightarrow>
    (\<forall>g\<in>set (cfg_Groups (set_defaults sample_config)). distinct (g_Members g)) \<and>
    (\<exists>lv :: string \<Rightarrow> nat. \<forall>g\<in>set (cfg_Groups (set_defaults sample_config)). \<forall>m\<in>set (g_Members g). lv m < lv (g_ID g))"
proof -
  have "(case build_nodes (cfg_Nodes (set_defaults sample_config)) [] of Ret _ \<Rightarrow> True | _ \<Rightarrow> False)" by code_simp
  then obtain ns where "build_nodes (cfg_Nodes (set_defaults sample_config)) [] = Ret ns" by (auto split: go.splits)
  from Build_iff_acyclic [OF sample_config_valid this, of True] show ?thesis by blast
qed

end
