(* ===== verification/Lifecycle.thy ===== *)
theory Lifecycle
  imports Runtime
begin

text \<open>
  Starting and stopping the core (\<^verbatim>\<open>core/runtime.go\<close>, \<^verbatim>\<open>Start\<close>, \<^verbatim>\<open>closeStarted\<close>, \<^verbatim>\<open>startGroupRefresh\<close> and
  \<^verbatim>\<open>Close\<close>). The log records which resources were opened and closed: proxy listeners, the control
  API, TUN devices and the refresh workers of URL test groups. The environment decides which
  listeners and devices come up. A TUN manager whose \<^verbatim>\<open>Start\<close> fails may have set up a part of its
  device, so its opening is logged too and it has to be closed.
\<close>

section \<open>Model\<close>

datatype resource = Listener string | APIServer string | Tunnel string | Refresher string

datatype log_event = Opened resource | Stopped resource

record runtime =
  ru_cfg :: Config
  ru_outbounds :: outbounds
  ru_router :: "router option"
  ru_prepared :: bool
  ru_inbounds :: "string list"
  ru_tunnels :: "string list"
  ru_api :: "(string \<times> bool) option"
  ru_refresh :: "string list option"
  ru_log :: "log_event list"
  ru_routerClosed :: bool
  ru_closedOutbounds :: "string list"

text \<open>
  The API controller is its address and whether it serves; closing one that does not serve does
  nothing. The last two fields record the calls of \<^verbatim>\<open>Close\<close> on the router and on the outbounds.
\<close>

record start_world =
  sw_results :: "(string \<times> (load_error + ruleset)) list"
  sw_listen :: "string \<Rightarrow> bool"
  sw_api :: bool
  sw_tunNew :: "InboundConfig \<Rightarrow> bool"
  sw_tunStart :: "InboundConfig \<Rightarrow> bool"

datatype start_error = PrepareFailed runtime_error | ListenFailed string | APIFailed | TunConfigure string | TunFailed string

definition stop :: "resource list \<Rightarrow> runtime \<Rightarrow> runtime" where
  "stop rs ru = ru\<lparr>ru_log := ru_log ru @ map Stopped rs\<rparr>"

definition open_one :: "resource \<Rightarrow> runtime \<Rightarrow> runtime" where
  "open_one x ru = ru\<lparr>ru_log := ru_log ru @ [Opened x]\<rparr>"

definition stop_inbounds :: "runtime \<Rightarrow> runtime" where
  "stop_inbounds ru = (stop (map Listener (ru_inbounds ru)) ru)\<lparr>ru_inbounds := []\<rparr>"

definition closeStarted :: "runtime \<Rightarrow> runtime" where
  "closeStarted ru =
     (let ru1 = (stop (map Tunnel (List.rev (ru_tunnels ru))) ru)\<lparr>ru_tunnels := []\<rparr>;
          ru2 = (case ru_api ru1 of
                   None \<Rightarrow> ru1
                 | Some (addr, serving) \<Rightarrow> (stop (if serving then [APIServer addr] else []) ru1)\<lparr>ru_api := None\<rparr>) in
      stop_inbounds ru2)"

fun start_inbounds :: "(string \<Rightarrow> bool) \<Rightarrow> InboundConfig list \<Rightarrow> runtime \<Rightarrow> start_error option \<times> runtime" where
  "start_inbounds listen [] ru = (None, ru)"
| "start_inbounds listen (i # is) ru =
     (if i_Type i \<noteq> ''mixed'' \<and> i_Type i \<noteq> ''socks'' \<and> i_Type i \<noteq> ''http'' then start_inbounds listen is ru
      else
        (let addr = inbound_address i in
         if \<not> listen addr then (Some (ListenFailed addr), stop_inbounds ru)
         else start_inbounds listen is ((open_one (Listener addr) ru)\<lparr>ru_inbounds := ru_inbounds ru @ [addr]\<rparr>)))"

fun start_tunnels :: "(InboundConfig \<Rightarrow> bool) \<Rightarrow> (InboundConfig \<Rightarrow> bool) \<Rightarrow> InboundConfig list \<Rightarrow> runtime \<Rightarrow> start_error option \<times> runtime" where
  "start_tunnels new start [] ru = (None, ru)"
| "start_tunnels new start (i # is) ru =
     (if i_Type i \<noteq> ''tun'' then start_tunnels new start is ru
      else if \<not> new i then (Some (TunConfigure (i_Tag i)), closeStarted ru)
      else
        (let ru1 = open_one (Tunnel (i_Tag i)) ru in
         if \<not> start i then (Some (TunFailed (i_Tag i)), closeStarted (stop [Tunnel (i_Tag i)] ru1))
         else start_tunnels new start is (ru1\<lparr>ru_tunnels := ru_tunnels ru1 @ [i_Tag i]\<rparr>)))"

text \<open>The groups that get a refresh worker and the period of one, in nanoseconds.\<close>

definition refreshed :: "runtime \<Rightarrow> GroupConfig \<Rightarrow> bool" where
  "refreshed ru gc \<longleftrightarrow> g_Type gc \<in> {''urltest'', ''url-test''} \<and>
     (case map_of (ru_outbounds ru) (g_ID gc) of Some ob \<Rightarrow> group_current ob \<noteq> None | None \<Rightarrow> False)"

definition refresh_interval :: "GroupConfig \<Rightarrow> int" where
  "refresh_interval gc =
     (let interval = g_Interval gc * 1000000000 in if interval < 10 * 1000000000 then 5 * 60 * 1000000000 else interval)"

definition startGroupRefresh :: "runtime \<Rightarrow> runtime" where
  "startGroupRefresh ru =
     (let gs = map g_ID (filter (refreshed ru) (cfg_Groups (ru_cfg ru))) in
      ru\<lparr>ru_refresh := Some gs, ru_log := ru_log ru @ map (\<lambda>g. Opened (Refresher g)) gs\<rparr>)"

definition Start :: "start_world \<Rightarrow> runtime \<Rightarrow> start_error option \<times> runtime" where
  "Start w ru =
     (case PrepareRuleSets (sw_results w) (ru_prepared ru) (ru_router ru) of
        Err e \<Rightarrow> (Some (PrepareFailed e), ru)
      | Panic \<Rightarrow> (None, ru)
      | Ret (prepared, router) \<Rightarrow>
          (case start_inbounds (sw_listen w) (cfg_Inbounds (ru_cfg ru)) (ru\<lparr>ru_prepared := prepared, ru_router := router\<rparr>) of
             (Some e, ru1) \<Rightarrow> (Some e, ru1)
           | (None, ru1) \<Rightarrow>
               (let addr = api_Listen (cfg_API (ru_cfg ru)); ru2 = ru1\<lparr>ru_api := Some (addr, sw_api w)\<rparr> in
                if \<not> sw_api w then (Some APIFailed, stop_inbounds ru2)
                else
                  (case start_tunnels (sw_tunNew w) (sw_tunStart w) (cfg_Inbounds (ru_cfg ru)) (open_one (APIServer addr) ru2) of
                     (Some e, ru3) \<Rightarrow> (Some e, ru3)
                   | (None, ru3) \<Rightarrow> (None, startGroupRefresh ru3)))))"

definition Close_runtime :: "runtime \<Rightarrow> runtime" where
  "Close_runtime ru =
     (let ru1 = (case ru_refresh ru of None \<Rightarrow> ru | Some gs \<Rightarrow> (stop (map Refresher gs) ru)\<lparr>ru_refresh := None\<rparr>) in
      (closeStarted ru1)\<lparr>ru_routerClosed := (ru_routerClosed ru \<or> ru_router ru \<noteq> None), ru_closedOutbounds := map fst (ru_outbounds ru)\<rparr>)"

section \<open>What is running\<close>

fun running :: "log_event list \<Rightarrow> resource set \<Rightarrow> resource set" where
  "running [] X = X"
| "running (Opened x # es) X = running es (insert x X)"
| "running (Stopped x # es) X = running es (X - {x})"

lemma running_append [simp]: "running (es @ fs) X = running fs (running es X)"
  by (induction es X rule: running.induct) auto

lemma running_stopped [simp]: "running (map Stopped xs) X = X - set xs"
  by (induction xs arbitrary: X) auto

lemma running_stopped_by [simp]: "running (map (Stopped \<circ> f) xs) X = X - f ` set xs"
  by (induction xs arbitrary: X) auto

lemma running_opened [simp]: "running (map (\<lambda>g. Opened (f g)) gs) X = X \<union> f ` set gs"
  by (induction gs arbitrary: X) auto

text \<open>The resources the fields of the runtime account for.\<close>

definition accounted :: "runtime \<Rightarrow> resource set" where
  "accounted ru = Listener ` set (ru_inbounds ru) \<union> Tunnel ` set (ru_tunnels ru) \<union>
     (case ru_api ru of Some (addr, True) \<Rightarrow> {APIServer addr} | _ \<Rightarrow> {}) \<union>
     (case ru_refresh ru of Some gs \<Rightarrow> Refresher ` set gs | None \<Rightarrow> {})"

definition consistent :: "runtime \<Rightarrow> bool" where
  "consistent ru \<longleftrightarrow> running (ru_log ru) {} = accounted ru"

lemma stop_inbounds_consistent: "consistent ru \<Longrightarrow> consistent (stop_inbounds ru)"
  by (auto simp: consistent_def accounted_def stop_inbounds_def stop_def split: option.splits bool.splits)

text \<open>Closing what was started stops everything but the refresh workers.\<close>

lemma closeStarted_running:
  assumes "running (ru_log ru) {} \<subseteq> accounted ru"
  shows "running (ru_log (closeStarted ru)) {} \<subseteq> (case ru_refresh ru of Some gs \<Rightarrow> Refresher ` set gs | None \<Rightarrow> {})"
    "accounted (closeStarted ru) = (case ru_refresh ru of Some gs \<Rightarrow> Refresher ` set gs | None \<Rightarrow> {})"
  using assms
  by (auto simp: accounted_def closeStarted_def stop_inbounds_def stop_def Let_def split: option.splits bool.splits prod.splits)

text \<open>Starting listeners and devices keeps the account, and leaves none of them open when it fails.\<close>

lemma start_inbounds_ok:
  assumes "consistent ru" "start_inbounds listen is ru = (e, ru')"
  shows "consistent ru' \<and> ru_tunnels ru' = ru_tunnels ru \<and> ru_api ru' = ru_api ru \<and> ru_refresh ru' = ru_refresh ru \<and>
    (e \<noteq> None \<longrightarrow> ru_inbounds ru' = []) \<and> (e = None \<longrightarrow> ru_inbounds ru' = ru_inbounds ru @ map inbound_address (filter (\<lambda>i. i_Type i \<in> {''mixed'', ''socks'', ''http''}) is))"
  using assms
proof (induction "is" arbitrary: ru)
  case (Cons i "is")
  show ?case
  proof (cases "i_Type i \<in> {''mixed'', ''socks'', ''http''}")
    case False
    then have "start_inbounds listen (i # is) ru = start_inbounds listen is ru" by simp
    with False Cons.IH [OF Cons.prems(1)] Cons.prems(2) show ?thesis by simp
  next
    case proxy: True
    let ?ru = "(open_one (Listener (inbound_address i)) ru)\<lparr>ru_inbounds := ru_inbounds ru @ [inbound_address i]\<rparr>"
    show ?thesis
    proof (cases "listen (inbound_address i)")
      case True
      then have eq: "start_inbounds listen (i # is) ru = start_inbounds listen is ?ru" using proxy by (auto simp: Let_def)
      have "consistent ?ru" using Cons.prems(1) by (auto simp: consistent_def accounted_def open_one_def)
      from Cons.IH [OF this] Cons.prems(2) proxy show ?thesis unfolding eq by (auto simp: open_one_def)
    next
      case False
      then have "start_inbounds listen (i # is) ru = (Some (ListenFailed (inbound_address i)), stop_inbounds ru)" using proxy by (auto simp: Let_def)
      with Cons.prems stop_inbounds_consistent [OF Cons.prems(1)] show ?thesis by (auto simp: stop_inbounds_def stop_def)
    qed
  qed
qed simp

lemma open_tunnel_consistent: "consistent ru \<Longrightarrow> consistent ((open_one (Tunnel t) ru)\<lparr>ru_tunnels := ru_tunnels (open_one (Tunnel t) ru) @ [t]\<rparr>)"
  by (auto simp: consistent_def accounted_def open_one_def)

lemma closeStarted_refresh [simp]: "ru_refresh (closeStarted x) = ru_refresh x"
  by (auto simp: closeStarted_def stop_inbounds_def stop_def Let_def split: option.splits)

lemma start_tunnels_ok:
  assumes "consistent ru" "ru_refresh ru = None" "start_tunnels new start is ru = (e, ru')"
  shows "(e \<noteq> None \<longrightarrow> running (ru_log ru') {} = {} \<and> accounted ru' = {} \<and> ru_refresh ru' = None) \<and>
    (e = None \<longrightarrow> consistent ru' \<and> ru_inbounds ru' = ru_inbounds ru \<and> ru_api ru' = ru_api ru \<and> ru_refresh ru' = None \<and>
       ru_tunnels ru' = ru_tunnels ru @ map i_Tag (filter (\<lambda>i. i_Type i = ''tun'') is))"
  using assms
proof (induction "is" arbitrary: ru)
  case (Cons i "is")
  let ?t = "i_Tag i" and ?o = "open_one (Tunnel (i_Tag i)) ru"
  let ?ru = "?o\<lparr>ru_tunnels := ru_tunnels ?o @ [?t]\<rparr>"
  have refl: "ru_refresh ?ru = None" using Cons.prems(2) by (simp add: open_one_def)
  consider (skip) "i_Type i \<noteq> ''tun''" | (unconf) "i_Type i = ''tun''" "\<not> new i" | (fail) "i_Type i = ''tun''" "new i" "\<not> start i"
    | (ok) "i_Type i = ''tun''" "new i" "start i" by blast
  then show ?case
  proof cases
    case skip
    then show ?thesis using Cons.IH [OF Cons.prems(1,2)] Cons.prems(3) by simp
  next
    case unconf
    then have "e = Some (TunConfigure ?t)" "ru' = closeStarted ru" using Cons.prems(3) by auto
    moreover have "running (ru_log ru) {} \<subseteq> accounted ru" using Cons.prems(1) by (simp add: consistent_def)
    ultimately show ?thesis using closeStarted_running [of ru] Cons.prems(2) by simp
  next
    case fail
    then have "e = Some (TunFailed ?t)" "ru' = closeStarted (stop [Tunnel ?t] ?o)" using Cons.prems(3) by (auto simp: Let_def)
    moreover have "running (ru_log (stop [Tunnel ?t] ?o)) {} \<subseteq> accounted (stop [Tunnel ?t] ?o)" "ru_refresh (stop [Tunnel ?t] ?o) = None"
      using Cons.prems(1,2) by (auto simp: consistent_def accounted_def stop_def open_one_def)
    ultimately show ?thesis using closeStarted_running [of "stop [Tunnel ?t] ?o"] by simp
  next
    case ok
    then have "start_tunnels new start (i # is) ru = start_tunnels new start is ?ru" by (simp add: Let_def)
    with Cons.IH [OF open_tunnel_consistent [OF Cons.prems(1)] refl] Cons.prems(3) ok(1) show ?thesis by (simp add: open_one_def)
  qed
qed simp

text \<open>A runtime that holds nothing open: before the first start and after a close.\<close>

definition idle :: "runtime \<Rightarrow> bool" where
  "idle ru \<longleftrightarrow> running (ru_log ru) {} = {} \<and> accounted ru = {} \<and> ru_refresh ru = None"

definition started :: "runtime \<Rightarrow> resource set" where
  "started ru = Listener ` inbound_address ` {i \<in> set (cfg_Inbounds (ru_cfg ru)). i_Type i \<in> {''mixed'', ''socks'', ''http''}} \<union>
     {APIServer (api_Listen (cfg_API (ru_cfg ru)))} \<union> Tunnel ` i_Tag ` {i \<in> set (cfg_Inbounds (ru_cfg ru)). i_Type i = ''tun''} \<union>
     Refresher ` g_ID ` {gc \<in> set (cfg_Groups (ru_cfg ru)). refreshed ru gc}"

lemma start_inbounds_frame: "start_inbounds listen is ru = (e, ru') \<Longrightarrow> ru_cfg ru' = ru_cfg ru \<and> ru_outbounds ru' = ru_outbounds ru"
  by (induction "is" arbitrary: ru) (auto simp: Let_def stop_inbounds_def stop_def open_one_def split: if_splits)

lemma start_tunnels_frame: "start_tunnels new start is ru = (None, ru') \<Longrightarrow> ru_cfg ru' = ru_cfg ru \<and> ru_outbounds ru' = ru_outbounds ru"
  by (induction "is" arbitrary: ru) (auto simp: Let_def open_one_def split: if_splits)

lemma PrepareRuleSets_np: "PrepareRuleSets rs p r \<noteq> Panic"
  by (auto simp: PrepareRuleSets_def split: option.splits prod.splits)

lemma idle_consistent: "idle ru \<Longrightarrow> consistent ru"
  by (simp add: idle_def consistent_def)

lemma idle_fields: "idle ru \<Longrightarrow> ru_inbounds ru = [] \<and> ru_tunnels ru = []"
  by (simp add: idle_def accounted_def)

lemma refresh_started:
  assumes "consistent ru" "ru_refresh ru = None"
  shows "running (ru_log (startGroupRefresh ru)) {} = accounted ru \<union> Refresher ` g_ID ` {gc \<in> set (cfg_Groups (ru_cfg ru)). refreshed ru gc}"
    "consistent (startGroupRefresh ru)"
  using assms by (auto simp: consistent_def startGroupRefresh_def accounted_def Let_def comp_def)

text \<open>The steps of a start, one case per way it can end.\<close>

text \<open>The part of a start behind the control API: the TUN devices and the refresh workers.\<close>

lemma start_rest_cases:
  assumes c3: "consistent ru3" "ru_refresh ru3 = None" "ru_tunnels ru3 = []" "ru_api ru3 = Some (api_Listen (cfg_API (ru_cfg ru)), True)"
    and in3: "ru_inbounds ru3 = map inbound_address (filter (\<lambda>i. i_Type i \<in> {''mixed'', ''socks'', ''http''}) (cfg_Inbounds (ru_cfg ru)))"
    and fr: "ru_cfg ru3 = ru_cfg ru" "ru_outbounds ru3 = ru_outbounds ru"
    and t: "start_tunnels new start (cfg_Inbounds (ru_cfg ru)) ru3 = (e4, ru4)"
    and res: "(e, ru') = (case e4 of None \<Rightarrow> (None, startGroupRefresh ru4) | Some x \<Rightarrow> (Some x, ru4))"
  shows "(e \<noteq> None \<longrightarrow> idle ru') \<and> (e = None \<longrightarrow> running (ru_log ru') {} = started ru \<and> consistent ru')"
proof (cases e4)
  case (Some x)
  with start_tunnels_ok [OF c3(1,2) t] have "idle ru4" by (simp add: idle_def)
  with Some res show ?thesis by simp
next
  case None
  note tb = start_tunnels_ok [OF c3(1,2) t]
  have eq: "ru_cfg ru4 = ru_cfg ru" "ru_outbounds ru4 = ru_outbounds ru" using fr start_tunnels_frame [OF t [unfolded None]] by simp_all
  have "accounted ru4 = Listener ` set (ru_inbounds ru3) \<union> Tunnel ` i_Tag ` {i \<in> set (cfg_Inbounds (ru_cfg ru)). i_Type i = ''tun''} \<union>
      {APIServer (api_Listen (cfg_API (ru_cfg ru)))}"
    using tb None c3(3,4) by (auto simp: accounted_def)
  moreover have "refreshed ru4 gc = refreshed ru gc" for gc by (simp add: refreshed_def eq)
  ultimately have "running (ru_log (startGroupRefresh ru4)) {} = started ru"
    using refresh_started(1) [of ru4] tb None in3 by (auto simp: started_def eq)
  then show ?thesis using res None refresh_started(2) [of ru4] tb by simp
qed

lemma Start_cases:
  assumes "idle ru" "Start w ru = (e, ru')"
  shows "(e \<noteq> None \<longrightarrow> idle ru') \<and> (e = None \<longrightarrow> running (ru_log ru') {} = started ru \<and> consistent ru')"
proof (cases "PrepareRuleSets (sw_results w) (ru_prepared ru) (ru_router ru)")
  case (Err x)
  then show ?thesis using assms by (auto simp: Start_def)
next
  case Panic
  then show ?thesis using PrepareRuleSets_np by blast
next
  case (Ret pr)
  obtain prepared router where pr: "pr = (prepared, router)" by fastforce
  let ?ru = "ru\<lparr>ru_prepared := prepared, ru_router := router\<rparr>" and ?is = "cfg_Inbounds (ru_cfg ru)"
  let ?addr = "api_Listen (cfg_API (ru_cfg ru))"
  have idle': "idle ?ru" using assms(1) by (simp add: idle_def accounted_def)
  obtain e1 ru1 where i: "start_inbounds (sw_listen w) ?is ?ru = (e1, ru1)" by fastforce
  note ib = start_inbounds_ok [OF idle_consistent [OF idle'] i] and fr = start_inbounds_frame [OF i]
  show ?thesis
  proof (cases e1)
    case (Some x)
    then have "e = Some x" "ru' = ru1" using assms(2) Ret pr i by (auto simp: Start_def)
    moreover have "idle ru1"
      using ib Some idle_fields [OF idle'] assms(1) by (auto simp: idle_def consistent_def accounted_def)
    ultimately show ?thesis by simp
  next
    case None
    let ?ru2 = "ru1\<lparr>ru_api := Some (?addr, sw_api w)\<rparr>" and ?ru3 = "open_one (APIServer ?addr) (ru1\<lparr>ru_api := Some (?addr, True)\<rparr>)"
    have in1: "ru_inbounds ru1 = map inbound_address (filter (\<lambda>i. i_Type i \<in> {''mixed'', ''socks'', ''http''}) ?is)" "ru_tunnels ru1 = []"
      "ru_refresh ru1 = None" "running (ru_log ru1) {} = Listener ` set (ru_inbounds ru1)"
      using ib None idle_fields [OF idle'] assms(1) by (auto simp: idle_def consistent_def accounted_def split: option.splits bool.splits)
    show ?thesis
    proof (cases "sw_api w")
      case False
      then have "e = Some APIFailed" "ru' = stop_inbounds ?ru2" using assms(2) Ret pr i None by (auto simp: Start_def Let_def)
      then show ?thesis using in1(2-4) False by (simp add: idle_def accounted_def stop_inbounds_def stop_def)
    next
      case True
      obtain e4 ru4 where t: "start_tunnels (sw_tunNew w) (sw_tunStart w) ?is ?ru3 = (e4, ru4)" by fastforce
      have "(e, ru') = (case e4 of None \<Rightarrow> (None, startGroupRefresh ru4) | Some x \<Rightarrow> (Some x, ru4))"
        using assms(2) Ret pr i None True t by (simp add: Start_def Let_def split: option.splits)
      moreover have "consistent ?ru3" using in1 by (simp add: consistent_def accounted_def open_one_def)
      ultimately show ?thesis using start_rest_cases [OF _ _ _ _ _ _ _ t] in1 fr by (simp add: open_one_def)
    qed
  qed
qed

lemma Close_idle:
  assumes "consistent ru"
  shows "idle (Close_runtime ru)"
proof -
  let ?ru = "case ru_refresh ru of None \<Rightarrow> ru | Some gs \<Rightarrow> (stop (map Refresher gs) ru)\<lparr>ru_refresh := None\<rparr>"
  have n: "ru_refresh ?ru = None" by (auto split: option.splits)
  have "running (ru_log ?ru) {} \<subseteq> accounted ?ru"
    using assms by (auto simp: consistent_def accounted_def stop_def split: option.splits bool.splits)
  from closeStarted_running [OF this] n have "running (ru_log (Close_runtime ru)) {} = {}" "accounted (Close_runtime ru) = {}"
    by (simp_all add: Close_runtime_def Let_def accounted_def)
  moreover have "ru_refresh (Close_runtime ru) = None" using n by (simp add: Close_runtime_def Let_def)
  ultimately show ?thesis by (simp add: idle_def)
qed

lemma Close_log:
  "\<exists>fs ts apis ls. ru_log (Close_runtime ru) = ru_log ru @ map Stopped (map Refresher fs @ map Tunnel ts @ map APIServer apis @ map Listener ls)"
proof -
  obtain fs where fs: "ru_log (case ru_refresh ru of None \<Rightarrow> ru | Some gs \<Rightarrow> (stop (map Refresher gs) ru)\<lparr>ru_refresh := None\<rparr>) =
      ru_log ru @ map Stopped (map Refresher fs)"
    by (cases "ru_refresh ru") (auto simp: stop_def intro: that [of "[]"])
  have "\<exists>ts apis ls. ru_log (closeStarted x) = ru_log x @ map Stopped (map Tunnel ts @ map APIServer apis @ map Listener ls)" for x
  proof (cases "ru_api x")
    case None
    then show ?thesis
      by (intro exI [of _ "List.rev (ru_tunnels x)"] exI [of _ "[]"] exI [of _ "ru_inbounds x"])
        (simp add: closeStarted_def stop_inbounds_def stop_def)
  next
    case (Some a)
    then show ?thesis
      by (intro exI [of _ "List.rev (ru_tunnels x)"] exI [of _ "if snd a then [fst a] else []"] exI [of _ "ru_inbounds x"])
        (auto simp: closeStarted_def stop_inbounds_def stop_def Let_def split: prod.splits)
  qed
  then obtain ts apis ls where "ru_log (closeStarted (case ru_refresh ru of None \<Rightarrow> ru | Some gs \<Rightarrow> (stop (map Refresher gs) ru)\<lparr>ru_refresh := None\<rparr>)) =
      (ru_log ru @ map Stopped (map Refresher fs)) @ map Stopped (map Tunnel ts @ map APIServer apis @ map Listener ls)"
    using fs by metis
  then have "ru_log (Close_runtime ru) = ru_log ru @ map Stopped (map Refresher fs @ map Tunnel ts @ map APIServer apis @ map Listener ls)"
    by (simp add: Close_runtime_def Let_def)
  then show ?thesis by blast
qed

section \<open>Properties\<close>

text \<open>
  C15: the core starts completely or not at all: when a start fails, at whichever listener, the control
  API or TUN device, nothing is left running; when it succeeds exactly the configured listeners, the
  API, the TUN devices and the refresh workers of the URL test groups run; and a close stops
  everything, refresh workers first, then TUN devices, so that their routes are gone before
  the API and the proxy listeners are, and closes every outbound.
\<close>

theorem Start_all_or_nothing:
  assumes "idle ru" "Start w ru = (e, ru')"
  shows "(e \<noteq> None \<longrightarrow> running (ru_log ru') {} = {}) \<and> (e = None \<longrightarrow> running (ru_log ru') {} = started ru) \<and>
    idle (Close_runtime ru') \<and> ru_closedOutbounds (Close_runtime ru') = map fst (ru_outbounds ru') \<and>
    (\<exists>fs ts apis ls. ru_log (Close_runtime ru') = ru_log ru' @ map Stopped (map Refresher fs @ map Tunnel ts @ map APIServer apis @ map Listener ls))"
proof -
  note s = Start_cases [OF assms]
  then have "consistent ru'" by (cases e) (auto intro: idle_consistent)
  then have "idle (Close_runtime ru')" by (rule Close_idle)
  moreover have "ru_closedOutbounds (Close_runtime ru') = map fst (ru_outbounds ru')" by (simp add: Close_runtime_def Let_def)
  ultimately show ?thesis using s Close_log by (auto simp: idle_def)
qed

definition runtime_example :: runtime where
  "runtime_example = \<lparr>ru_cfg = set_defaults sample_config, ru_outbounds = [], ru_router = Some (New ''g''), ru_prepared = False,
     ru_inbounds = [], ru_tunnels = [], ru_api = None, ru_refresh = None, ru_log = [], ru_routerClosed = False, ru_closedOutbounds = []\<rparr>"

theorem Start_all_or_nothing_witness:
  "\<exists>ru'. Start \<lparr>sw_results = [], sw_listen = (\<lambda>_. True), sw_api = True, sw_tunNew = (\<lambda>_. True), sw_tunStart = (\<lambda>_. True)\<rparr> runtime_example = (None, ru') \<and>
    running (ru_log ru') {} = started runtime_example \<and> idle (Close_runtime ru')"
proof -
  let ?w = "\<lparr>sw_results = [], sw_listen = (\<lambda>_. True), sw_api = True, sw_tunNew = (\<lambda>_. True), sw_tunStart = (\<lambda>_. True)\<rparr>"
  have i: "idle runtime_example" by (simp add: idle_def runtime_example_def accounted_def)
  obtain e ru' where s: "Start ?w runtime_example = (e, ru')" by fastforce
  have "e = None" using s
    by (auto simp: Start_def runtime_example_def sample_config_def set_defaults_def zero_Config_def PrepareRuleSets_def Let_def split: prod.splits option.splits)
  with Start_all_or_nothing [OF i s] s show ?thesis by auto
qed

end
