(* ===== verification/Vision.thy ===== *)
theory Vision
  imports VLESS
begin

text \<open>
  XTLS Vision padding over a VLESS stream (\<^verbatim>\<open>protocol/vless_vision.go\<close>) and the record-wise reads of
  \<^verbatim>\<open>tlsRecordConn\<close> (\<^verbatim>\<open>protocol/tls.go\<close>). The write half cuts the stream into frames until it has seen
  an application-data record, the read half undoes them; both halves fall back to the raw stream.
  The input of a connection is the bytes that will still arrive, a second list the bytes of the inner
  connection a \<^verbatim>\<open>Direct\<close> frame switches to.
\<close>

section \<open>Model\<close>

abbreviation visionCommandContinue :: u8 where "visionCommandContinue \<equiv> 0"
abbreviation visionCommandEnd :: u8 where "visionCommandEnd \<equiv> 1"
abbreviation visionCommandDirect :: u8 where "visionCommandDirect \<equiv> 2"
abbreviation visionMaxContentSize :: nat where "visionMaxContentSize \<equiv> 0xFFFF"

record vision_reader =
  firstRead :: bool
  readRaw :: bool
  readDirect :: bool
  vreadBuf :: bytes

record vision_writer =
  firstWrite :: bool
  writeRaw :: bool
  vwriteBuf :: bytes
  writeTLS :: bool
  writeCount :: nat

definition new_vision_reader :: vision_reader where
  "new_vision_reader = \<lparr>firstRead = True, readRaw = False, readDirect = False, vreadBuf = []\<rparr>"

definition new_vision_writer :: vision_writer where
  "new_vision_writer = \<lparr>firstWrite = True, writeRaw = False, vwriteBuf = [], writeTLS = False, writeCount = 0\<rparr>"

text \<open>The layers of a connection that \<^verbatim>\<open>unwrapTLSConn\<close> removes.\<close>

datatype layered = PlainConn | TLSLayer layered | ResponseLayer layered

fun unwrapTLSConn :: "layered \<Rightarrow> layered" where
  "unwrapTLSConn (ResponseLayer c) = unwrapTLSConn c"
| "unwrapTLSConn (TLSLayer c) = c"
| "unwrapTLSConn PlainConn = PlainConn"

definition readVisionContent :: "u8 \<Rightarrow> nat \<Rightarrow> nat \<Rightarrow> vision_reader \<Rightarrow> bytes \<Rightarrow> (conn_error, vision_reader \<times> bytes) go" where
  "readVisionContent cmd contentLen paddingLen c input =
     gbind (if 0 < contentLen then gbind (ReadFull contentLen input) (\<lambda>(content, r). Ret (c\<lparr>vreadBuf := vreadBuf c @ content\<rparr>, r))
            else Ret (c, input)) (\<lambda>(c1, r1).
     gbind (if 0 < paddingLen then Discard paddingLen r1 else Ret r1) (\<lambda>r2.
       let c2 = (if cmd = visionCommandDirect then c1\<lparr>readDirect := True\<rparr> else c1) in
       Ret (if cmd \<noteq> visionCommandContinue then c2\<lparr>readRaw := True\<rparr> else c2, r2)))"

text \<open>A frame header and its content: the part of the loop of \<^verbatim>\<open>Read\<close> that waits for the connection.\<close>

definition vision_frame :: "bytes \<Rightarrow> vision_reader \<Rightarrow> bytes \<Rightarrow> (conn_error, vision_reader \<times> bytes) go" where
  "vision_frame uuid c input =
     (if firstRead c then
        gbind (ReadFull 21 input) (\<lambda>(header, r).
        let c1 = c\<lparr>firstRead := False\<rparr> in
        if take 16 header \<noteq> uuid then Ret (c1\<lparr>readRaw := True, vreadBuf := vreadBuf c1 @ header\<rparr>, r)
        else
          gbind (idx header 16) (\<lambda>cmd. gbind (u16_at header 17) (\<lambda>contentLen. gbind (u16_at header 19) (\<lambda>paddingLen.
            readVisionContent cmd contentLen paddingLen c1 r))))
      else
        gbind (ReadFull 5 input) (\<lambda>(header, r).
        gbind (idx header 0) (\<lambda>cmd. gbind (u16_at header 1) (\<lambda>contentLen. gbind (u16_at header 3) (\<lambda>paddingLen.
          readVisionContent cmd contentLen paddingLen c r)))))"

lemma readVisionContent_shrinks: "readVisionContent cmd n m c input = Ret (c', r) \<Longrightarrow> length r \<le> length input"
proof -
  assume "readVisionContent cmd n m c input = Ret (c', r)"
  then obtain c1 r1 r2 where c1: "(if 0 < n then gbind (ReadFull n input) (\<lambda>(content, r). Ret (c\<lparr>vreadBuf := vreadBuf c @ content\<rparr>, r)) else Ret (c, input)) = Ret (c1, r1)"
    and r2: "(if 0 < m then Discard m r1 else Ret r1) = Ret r2" "r = r2"
    unfolding readVisionContent_def by (simp add: Let_def split: prod.splits) blast
  have "length r1 \<le> length input" using c1 by (cases "0 < n") (auto simp: ReadFull_eq_Ret)
  moreover have "length r2 \<le> length r1" using r2(1) by (auto simp: Discard_def split: if_splits)
  ultimately show ?thesis using r2(2) by simp
qed

lemma vision_frame_shrinks: "vision_frame uuid c input = Ret (c', r) \<Longrightarrow> length r < length input"
proof (cases "firstRead c")
  case True
  assume f: "vision_frame uuid c input = Ret (c', r)"
  with True obtain header r1 where h: "ReadFull 21 input = Ret (header, r1)" by (auto simp: vision_frame_def)
  have "length r \<le> length r1"
  proof (cases "take 16 header = uuid")
    case same: True
    with f True h obtain cmd n m where "readVisionContent cmd n m (c\<lparr>firstRead := False\<rparr>) r1 = Ret (c', r)"
      by (simp add: vision_frame_def Let_def) blast
    then show ?thesis by (rule readVisionContent_shrinks)
  next
    case False
    with f True h show ?thesis by (simp add: vision_frame_def Let_def)
  qed
  with h show ?thesis by (auto simp: ReadFull_eq_Ret)
next
  case False
  assume f: "vision_frame uuid c input = Ret (c', r)"
  with False obtain header r1 where h: "ReadFull 5 input = Ret (header, r1)" by (auto simp: vision_frame_def)
  from f False h obtain cmd n m where "readVisionContent cmd n m c r1 = Ret (c', r)"
    by (simp add: vision_frame_def) blast
  then have "length r \<le> length r1" by (rule readVisionContent_shrinks)
  with h show ?thesis by (auto simp: ReadFull_eq_Ret)
qed

text \<open>\<^verbatim>\<open>Read\<close>; the plain reads of the outer or inner connection return what is there, up to the size of the buffer.\<close>

definition conn_read :: "nat \<Rightarrow> bytes \<Rightarrow> (conn_error, bytes \<times> bytes) go" where
  "conn_read n input = (if input = [] then Err EOF else Ret (take n input, drop n input))"

function vision_Read :: "bytes \<Rightarrow> nat \<Rightarrow> vision_reader \<times> bytes \<times> bytes \<Rightarrow> (conn_error, bytes \<times> vision_reader \<times> bytes \<times> bytes) go" where
  "vision_Read uuid n (c, input, inner) =
     (if n = 0 then Ret ([], c, input, inner)
      else if 0 < length (vreadBuf c) then Ret (take n (vreadBuf c), c\<lparr>vreadBuf := drop n (vreadBuf c)\<rparr>, input, inner)
      else if readRaw c then
        (if readDirect c then gbind (conn_read n inner) (\<lambda>(b, r). Ret (b, c, input, r))
         else gbind (conn_read n input) (\<lambda>(b, r). Ret (b, c, r, inner)))
      else gbind (vision_frame uuid c input) (\<lambda>(c', r). vision_Read uuid n (c', r, inner)))"
  by pat_completeness auto
termination
  by (relation "measure (\<lambda>(uuid, n, c, input, inner). length input)") (auto dest: vision_frame_shrinks)

declare vision_Read.simps [simp del]

definition looksLikeTLSRecord :: "bytes \<Rightarrow> bool" where
  "looksLikeTLSRecord content = (if length content < 3 then True else 0x14 \<le> content ! 0 \<and> content ! 0 \<le> 0x17 \<and> content ! 1 = 0x03)"

fun bytes_contain :: "bytes \<Rightarrow> bytes \<Rightarrow> bool" where
  "bytes_contain pat [] = (pat = [])"
| "bytes_contain pat (x # xs) = (take (length pat) (x # xs) = pat \<or> bytes_contain pat xs)"

text \<open>The scan for a complete application-data record: the first offset that has one ends it.\<close>

definition has_app_data :: "bytes \<Rightarrow> bool" where
  "has_app_data content = list_ex (\<lambda>offset. content ! offset = 0x17 \<and> content ! (offset + 1) = 0x03 \<and> content ! (offset + 2) = 0x03 \<and>
     be16 (content ! (offset + 3)) (content ! (offset + 4)) \<le> length content - offset - 5) [0..<length content - 4]"

definition shouldEndPadding :: "bytes \<Rightarrow> vision_writer \<Rightarrow> bool \<times> vision_writer" where
  "shouldEndPadding content c =
     (let c1 = c\<lparr>writeCount := writeCount c + 1\<rparr>;
          c2 = (if bytes_contain [0x16, 0x03] content then c1\<lparr>writeTLS := True\<rparr> else c1) in
      if has_app_data content then (True, c2) else (\<not> writeTLS c2 \<and> 8 \<le> writeCount c2, c2))"

definition writeVisionFrame :: "bytes \<Rightarrow> (bytes \<Rightarrow> bool) \<Rightarrow> u8 \<Rightarrow> bytes \<Rightarrow> vision_writer \<Rightarrow> bytes \<Rightarrow> (conn_error, bytes) go \<times> vision_writer" where
  "writeVisionFrame uuid wok cmd content c out =
     (if visionMaxContentSize < length content then (Err (Refused ''vless vision: content length''), c)
      else
        (let header = (if firstWrite c then uuid else []) @ [cmd] @ put16 (length content) @ put16 0 in
         (send wok (header # (if 0 < length content then [content] else [])) out, c\<lparr>firstWrite := False\<rparr>)))"

text \<open>How many bytes the next frame takes; \<open>None\<close> when the loop waits for more.\<close>

definition vision_chunk :: "vision_writer \<Rightarrow> nat option" where
  "vision_chunk c =
     (let buf = vwriteBuf c in
      if looksLikeTLSRecord buf then
        (if length buf < 5 then None
         else let sz = 5 + be16 (buf ! 3) (buf ! 4) in if length buf < sz then None else Some (min sz visionMaxContentSize))
      else if length buf < 5 \<and> \<not> writeTLS c then None
      else Some (min (length buf) visionMaxContentSize))"

lemma vision_chunk_pos: "vision_chunk c = Some sz \<Longrightarrow> vwriteBuf c \<noteq> [] \<Longrightarrow> 0 < sz \<and> sz \<le> length (vwriteBuf c) \<and> sz \<le> 65535"
  by (auto simp: vision_chunk_def Let_def split: if_splits)

text \<open>One round of the loop, and the loop; the result carries the bytes written to the connection.\<close>

definition vision_round :: "bytes \<Rightarrow> (bytes \<Rightarrow> bool) \<Rightarrow> nat \<Rightarrow> vision_writer \<Rightarrow> bytes \<Rightarrow> (conn_error, bytes) go \<times> vision_writer" where
  "vision_round uuid wok sz c out =
     (let chunk = take sz (vwriteBuf c); (fin, c1) = shouldEndPadding chunk c;
          cmd = (if fin then visionCommandEnd else visionCommandContinue) in
      case writeVisionFrame uuid wok cmd chunk c1 out of
        (Ret out1, c2) \<Rightarrow>
          (let c3 = c2\<lparr>vwriteBuf := drop sz (vwriteBuf c2)\<rparr> in
           if cmd \<noteq> visionCommandContinue then
             (let c4 = c3\<lparr>writeRaw := True\<rparr> in
              if 0 < length (vwriteBuf c4) then
                (case send wok [vwriteBuf c4] out1 of
                   Ret out2 \<Rightarrow> (Ret out2, c4\<lparr>vwriteBuf := []\<rparr>)
                 | Err e \<Rightarrow> (Err e, c4)
                 | Panic \<Rightarrow> (Panic, c4))
              else (Ret out1, c4))
           else (Ret out1, c3))
      | (Err e, c2) \<Rightarrow> (Err e, c2)
      | (Panic, c2) \<Rightarrow> (Panic, c2))"

lemma shouldEndPadding_keeps: "shouldEndPadding chunk c = (fin, c1) \<Longrightarrow> vwriteBuf c1 = vwriteBuf c \<and> firstWrite c1 = firstWrite c \<and> writeRaw c1 = writeRaw c"
  by (auto simp: shouldEndPadding_def Let_def split: if_splits)

lemma vision_round_shrinks:
  assumes "vision_round uuid wok sz c out = (Ret out', c')" "vision_chunk c = Some sz" "vwriteBuf c \<noteq> []"
  shows "length (vwriteBuf c') < length (vwriteBuf c)"
proof -
  obtain fin c1 where s: "shouldEndPadding (take sz (vwriteBuf c)) c = (fin, c1)" by fastforce
  note k = shouldEndPadding_keeps [OF s] and p = vision_chunk_pos [OF assms(2,3)]
  show ?thesis
    using assms(1) k p assms(3) by (auto simp: vision_round_def s Let_def writeVisionFrame_def split: if_splits go.splits prod.splits)
qed

function vision_loop :: "bytes \<Rightarrow> (bytes \<Rightarrow> bool) \<Rightarrow> vision_writer \<Rightarrow> bytes \<Rightarrow> (conn_error, bytes) go \<times> vision_writer" where
  "vision_loop uuid wok c out =
     (if vwriteBuf c = [] then (Ret out, c)
      else
        (case vision_chunk c of
           None \<Rightarrow> (Ret out, c)
         | Some sz \<Rightarrow>
             (case vision_round uuid wok sz c out of
                (Ret out', c') \<Rightarrow> vision_loop uuid wok c' out'
              | (Err e, c') \<Rightarrow> (Err e, c')
              | (Panic, c') \<Rightarrow> (Panic, c'))))"
  by pat_completeness auto
termination
  by (relation "measure (\<lambda>(uuid, wok, c, out). length (vwriteBuf c))") (auto dest: vision_round_shrinks [OF sym])

declare vision_loop.simps [simp del]

definition vision_Write :: "bytes \<Rightarrow> (bytes \<Rightarrow> bool) \<Rightarrow> bytes \<Rightarrow> vision_writer \<Rightarrow> bytes \<Rightarrow> (conn_error, nat \<times> bytes) go \<times> vision_writer" where
  "vision_Write uuid wok p c out =
     (if length p = 0 then (Ret (0, out), c)
      else if writeRaw c then (gbind (send wok [p] out) (\<lambda>out'. Ret (length p, out')), c)
      else
        (case vision_loop uuid wok (c\<lparr>vwriteBuf := vwriteBuf c @ p\<rparr>) out of
           (r, c') \<Rightarrow> (gbind r (\<lambda>out'. Ret (length p, out')), c')))"

text \<open>\<^verbatim>\<open>tlsRecordConn.Read\<close>: whole TLS records, handed out in pieces.\<close>

definition tls_record_next :: "bytes \<Rightarrow> (conn_error, bytes \<times> bytes) go" where
  "tls_record_next input =
     gbind (ReadFull 5 input) (\<lambda>(header, r).
     gbind (u16_at header 3) (\<lambda>len.
     gbind (ReadFull len r) (\<lambda>(body, r'). Ret (header @ body, r'))))"

definition tlsRecord_Read :: "nat \<Rightarrow> bytes \<times> bytes \<Rightarrow> (conn_error, bytes \<times> bytes \<times> bytes) go" where
  "tlsRecord_Read = buffered_read tls_record_next"

section \<open>Reading a byte stream\<close>

text \<open>What a caller sees that reads with buffers of the given sizes until the first error.\<close>

fun read_all :: "(nat \<Rightarrow> 's \<Rightarrow> ('e, bytes \<times> 's) go) \<Rightarrow> nat list \<Rightarrow> 's \<Rightarrow> bytes" where
  "read_all rd [] s = []"
| "read_all rd (n # ns) s = (case rd n s of Ret (b, s') \<Rightarrow> b @ read_all rd ns s' | _ \<Rightarrow> [])"

locale byte_stream =
  fixes rd :: "nat \<Rightarrow> 's \<Rightarrow> ('e, bytes \<times> 's) go"
    and carries :: "'s \<Rightarrow> bytes \<Rightarrow> bool"
  assumes some_bytes: "carries s x \<Longrightarrow> x \<noteq> [] \<Longrightarrow> 0 < n \<Longrightarrow> \<exists>b s' y. rd n s = Ret (b, s') \<and> b \<noteq> [] \<and> x = b @ y \<and> carries s' y"
    and no_bytes: "carries s [] \<Longrightarrow> 0 < n \<Longrightarrow> \<exists>e. rd n s = Err e"
begin

lemma read_all_deliver:
  "carries s x \<Longrightarrow> \<forall>n\<in>set ns. 0 < n \<Longrightarrow>
   prefix (read_all rd ns s) x \<and> (length x \<le> length ns \<longrightarrow> read_all rd ns s = x)"
proof (induction ns arbitrary: s x)
  case (Cons n ns)
  show ?case
  proof (cases "x = []")
    case True
    with no_bytes [of s n] Cons.prems show ?thesis by auto
  next
    case False
    with some_bytes [OF Cons.prems(1)] Cons.prems(2) obtain b s' y where
      b: "rd n s = Ret (b, s')" "b \<noteq> []" "x = b @ y" "carries s' y" by (meson list.set_intros(1))
    have "length x \<le> Suc (length ns) \<Longrightarrow> length y \<le> length ns" using b(2,3) by (cases b) auto
    with Cons.IH [OF b(4)] Cons.prems(2) b(1,3) show ?thesis by auto
  qed
qed simp

end

section \<open>Frames\<close>

definition vframe :: "bytes \<Rightarrow> bool \<Rightarrow> u8 \<Rightarrow> bytes \<Rightarrow> bytes \<Rightarrow> bytes" where
  "vframe uuid f cmd c pad = (if f then uuid else []) @ [cmd] @ put16 (length c) @ put16 (length pad) @ c @ pad"

lemma readVisionContent_enc:
  "readVisionContent cmd (length c) (length pad) s (c @ pad @ rest) =
   Ret (s\<lparr>vreadBuf := vreadBuf s @ c, readDirect := (cmd = 2 \<or> readDirect s), readRaw := (cmd \<noteq> 0 \<or> readRaw s)\<rparr>, rest)"
  by (cases s) (simp add: readVisionContent_def Let_def)

lemma vision_frame_enc:
  assumes "length uuid = 16" "length c \<le> 65535" "length pad \<le> 65535" "firstRead s = f"
  shows "vision_frame uuid s (vframe uuid f cmd c pad @ rest) =
    Ret (s\<lparr>firstRead := False, vreadBuf := vreadBuf s @ c, readDirect := (cmd = 2 \<or> readDirect s), readRaw := (cmd \<noteq> 0 \<or> readRaw s)\<rparr>, rest)"
proof -
  let ?h = "[cmd] @ put16 (length c) @ put16 (length pad)"
  have m: "length c mod 65536 = length c" "length pad mod 65536 = length pad" using assms(2,3) by simp_all
  show ?thesis
  proof (cases f)
    case True
    let ?H = "uuid @ ?h"
    have H: "vframe uuid f cmd c pad @ rest = ?H @ (c @ pad @ rest)" using True by (simp add: vframe_def)
    have len: "length ?H = 21" using assms(1) by simp
    have rf: "ReadFull 21 (?H @ (c @ pad @ rest)) = Ret (?H, c @ pad @ rest)" by (rule ReadFull_app_n) (simp only: len)
    have hd: "idx ?H 16 = (Ret cmd :: (conn_error, u8) go)" "u16_at ?H 17 = (Ret (length c) :: (conn_error, nat) go)"
      "u16_at ?H 19 = (Ret (length pad) :: (conn_error, nat) go)" "take 16 ?H = uuid"
      using assms(1) m by (simp_all add: nth_append put16_def u16_at_def slc_def)
    have "firstRead s" using True assms(4) by simp
    then show ?thesis
      unfolding H vision_frame_def rf using hd readVisionContent_enc [of cmd c pad "s\<lparr>firstRead := False\<rparr>" rest]
      by (cases s) (simp only: Let_def if_True gbind_simps prod.case simp_thms if_False, simp)
  next
    case False
    have H: "vframe uuid f cmd c pad @ rest = ?h @ (c @ pad @ rest)" using False by (simp add: vframe_def)
    have rf: "ReadFull 5 (?h @ (c @ pad @ rest)) = Ret (?h, c @ pad @ rest)" by (rule ReadFull_app_n) simp
    have hd: "idx ?h 0 = (Ret cmd :: (conn_error, u8) go)" "u16_at ?h 1 = (Ret (length c) :: (conn_error, nat) go)"
      "u16_at ?h 3 = (Ret (length pad) :: (conn_error, nat) go)"
      using m by (simp_all add: put16_def u16_at_def slc_def)
    have "\<not> firstRead s" using False assms(4) by simp
    then show ?thesis
      unfolding H vision_frame_def rf using hd readVisionContent_enc [of cmd c pad s rest]
      by (cases s) (simp only: Let_def if_False gbind_simps prod.case, simp)
  qed
qed

text \<open>
  A padded stream and the bytes it carries: frames that continue, and one that ends the padding, after
  which the stream is raw. Frames may carry padding of their own and no content.
\<close>

inductive vframes :: "bytes \<Rightarrow> bool \<Rightarrow> bytes \<Rightarrow> bytes \<Rightarrow> bool" for uuid where
  empty: "vframes uuid f [] []"
| cont: "length c \<le> 65535 \<Longrightarrow> length pad \<le> 65535 \<Longrightarrow> vframes uuid False input x \<Longrightarrow>
    vframes uuid f (vframe uuid f visionCommandContinue c pad @ input) (c @ x)"
| fin: "length c \<le> 65535 \<Longrightarrow> length pad \<le> 65535 \<Longrightarrow> vframes uuid f (vframe uuid f visionCommandEnd c pad @ rest) (c @ rest)"

definition vcarries :: "bytes \<Rightarrow> vision_reader \<times> bytes \<times> bytes \<Rightarrow> bytes \<Rightarrow> bool" where
  "vcarries uuid s x = (case s of (c, input, inner) \<Rightarrow>
     \<not> readDirect c \<and> (\<exists>y. x = vreadBuf c @ y \<and> (if readRaw c then y = input else vframes uuid (firstRead c) input y)))"

lemma vision_Read_buffered:
  assumes "0 < n" "vreadBuf c \<noteq> []"
  shows "vision_Read uuid n (c, input, inner) = Ret (take n (vreadBuf c), c\<lparr>vreadBuf := drop n (vreadBuf c)\<rparr>, input, inner)"
  using assms by (simp add: vision_Read.simps)

lemma vision_Read_raw:
  assumes "0 < n" "vreadBuf c = []" "readRaw c" "\<not> readDirect c"
  shows "vision_Read uuid n (c, input, inner) = (if input = [] then Err EOF else Ret (take n input, c, drop n input, inner))"
  using assms by (simp add: vision_Read.simps conn_read_def)

text \<open>A reader whose buffer is empty and whose stream starts with a frame takes the frame and tries again.\<close>

lemma vision_Read_frame:
  assumes "length uuid = 16" "0 < n" "vreadBuf c = []" "\<not> readRaw c" "length x \<le> 65535" "length pad \<le> 65535"
  shows "vision_Read uuid n (c, vframe uuid (firstRead c) cmd x pad @ rest, inner) =
    vision_Read uuid n (c\<lparr>firstRead := False, vreadBuf := x, readDirect := (cmd = 2 \<or> readDirect c), readRaw := (cmd \<noteq> 0)\<rparr>, rest, inner)"
  using assms by (subst vision_Read.simps) (simp add: vision_frame_enc)

lemma vision_Read_from_buffer:
  assumes "0 < n" "vcarries uuid (c, input, inner) z" "vreadBuf c \<noteq> []"
  shows "\<exists>b s' y. vision_Read uuid n (c, input, inner) = Ret (b, s') \<and> b \<noteq> [] \<and> z = b @ y \<and> vcarries uuid s' y"
proof -
  from assms(2) obtain y where y: "\<not> readDirect c" "z = vreadBuf c @ y" "if readRaw c then y = input else vframes uuid (firstRead c) input y"
    by (auto simp: vcarries_def)
  have "z = take n (vreadBuf c) @ drop n (vreadBuf c) @ y" using y(2) by simp
  moreover have "vcarries uuid (c\<lparr>vreadBuf := drop n (vreadBuf c)\<rparr>, input, inner) (drop n (vreadBuf c) @ y)" using y by (simp add: vcarries_def)
  moreover have "take n (vreadBuf c) \<noteq> []" using assms(1,3) by simp
  ultimately show ?thesis using vision_Read_buffered [OF assms(1,3)] by metis
qed

lemma vision_Read_from_raw:
  assumes "0 < n" "vreadBuf c = []" "readRaw c" "\<not> readDirect c" "input \<noteq> []"
  shows "\<exists>b s' y. vision_Read uuid n (c, input, inner) = Ret (b, s') \<and> b \<noteq> [] \<and> input = b @ y \<and> vcarries uuid s' y"
proof -
  have "vcarries uuid (c, drop n input, inner) (drop n input)" using assms by (simp add: vcarries_def)
  moreover have "input = take n input @ drop n input" "take n input \<noteq> []" using assms(1,5) by simp_all
  ultimately show ?thesis using vision_Read_raw [OF assms(1-4)] assms(5) by metis
qed

lemma vision_Read_from_frames:
  assumes "length uuid = 16" "0 < n"
    and "vframes uuid f input y" "y \<noteq> []" "vreadBuf c = []" "\<not> readRaw c" "\<not> readDirect c" "firstRead c = f"
  shows "\<exists>b s' z. vision_Read uuid n (c, input, inner) = Ret (b, s') \<and> b \<noteq> [] \<and> y = b @ z \<and> vcarries uuid s' z"
  using assms(3-8)
proof (induction arbitrary: c rule: vframes.induct)
  case (cont x pad input y f)
  let ?c = "c\<lparr>firstRead := False, vreadBuf := x, readDirect := False, readRaw := False\<rparr>"
  have step: "vision_Read uuid n (c, vframe uuid f 0 x pad @ input, inner) = vision_Read uuid n (?c, input, inner)"
    using vision_Read_frame [OF assms(1,2) cont.prems(2,3) cont.hyps(1,2), of 0 input inner] cont.prems(4,5) by simp
  show ?case
  proof (cases "x = []")
    case True
    with cont.IH [of ?c] cont.prems(1) show ?thesis unfolding step by simp
  next
    case False
    have "vcarries uuid (?c, input, inner) (x @ y)" using cont.hyps(3) by (simp add: vcarries_def)
    from vision_Read_from_buffer [OF assms(2) this] False show ?thesis unfolding step by simp
  qed
next
  case (fin x pad f rest)
  let ?c = "c\<lparr>firstRead := False, vreadBuf := x, readDirect := False, readRaw := True\<rparr>"
  have step: "vision_Read uuid n (c, vframe uuid f 1 x pad @ rest, inner) = vision_Read uuid n (?c, rest, inner)"
    using vision_Read_frame [OF assms(1,2) fin.prems(2,3) fin.hyps(1,2), of 1 rest inner] fin.prems(4,5) by simp
  show ?case
  proof (cases "x = []")
    case True
    with vision_Read_from_raw [OF assms(2), of ?c rest] fin.prems(1) show ?thesis unfolding step by simp
  next
    case False
    have "vcarries uuid (?c, rest, inner) (x @ rest)" by (simp add: vcarries_def)
    from vision_Read_from_buffer [OF assms(2) this] False show ?thesis unfolding step by simp
  qed
qed simp

lemma vision_Read_some:
  assumes "length uuid = 16" "vcarries uuid s x" "x \<noteq> []" "0 < n"
  shows "\<exists>b s' y. vision_Read uuid n s = Ret (b, s') \<and> b \<noteq> [] \<and> x = b @ y \<and> vcarries uuid s' y"
proof -
  obtain c input inner where s: "s = (c, input, inner)" by (cases s)
  show ?thesis
  proof (cases "vreadBuf c = []")
    case False
    with vision_Read_from_buffer [OF assms(4)] assms(2) show ?thesis by (simp add: s)
  next
    case True
    with assms(2) have c: "\<not> readDirect c" "if readRaw c then x = input else vframes uuid (firstRead c) input x"
      by (auto simp: s vcarries_def)
    show ?thesis
    proof (cases "readRaw c")
      case r: True
      with c(2) have "x = input" by simp
      with vision_Read_from_raw [OF assms(4) True r c(1), of input uuid inner] assms(3) show ?thesis by (simp only: s simp_thms)
    next
      case r: False
      with c(2) have "vframes uuid (firstRead c) input x" by simp
      from vision_Read_from_frames [OF assms(1,4) this assms(3) True r c(1) refl] show ?thesis by (simp only: s)
    qed
  qed
qed

lemma vision_Read_none:
  assumes "length uuid = 16" "vcarries uuid s []" "0 < n"
  shows "\<exists>e. vision_Read uuid n s = Err e"
proof -
  have frames: "\<exists>e. vision_Read uuid n (c, input, inner) = Err e"
    if "vframes uuid f input y" "y = []" "vreadBuf c = []" "\<not> readRaw c" "\<not> readDirect c" "firstRead c = f" for f c input inner y
    using that
  proof (induction arbitrary: c rule: vframes.induct)
    case (empty f)
    then show ?case using assms(3) by (subst vision_Read.simps) (simp add: vision_frame_def)
  next
    case (cont x pad input y f)
    then show ?case using vision_Read_frame [OF assms(1,3) cont.prems(2,3) cont.hyps(1,2), of 0 input inner] cont.IH [of "c\<lparr>firstRead := False, vreadBuf := x, readDirect := False, readRaw := False\<rparr>"]
      by simp
  next
    case (fin x pad f rest)
    then show ?case using vision_Read_frame [OF assms(1,3) fin.prems(2,3) fin.hyps(1,2), of 1 rest inner]
      by (simp add: vision_Read_raw [OF assms(3)])
  qed
  obtain c input inner where s: "s = (c, input, inner)" by (cases s)
  with assms(2) frames vision_Read_raw [OF assms(3)] show ?thesis by (auto simp: vcarries_def split: if_splits)
qed

text \<open>The two halves of the connection's reads are byte streams: of a padded stream, and of TLS records.\<close>

interpretation vision: byte_stream "vision_Read uuid" "\<lambda>s x. length uuid = 16 \<and> vcarries uuid s x" for uuid
proof unfold_locales
  fix s x n assume "length uuid = 16 \<and> vcarries uuid s x" "x \<noteq> []" "0 < (n :: nat)"
  then show "\<exists>b s' y. vision_Read uuid n s = Ret (b, s') \<and> b \<noteq> [] \<and> x = b @ y \<and> length uuid = 16 \<and> vcarries uuid s' y"
    using vision_Read_some by meson
next
  fix s n assume "length uuid = 16 \<and> vcarries uuid s []" "0 < (n :: nat)"
  then show "\<exists>e. vision_Read uuid n s = Err e" using vision_Read_none by blast
qed

definition tls_record :: "bytes \<Rightarrow> bool" where
  "tls_record r = (5 \<le> length r \<and> length r = 5 + be16 (r ! 3) (r ! 4))"

interpretation tlsRecord: packet_source tls_record_next "\<lambda>s rs. s = concat rs \<and> list_all tls_record rs"
proof unfold_locales
  fix s r rs assume a: "s = concat (r # rs) \<and> list_all tls_record (r # rs)"
  then have r: "5 \<le> length r" "length r = 5 + be16 (r ! 3) (r ! 4)" "list_all tls_record rs" by (auto simp: tls_record_def)
  have s: "s = take 5 r @ drop 5 r @ concat rs" using a by simp
  have h: "ReadFull 5 s = Ret (take 5 r, drop 5 r @ concat rs)" unfolding s using r(1) by (intro ReadFull_app_n) simp
  have l: "u16_at (take 5 r) 3 = (Ret (length (drop 5 r)) :: (conn_error, nat) go)" using r(1,2)
    by (simp add: u16_at_def slc_def nth_take min_def take_Suc_conv_app_nth eval_nat_numeral)
  have "tls_record_next s = Ret (r, concat rs)"
    by (simp only: tls_record_next_def h l gbind_simps prod.case ReadFull_app) simp
  then show "r \<noteq> [] \<and> (\<exists>s'. tls_record_next s = Ret (r, s') \<and> s' = concat rs \<and> list_all tls_record rs)" using r by auto
qed (simp add: tls_record_next_def)

section \<open>The frames of the writer\<close>

text \<open>What has been written while the padding is on: the flag says whether the first frame is still due.\<close>

inductive vopen :: "bytes \<Rightarrow> bool \<Rightarrow> bytes \<Rightarrow> bytes \<Rightarrow> bool" for uuid where
  start: "vopen uuid True [] []"
| more: "vopen uuid f out x \<Longrightarrow> length c \<le> 65535 \<Longrightarrow> vopen uuid False (out @ vframe uuid f visionCommandContinue c []) (x @ c)"

lemma vopen_frames: "vopen uuid f out x \<Longrightarrow> vframes uuid f rest y \<Longrightarrow> vframes uuid True (out @ rest) (x @ y)"
proof (induction arbitrary: rest y rule: vopen.induct)
  case (more f out x c)
  then have "vframes uuid f (vframe uuid f 0 c [] @ rest) (c @ y)" by (intro vframes.cont) auto
  from more.IH [OF this] show ?case by simp
qed simp

text \<open>What the writer owes: \<open>x\<close> is carried by \<open>out\<close>, the rest is in its buffer.\<close>

definition vsent :: "bytes \<Rightarrow> vision_writer \<Rightarrow> bytes \<Rightarrow> bytes \<Rightarrow> bool" where
  "vsent uuid c out x = (if writeRaw c then vwriteBuf c = [] \<and> (\<forall>rest. vframes uuid True (out @ rest) (x @ rest))
     else vopen uuid (firstWrite c) out x)"

lemma writeVisionFrame_all:
  assumes "length content \<le> 65535"
  shows "writeVisionFrame uuid accepts_all cmd content c out = (Ret (out @ vframe uuid (firstWrite c) cmd content []), c\<lparr>firstWrite := False\<rparr>)"
  using assms by (simp add: writeVisionFrame_def Let_def accepts_all_def vframe_def)

lemma vision_round_sent:
  assumes "vision_chunk c = Some sz" "vwriteBuf c \<noteq> []" "\<not> writeRaw c" "vopen uuid (firstWrite c) out x"
  shows "\<exists>out' c' x'. vision_round uuid accepts_all sz c out = (Ret out', c') \<and> vsent uuid c' out' x' \<and> x' @ vwriteBuf c' = x @ vwriteBuf c"
proof -
  let ?chunk = "take sz (vwriteBuf c)" and ?rest = "drop sz (vwriteBuf c)"
  obtain fin c1 where s: "shouldEndPadding ?chunk c = (fin, c1)" by fastforce
  note k = shouldEndPadding_keeps [OF s] and p = vision_chunk_pos [OF assms(1,2)]
  have len: "length ?chunk \<le> 65535" using p by simp
  have split: "?chunk @ ?rest = vwriteBuf c" by simp
  note w = writeVisionFrame_all [OF len, of uuid _ c1 out]
  show ?thesis
  proof (cases fin)
    case True
    let ?out = "out @ vframe uuid (firstWrite c) 1 ?chunk [] @ ?rest" and ?c = "c1\<lparr>firstWrite := False, vwriteBuf := [], writeRaw := True\<rparr>"
    have "vision_round uuid accepts_all sz c out = (Ret ?out, ?c)"
      using True k by (simp add: vision_round_def s Let_def w accepts_all_def)
    moreover have "vframes uuid True (?out @ rest) ((x @ vwriteBuf c) @ rest)" for rest
      using vopen_frames [OF assms(4) vframes.fin [OF len, of "[]" uuid "firstWrite c" "?rest @ rest"]] split
      by (simp only: append_assoc list.size le0 simp_thms) (simp flip: append_assoc add: split)
    then have "vsent uuid ?c ?out (x @ vwriteBuf c)" by (auto simp: vsent_def)
    ultimately show ?thesis using split by fastforce
  next
    case False
    let ?out = "out @ vframe uuid (firstWrite c) 0 ?chunk []" and ?c = "c1\<lparr>firstWrite := False, vwriteBuf := ?rest\<rparr>"
    have "vision_round uuid accepts_all sz c out = (Ret ?out, ?c)"
      using False k by (simp add: vision_round_def s Let_def w)
    moreover have "vsent uuid ?c ?out (x @ ?chunk)"
      using vopen.more [OF assms(4) len] assms(3) k by (simp add: vsent_def)
    moreover have "(x @ ?chunk) @ vwriteBuf ?c = x @ vwriteBuf c" using split by simp
    ultimately show ?thesis by blast
  qed
qed

lemma vision_loop_sent:
  "\<not> writeRaw c \<Longrightarrow> vopen uuid (firstWrite c) out x \<Longrightarrow>
   \<exists>out' c' x'. vision_loop uuid accepts_all c out = (Ret out', c') \<and> vsent uuid c' out' x' \<and> x' @ vwriteBuf c' = x @ vwriteBuf c \<and>
     (vwriteBuf c' = [] \<or> vision_chunk c' = None)"
proof (induction "length (vwriteBuf c)" arbitrary: c out x rule: less_induct)
  case less
  show ?case
  proof (cases "vwriteBuf c = [] \<or> vision_chunk c = None")
    case True
    with less.prems show ?thesis by (subst vision_loop.simps) (auto simp: vsent_def)
  next
    case False
    then obtain sz where sz: "vision_chunk c = Some sz" "vwriteBuf c \<noteq> []" by auto
    with vision_round_sent [OF sz less.prems] obtain out' c' x' where
      r: "vision_round uuid accepts_all sz c out = (Ret out', c')" "vsent uuid c' out' x'" "x' @ vwriteBuf c' = x @ vwriteBuf c" by blast
    have eq: "vision_loop uuid accepts_all c out = vision_loop uuid accepts_all c' out'"
      using sz r(1) by (subst vision_loop.simps) simp
    show ?thesis
    proof (cases "writeRaw c'")
      case True
      with r(2) have "vwriteBuf c' = []" by (simp add: vsent_def)
      then have "vision_loop uuid accepts_all c' out' = (Ret out', c')" by (subst vision_loop.simps) simp
      with r \<open>vwriteBuf c' = []\<close> show ?thesis unfolding eq by auto
    next
      case raw: False
      with r(2) have "vopen uuid (firstWrite c') out' x'" by (simp add: vsent_def)
      from less.hyps [OF vision_round_shrinks [OF r(1) sz] raw this] show ?thesis unfolding eq r(3) .
    qed
  qed
qed

lemma vision_chunk_None: "vision_chunk c = None \<Longrightarrow> length (vwriteBuf c) < 65540"
  by (auto simp: vision_chunk_def Let_def split: if_splits) (use be16_less [of "vwriteBuf c ! 3" "vwriteBuf c ! 4"] in linarith)

text \<open>A sequence of \<^verbatim>\<open>Write\<close> calls on one connection that accepts all of them.\<close>

fun vision_writes :: "bytes \<Rightarrow> bytes list \<Rightarrow> vision_writer \<Rightarrow> bytes \<Rightarrow> (conn_error, bytes) go \<times> vision_writer" where
  "vision_writes uuid [] c out = (Ret out, c)"
| "vision_writes uuid (p # ps) c out =
     (case vision_Write uuid accepts_all p c out of
        (Ret (n, out'), c') \<Rightarrow> if n = length p then vision_writes uuid ps c' out' else (Err (Refused ''short write''), c')
      | (Err e, c') \<Rightarrow> (Err e, c')
      | (Panic, c') \<Rightarrow> (Panic, c'))"

lemma vision_Write_sent:
  assumes "vsent uuid c out x" "length (vwriteBuf c) < 65540"
  shows "\<exists>out' c' x'. vision_Write uuid accepts_all p c out = (Ret (length p, out'), c') \<and> vsent uuid c' out' x' \<and>
    x' @ vwriteBuf c' = (x @ vwriteBuf c) @ p \<and> length (vwriteBuf c') < 65540"
proof (cases "p = []")
  case True
  with assms show ?thesis by (auto simp: vision_Write_def)
next
  case False
  show ?thesis
  proof (cases "writeRaw c")
    case True
    then have "vsent uuid c (out @ p) (x @ p)" "vwriteBuf c = []" using assms by (auto simp: vsent_def)
    with True False show ?thesis by (auto simp: vision_Write_def accepts_all_def)
  next
    case raw: False
    let ?c = "c\<lparr>vwriteBuf := vwriteBuf c @ p\<rparr>"
    from vision_loop_sent [of ?c uuid out x] raw assms(1) obtain out' c' x' where
      l: "vision_loop uuid accepts_all ?c out = (Ret out', c')" "vsent uuid c' out' x'" "x' @ vwriteBuf c' = x @ vwriteBuf c @ p"
      "vwriteBuf c' = [] \<or> vision_chunk c' = None" by (auto simp: vsent_def)
    have "length (vwriteBuf c') < 65540" using l(4) vision_chunk_None by force
    with l raw False show ?thesis by (auto simp: vision_Write_def)
  qed
qed

lemma vision_writes_sent:
  "vsent uuid c out x \<Longrightarrow> length (vwriteBuf c) < 65540 \<Longrightarrow>
   \<exists>out' c' x'. vision_writes uuid ps c out = (Ret out', c') \<and> vsent uuid c' out' x' \<and>
     x' @ vwriteBuf c' = (x @ vwriteBuf c) @ concat ps \<and> length (vwriteBuf c') < 65540"
proof (induction ps arbitrary: c out x)
  case (Cons p ps)
  from vision_Write_sent [OF Cons.prems, of p] obtain out1 c1 x1 where
    w: "vision_Write uuid accepts_all p c out = (Ret (length p, out1), c1)" "vsent uuid c1 out1 x1"
    "x1 @ vwriteBuf c1 = (x @ vwriteBuf c) @ p" "length (vwriteBuf c1) < 65540" by blast
  from Cons.IH [OF w(2,4)] w(1,3) show ?case by simp
qed auto

lemma vsent_carried: "vsent uuid c out x \<Longrightarrow> vcarries uuid (new_vision_reader, out, inner) x"
proof -
  assume a: "vsent uuid c out x"
  have "vframes uuid True out x"
  proof (cases "writeRaw c")
    case True
    with a have "vframes uuid True (out @ []) (x @ [])" by (metis vsent_def)
    then show ?thesis by simp
  next
    case False
    with a vopen_frames [OF _ vframes.empty] show ?thesis by (fastforce simp: vsent_def)
  qed
  then show ?thesis by (simp add: vcarries_def new_vision_reader_def)
qed

text \<open>
  C5: the Vision padding is transparent. Whatever is written to one end, in pieces of any size, every
  write is accepted and the other end reads a prefix of exactly these bytes, with read buffers of any
  size; the bytes not yet delivered are the ones the writer holds back while it waits for the end of a
  TLS record, fewer than a record with its header, and once the writer has left the padding none are
  held back.
\<close>

theorem vision_transparent:
  assumes "length uuid = 16" "\<forall>n\<in>set ns. 0 < n" "length (concat ps) \<le> length ns"
  shows "\<exists>out c. vision_writes uuid ps new_vision_writer [] = (Ret out, c) \<and>
    read_all (vision_Read uuid) ns (new_vision_reader, out, inner) @ vwriteBuf c = concat ps \<and>
    length (vwriteBuf c) < 65540 \<and> (writeRaw c \<longrightarrow> vwriteBuf c = [])"
proof -
  have "vsent uuid new_vision_writer [] []" by (simp add: vsent_def new_vision_writer_def vopen.start)
  from vision_writes_sent [OF this, of ps] obtain out c x where
    w: "vision_writes uuid ps new_vision_writer [] = (Ret out, c)" "vsent uuid c out x" "x @ vwriteBuf c = concat ps" "length (vwriteBuf c) < 65540"
    by (auto simp: new_vision_writer_def)
  have "length x \<le> length ns" using w(3) assms(3) by (metis le_trans length_append le_add1)
  with vision.read_all_deliver [OF conjI [OF assms(1) vsent_carried [OF w(2)]] assms(2), of inner]
  have "read_all (vision_Read uuid) ns (new_vision_reader, out, inner) = x" by simp
  with w show ?thesis by (auto simp: vsent_def)
qed

theorem vision_transparent_witness:
  "\<exists>out c. vision_writes (replicate 16 7) [[0x16, 3], [3, 0, 1, 9], [0x17, 3, 3, 0, 0, 1], [2, 3]] new_vision_writer [] = (Ret out, c) \<and>
    read_all (vision_Read (replicate 16 7)) (replicate 20 3) (new_vision_reader, out, []) @ vwriteBuf c = [0x16, 3, 3, 0, 1, 9, 0x17, 3, 3, 0, 0, 1, 2, 3] \<and>
    length (vwriteBuf c) < 65540 \<and> (writeRaw c \<longrightarrow> vwriteBuf c = [])"
  using vision_transparent [of "replicate 16 7" "replicate 20 3" "[[0x16, 3], [3, 0, 1, 9], [0x17, 3, 3, 0, 0, 1], [2, 3]]" "[]"] by simp

end
