(* ===== verification/Inbound_Mixed.thy ===== *)
theory Inbound_Mixed
  imports Router_Props Proto_Address
begin

text \<open>
  The mixed inbound (\<^verbatim>\<open>inbound/mixed.go\<close>): SOCKS5 and HTTP CONNECT on one listener, and SOCKS5 UDP
  associations. A client connection is the list of bytes it will still send and the bytes written to
  it so far; \<open>wok\<close> says which writes it accepts. What a handler does at the end is a value: it closes
  the client, relays the rest of its bytes to an upstream connection, or serves a UDP association.
\<close>

section \<open>Model: handshakes\<close>

datatype mixed_end = MClosed | MRelay routedConnection bytes | MAssociate | MPanic

type_synonym mixed_result = "mixed_end \<times> bytes \<times> dns_state"

text \<open>A write whose error is ignored.\<close>

definition write_quiet :: "(bytes \<Rightarrow> bool) \<Rightarrow> bytes \<Rightarrow> bytes \<Rightarrow> bytes" where
  "write_quiet wok b out = (if wok b then out @ b else out)"

definition socks_reply_bytes :: "u8 \<Rightarrow> bytes" where
  "socks_reply_bytes code = [0x05, code, 0x00, 0x01, 0, 0, 0, 0, 0, 0]"

definition socksReply :: "(bytes \<Rightarrow> bool) \<Rightarrow> u8 \<Rightarrow> bytes \<Rightarrow> bytes" where
  "socksReply wok code out = write_quiet wok (socks_reply_bytes code) out"

definition readSOCKS5Address :: "u8 \<Rightarrow> bytes \<Rightarrow> (conn_error, string \<times> nat \<times> bytes) go" where
  "readSOCKS5Address atyp input =
     gbind (if atyp = 0x01 then gbind (ReadFull 4 input) (\<lambda>(ip, r). Ret (IP_String ip, r))
            else if atyp = 0x03 then
              gbind (ReadFull 1 input) (\<lambda>(b, r). gbind (idx b 0) (\<lambda>n.
              gbind (ReadFull (unat n) r) (\<lambda>(name, r'). Ret (string_of_bytes name, r'))))
            else if atyp = 0x04 then gbind (ReadFull 16 input) (\<lambda>(ip, r). Ret (IP_String ip, r))
            else Err (Refused ''address type'')) (\<lambda>(host, r).
     gbind (ReadFull 2 r) (\<lambda>(portBuf, r'). gbind (Uint16 portBuf) (\<lambda>port. Ret (host, port, r'))))"

definition handleSOCKS5 :: "rworld \<Rightarrow> router \<Rightarrow> (bytes \<Rightarrow> bool) \<Rightarrow> bytes \<Rightarrow> bytes \<Rightarrow> dns_state \<Rightarrow> mixed_result" where
  "handleSOCKS5 w r wok input out st =
     (case gbind (ReadFull 2 input) (\<lambda>(hdr, r1). gbind (idx hdr 0) (\<lambda>v. gbind (idx hdr 1) (\<lambda>n.
             if v \<noteq> 0x05 then Err (Refused ''version'') else gbind (ReadFull (unat n) r1) (\<lambda>(methods, r2). Ret r2)))) of
        Err e \<Rightarrow> (MClosed, out, st)
      | Panic \<Rightarrow> (MPanic, out, st)
      | Ret r2 \<Rightarrow>
          (if \<not> wok [0x05, 0x00] then (MClosed, out, st)
           else
             (let out1 = out @ [0x05, 0x00] in
              case gbind (ReadFull 4 r2) (\<lambda>(req, r3). gbind (idx req 1) (\<lambda>cmd. gbind (idx req 3) (\<lambda>atyp. Ret (cmd, atyp, r3)))) of
                Err e \<Rightarrow> (MClosed, out1, st)
              | Panic \<Rightarrow> (MPanic, out1, st)
              | Ret (cmd, atyp, r3) \<Rightarrow>
                  (case readSOCKS5Address atyp r3 of
                     Err e \<Rightarrow> (MClosed, socksReply wok 0x08 out1, st)
                   | Panic \<Rightarrow> (MPanic, out1, st)
                   | Ret (host, port, rest) \<Rightarrow>
                       (if cmd = 0x03 then (MAssociate, out1, st)
                        else if cmd \<noteq> 0x01 then (MClosed, socksReply wok 0x07 out1, st)
                        else
                          (case Dial w r ''tcp'' (JoinHostPort host (Itoa port)) st of
                             (Err e, st') \<Rightarrow> (MClosed, socksReply wok 0x05 out1, st')
                           | (Panic, st') \<Rightarrow> (MPanic, out1, st')
                           | (Ret upstream, st') \<Rightarrow> (MRelay upstream rest, socksReply wok 0x00 out1, st')))))))"

text \<open>\<^verbatim>\<open>ReadString('\n')\<close>: the line with its end, or nothing when the stream ends first.\<close>

fun read_line :: "bytes \<Rightarrow> (bytes \<times> bytes) option" where
  "read_line [] = None"
| "read_line (b # bs) = (if b = 10 then Some ([b], bs) else map_option (\<lambda>(l, r). (b # l, r)) (read_line bs))"

lemma read_line_split: "read_line s = Some (l, r) \<Longrightarrow> s = l @ r \<and> l \<noteq> []"
  by (induction s arbitrary: l) (auto split: if_splits)

function skip_headers :: "bytes \<Rightarrow> bytes option" where
  "skip_headers input =
     (case read_line input of
        None \<Rightarrow> None
      | Some (header, r) \<Rightarrow> if header = [13, 10] \<or> header = [10] then Some r else skip_headers r)"
  by pat_completeness auto
termination
  by (relation "measure length") (auto dest!: read_line_split)

declare skip_headers.simps [simp del]

definition Itoa_int :: "int \<Rightarrow> string" where
  "Itoa_int i = (if i < 0 then CHR ''-'' # Itoa (nat (- i)) else Itoa (nat i))"

definition http_status :: "string \<Rightarrow> bytes" where
  "http_status s = bytes_of_string (''HTTP/1.1 '' @ s) @ [13, 10, 13, 10]"

definition handleHTTPConnect :: "rworld \<Rightarrow> router \<Rightarrow> (bytes \<Rightarrow> bool) \<Rightarrow> bytes \<Rightarrow> bytes \<Rightarrow> dns_state \<Rightarrow> mixed_result" where
  "handleHTTPConnect w r wok input out st =
     (case read_line input of
        None \<Rightarrow> (MClosed, out, st)
      | Some (line, r1) \<Rightarrow>
          (case Fields (string_of_bytes line) of
             [verb, authority, proto] \<Rightarrow>
               (if verb \<noteq> ''CONNECT'' then (MClosed, out, st)
                else
                  (case SplitHostPort authority of
                     None \<Rightarrow> (MClosed, write_quiet wok (http_status ''400 Bad Request'') out, st)
                   | Some (host, portStr) \<Rightarrow>
                       (case Atoi portStr of
                          None \<Rightarrow> (MClosed, write_quiet wok (http_status ''400 Bad Request'') out, st)
                        | Some port \<Rightarrow>
                            (case skip_headers r1 of
                               None \<Rightarrow> (MClosed, out, st)
                             | Some rest \<Rightarrow>
                                 (case Dial w r ''tcp'' (JoinHostPort host (Itoa_int port)) st of
                                    (Err e, st') \<Rightarrow> (MClosed, write_quiet wok (http_status ''502 Bad Gateway'') out, st')
                                  | (Panic, st') \<Rightarrow> (MPanic, out, st')
                                  | (Ret upstream, st') \<Rightarrow>
                                      (if \<not> wok (http_status ''200 Connection Established'') then (MClosed, out, st')
                                       else (MRelay upstream rest, out @ http_status ''200 Connection Established'', st')))))))
           | _ \<Rightarrow> (MClosed, out, st)))"

text \<open>\<^verbatim>\<open>handle\<close> peeks at the first byte; the bytes its reader holds stay part of the input.\<close>

definition handle :: "rworld \<Rightarrow> router \<Rightarrow> (bytes \<Rightarrow> bool) \<Rightarrow> bytes \<Rightarrow> dns_state \<Rightarrow> mixed_result" where
  "handle w r wok input st =
     (case input of
        [] \<Rightarrow> (MClosed, [], st)
      | first # _ \<Rightarrow> if first = 0x05 then handleSOCKS5 w r wok input [] st else handleHTTPConnect w r wok input [] st)"

section \<open>Model: UDP datagrams\<close>

definition parseSOCKS5UDPHeader :: "bytes \<Rightarrow> (conn_error, string \<times> bytes) go" where
  "parseSOCKS5UDPHeader data =
     (if length data < 4 then Err UnexpectedEOF
      else gbind (idx data 0) (\<lambda>b0. gbind (idx data 1) (\<lambda>b1. gbind (idx data 2) (\<lambda>b2. gbind (idx data 3) (\<lambda>atyp.
        if b0 \<noteq> 0 \<or> b1 \<noteq> 0 \<or> b2 \<noteq> 0 then Err (Refused ''fragment'')
        else
          gbind (if atyp = 0x01 then
                   (if length data < 4 + 4 + 2 then Err UnexpectedEOF
                    else gbind (slc data 4 8) (\<lambda>ip. gbind (slc data 8 (length data)) (\<lambda>d. Ret (IP_String ip, d))))
                 else if atyp = 0x04 then
                   (if length data < 4 + 16 + 2 then Err UnexpectedEOF
                    else gbind (slc data 4 20) (\<lambda>ip. gbind (slc data 20 (length data)) (\<lambda>d. Ret (IP_String ip, d))))
                 else if atyp = 0x03 then
                   (if length data < 5 then Err UnexpectedEOF
                    else gbind (idx data 4) (\<lambda>n. let nameLen = unat n in
                      if length data < 5 + nameLen + 2 then Err UnexpectedEOF
                      else gbind (slc data 5 (5 + nameLen)) (\<lambda>name. gbind (slc data (5 + nameLen) (length data)) (\<lambda>d.
                        Ret (string_of_bytes name, d)))))
                 else Err (Refused ''address type'')) (\<lambda>(host, d).
          if length d < 2 then Err UnexpectedEOF
          else gbind (u16_at d 0) (\<lambda>port. gbind (slc d 2 (length d)) (\<lambda>payload.
            Ret (JoinHostPort host (Itoa port), payload)))))))))"

definition socks5UDPHeader :: "string \<Rightarrow> bytes option" where
  "socks5UDPHeader tgt =
     (case SplitHostPort tgt of
        None \<Rightarrow> None
      | Some (host, portStr) \<Rightarrow>
          (case Atoi portStr of
             None \<Rightarrow> None
           | Some port \<Rightarrow>
               (if port < 0 \<or> 65535 < port then None
                else Some ([0, 0, 0] @
                  (case ParseIP host of
                     Some ip \<Rightarrow> (case To4 ip of Some v4 \<Rightarrow> [0x01] @ v4 | None \<Rightarrow> [0x04] @ To16 ip)
                   | None \<Rightarrow> [0x03, word_of_nat (length host)] @ bytes_of_string host) @ put16 (nat port)))))"

section \<open>Model: UDP associations\<close>

text \<open>
  A session of an association is its index in \<open>as_opened\<close>. \<open>as_closing\<close> holds the sessions whose
  \<^verbatim>\<open>once.Do(conn.Close)\<close> is due but has not run, \<open>as_closes\<close> the connections closed so far.
\<close>

record udpRelaySession =
  us_client :: string
  us_target :: string
  us_conn :: routedConnection

record udpAssociation =
  as_sessions :: "(string \<times> nat) list"
  as_opened :: "udpRelaySession list"
  as_closing :: "nat list"
  as_closes :: "nat list"
  as_once :: bool

definition new_association :: udpAssociation where
  "new_association = \<lparr>as_sessions = [], as_opened = [], as_closing = [], as_closes = [], as_once = False\<rparr>"

definition session_key :: "string \<Rightarrow> string \<Rightarrow> string" where
  "session_key client tgt = client @ ''|'' @ tgt"

definition key_of :: "udpAssociation \<Rightarrow> nat \<Rightarrow> string" where
  "key_of a s = session_key (us_client (as_opened a ! s)) (us_target (as_opened a ! s))"

text \<open>The part of the receive loop under the lock: the session of the key, dialled if there is none.\<close>

definition udp_acquire ::
  "rworld \<Rightarrow> router \<Rightarrow> string \<Rightarrow> string \<Rightarrow> udpAssociation \<Rightarrow> dns_state \<Rightarrow> (route_error, nat) go \<times> udpAssociation \<times> dns_state" where
  "udp_acquire w r client tgt a st =
     (let key = session_key client tgt in
      case map_of (as_sessions a) key of
        Some s \<Rightarrow> (Ret s, a, st)
      | None \<Rightarrow>
          (case Dial w r ''udp'' tgt st of
             (Err e, st') \<Rightarrow> (Err e, a, st')
           | (Panic, st') \<Rightarrow> (Panic, a, st')
           | (Ret upstream, st') \<Rightarrow>
               (let s = length (as_opened a) in
                (Ret s, a\<lparr>as_sessions := AList.update key s (as_sessions a),
                          as_opened := as_opened a @ [\<lparr>us_client = client, us_target = tgt, us_conn = upstream\<rparr>]\<rparr>, st'))))"

text \<open>\<^verbatim>\<open>removeSession\<close> up to its last statement, which \<open>session_close\<close> runs.\<close>

definition removeSession :: "string \<Rightarrow> nat \<Rightarrow> udpAssociation \<Rightarrow> udpAssociation" where
  "removeSession key s a =
     a\<lparr>as_sessions := (if map_of (as_sessions a) key = Some s then AList.delete key (as_sessions a) else as_sessions a),
       as_closing := as_closing a @ [s]\<rparr>"

definition session_close :: "nat \<Rightarrow> udpAssociation \<Rightarrow> udpAssociation" where
  "session_close s a =
     a\<lparr>as_closing := remove1 s (as_closing a), as_closes := (if s \<in> set (as_closes a) then as_closes a else as_closes a @ [s])\<rparr>"

definition association_close :: "udpAssociation \<Rightarrow> udpAssociation" where
  "association_close a =
     (if as_once a then a
      else a\<lparr>as_once := True, as_closing := as_closing a @ map snd (as_sessions a), as_sessions := []\<rparr>)"

text \<open>One datagram of the receive loop; \<open>wr\<close> is what the upstream write returns, its count and whether it succeeds.\<close>

definition udp_serve ::
  "rworld \<Rightarrow> router \<Rightarrow> (nat \<Rightarrow> bytes \<Rightarrow> 64 word \<times> bool) \<Rightarrow> string \<Rightarrow> bytes \<Rightarrow>
   udpAssociation \<times> Traffic \<times> dns_state \<Rightarrow> udpAssociation \<times> Traffic \<times> dns_state" where
  "udp_serve w r wr client data c =
     (case c of (a, tr, st) \<Rightarrow>
       (case parseSOCKS5UDPHeader data of
          Ret (tgt, payload) \<Rightarrow>
            (case udp_acquire w r client tgt a st of
               (Ret s, a', st') \<Rightarrow>
                 (let (n, ok) = wr s payload; tr' = router_AddUpload n tr in
                  (if ok then a' else session_close s (removeSession (session_key client tgt) s a'), tr', st'))
             | (_, a', st') \<Rightarrow> (a', tr, st'))
        | _ \<Rightarrow> (a, tr, st)))"

text \<open>\<^verbatim>\<open>relayFromUpstream\<close>: one read of a session's connection, a datagram or an error.\<close>

definition relayFromUpstream ::
  "nat \<Rightarrow> bytes option \<Rightarrow> udpAssociation \<times> Traffic \<Rightarrow> (string \<times> bytes) option \<times> udpAssociation \<times> Traffic" where
  "relayFromUpstream s rd c =
     (case c of (a, tr) \<Rightarrow>
       (case rd of
          None \<Rightarrow> (None, session_close s (removeSession (key_of a s) s a), tr)
        | Some d \<Rightarrow>
            (let tr' = router_AddDownload (word_of_nat (length d)) tr in
             case socks5UDPHeader (us_target (as_opened a ! s)) of
               None \<Rightarrow> (None, a, tr')
             | Some header \<Rightarrow> (Some (us_client (as_opened a ! s), header @ d), a, tr'))))"

text \<open>
  The inbound: associations are indices of \<open>mx_heap\<close>, \<open>mx_associations\<close> the registered ones. A new
  association is registered before its reply is written and closed when that fails.
\<close>

record Mixed =
  mx_heap :: "udpAssociation list"
  mx_associations :: "nat list"
  mx_listening :: bool

definition NewMixed :: Mixed where
  "NewMixed = \<lparr>mx_heap = [], mx_associations = [], mx_listening = False\<rparr>"

definition Mixed_Start :: "bool \<Rightarrow> Mixed \<Rightarrow> bool \<times> Mixed" where
  "Mixed_Start listenOK m = (if listenOK then (True, m\<lparr>mx_listening := True\<rparr>) else (False, m))"

definition close_registered :: "nat \<Rightarrow> Mixed \<Rightarrow> Mixed" where
  "close_registered i m =
     (if as_once (mx_heap m ! i) then m
      else m\<lparr>mx_heap := (mx_heap m)[i := association_close (mx_heap m ! i)], mx_associations := removeAll i (mx_associations m)\<rparr>)"

definition Mixed_Close :: "Mixed \<Rightarrow> Mixed" where
  "Mixed_Close m = (fold close_registered (mx_associations m) m)\<lparr>mx_listening := False\<rparr>"

definition handleUDPAssociate :: "nat option \<Rightarrow> (bytes \<Rightarrow> bool) \<Rightarrow> bytes \<Rightarrow> Mixed \<Rightarrow> nat option \<times> bytes \<times> Mixed" where
  "handleUDPAssociate listened wok out m =
     (case listened of
        None \<Rightarrow> (None, socksReply wok 0x01 out, m)
      | Some port \<Rightarrow>
          (let i = length (mx_heap m);
               m1 = m\<lparr>mx_heap := mx_heap m @ [new_association], mx_associations := mx_associations m @ [i]\<rparr>;
               reply = [0x05, 0x00, 0x00, 0x01, 127, 0, 0, 1] @ put16 port in
           if wok reply then (Some i, out @ reply, m1) else (None, out, close_registered i m1)))"

text \<open>
  The goroutines of an association interleave at these steps: the receive loop takes a session, the
  receive loop or a relay drops one, a due close runs, and the association is closed from any side.
\<close>

inductive assoc_reach :: "udpAssociation \<Rightarrow> bool" where
  init: "assoc_reach new_association"
| acquire: "assoc_reach a \<Longrightarrow> assoc_reach (fst (snd (udp_acquire w r client tgt a st)))"
| remove: "assoc_reach a \<Longrightarrow> s < length (as_opened a) \<Longrightarrow> assoc_reach (removeSession (key_of a s) s a)"
| run: "assoc_reach a \<Longrightarrow> s \<in> set (as_closing a) \<Longrightarrow> assoc_reach (session_close s a)"
| close: "assoc_reach a \<Longrightarrow> assoc_reach (association_close a)"

section \<open>Lemmas: addresses\<close>

lemma readSOCKS5Address_enc:
  assumes "host_fits host" "port < 65536"
  shows "\<exists>atyp body. trojanAddress host port = atyp # body \<and> readSOCKS5Address atyp (body @ rest) = Ret (canonical_host host, port, rest)"
proof (cases rule: ParseIP_cases [of host])
  case (v4 ip v)
  then have "IP_String v = IP_String ip" by (simp add: IP_String_def To4_def)
  with v4 assms(2) show ?thesis using ReadFull_app_n [of 4 v "put16 port @ rest"]
    by (simp add: trojanAddress_def readSOCKS5Address_def canonical_host_def)
next
  case (v6 ip)
  with assms(2) show ?thesis using ReadFull_app_n [of 16 ip "put16 port @ rest"]
    by (simp add: trojanAddress_def readSOCKS5Address_def canonical_host_def)
next
  case name
  with assms have "length host \<le> 255" by (simp add: host_fits_def)
  then have len: "length host mod 256 = length host" by simp
  with name assms(2) ReadFull_app [of "bytes_of_string host" "put16 port @ rest"] show ?thesis
    by (simp add: trojanAddress_def readSOCKS5Address_def canonical_host_def)
qed

lemma readSOCKS5Address_np [simp, np_rules]: "readSOCKS5Address t input \<noteq> Panic"
  by (auto simp: readSOCKS5Address_def ReadFull_eq_Ret length_Suc_conv numeral_2_eq_2)

lemma parseSOCKS5UDPHeader_np [simp, np_rules]: "parseSOCKS5UDPHeader data \<noteq> Panic"
  by (auto simp: parseSOCKS5UDPHeader_def Let_def not_less u_at_iffs)

lemma socks5UDPHeader_target:
  assumes "CHR ''['' \<notin> set host" "CHR '']'' \<notin> set host" "port < 65536"
  shows "socks5UDPHeader (JoinHostPort host (Itoa port)) = Some ([0, 0, 0] @ trojanAddress host port)"
  using assms by (simp add: socks5UDPHeader_def SplitHostPort_JoinHostPort_Itoa trojanAddress_def split: option.split)

lemma parseSOCKS5UDPHeader_enc:
  assumes "host_fits host" "port < 65536"
  shows "parseSOCKS5UDPHeader ([0, 0, 0] @ trojanAddress host port @ payload) = Ret (JoinHostPort (canonical_host host) (Itoa port), payload)"
proof (cases rule: ParseIP_cases [of host])
  case (v4 ip v)
  then have "IP_String v = IP_String ip" by (simp add: IP_String_def To4_def)
  with v4 assms(2) show ?thesis
    by (simp add: trojanAddress_def parseSOCKS5UDPHeader_def canonical_host_def slc_def u16_at_def put16_def)
next
  case (v6 ip)
  with assms(2) show ?thesis
    by (simp add: trojanAddress_def parseSOCKS5UDPHeader_def canonical_host_def slc_def u16_at_def put16_def)
next
  case name
  with assms have "length host \<le> 255" by (simp add: host_fits_def)
  then have len: "length host mod 256 = length host" by simp
  have skip: "drop (5 + n) (a # b # c # d # e # xs) = drop n xs" "drop (7 + n) (a # b # c # d # e # xs) = drop (n + 2) xs"
    for n and a b c d e :: u8 and xs by (simp_all add: eval_nat_numeral)
  from len name assms(2) show ?thesis
    by (simp add: trojanAddress_def parseSOCKS5UDPHeader_def canonical_host_def slc_def u16_at_def put16_def Let_def skip)
qed

section \<open>Lemmas: the request line\<close>

lemma byte_of_char_nl [simp]: "byte_of_char c = 10 \<longleftrightarrow> c = CHR 0x0A"
proof -
  have "byte_of_char (CHR 0x0A) = 10" by code_simp
  then show ?thesis by (metis char_of_byte_of_char)
qed

lemma read_line_at: "10 \<notin> set l \<Longrightarrow> read_line (l @ 10 # r) = Some (l @ [10], r)"
  by (induction l) auto

lemma fields_aux_word: "list_all (\<lambda>c. \<not> is_space c) s \<Longrightarrow> fields_aux acc (s @ t) = fields_aux (rev s @ acc) t"
  by (induction s arbitrary: acc) auto

lemma Fields_three:
  assumes "list_all (\<lambda>c. \<not> is_space c) a" "list_all (\<lambda>c. \<not> is_space c) b" "list_all (\<lambda>c. \<not> is_space c) d" "a \<noteq> []" "b \<noteq> []" "d \<noteq> []"
  shows "Fields (a @ '' '' @ b @ '' '' @ d @ [CHR 0x0D, CHR 0x0A]) = [a, b, d]"
proof -
  have sp: "is_space (CHR '' '')" "is_space (CHR 0x0D)" "is_space (CHR 0x0A)" by (simp_all add: is_space_def)
  show ?thesis using assms sp by (simp add: Fields_def fields_aux_word)
qed

text \<open>A CONNECT request: its line, header lines, and the empty line.\<close>

definition connect_request :: "string \<Rightarrow> nat \<Rightarrow> string list \<Rightarrow> bytes" where
  "connect_request host port hs =
     bytes_of_string (''CONNECT '' @ JoinHostPort host (Itoa port) @ '' HTTP/1.1'' @ [CHR 0x0D, CHR 0x0A])
     @ concat (map (\<lambda>h. bytes_of_string (h @ [CHR 0x0D, CHR 0x0A])) hs) @ [13, 10]"

definition header_line :: "string \<Rightarrow> bool" where
  "header_line h = (h \<noteq> [] \<and> CHR 0x0A \<notin> set h)"

definition host_token :: "string \<Rightarrow> bool" where
  "host_token host = list_all (\<lambda>c. \<not> is_space c \<and> c \<noteq> CHR ''['' \<and> c \<noteq> CHR '']'') host"

lemma skip_headers_lines:
  "list_all header_line hs \<Longrightarrow>
   skip_headers (concat (map (\<lambda>h. bytes_of_string (h @ [CHR 0x0D, CHR 0x0A])) hs) @ 13 # 10 # rest) = Some rest"
proof (induction hs)
  case Nil
  show ?case using read_line_at [of "[13]" rest] by (subst skip_headers.simps) simp
next
  case (Cons h hs)
  let ?r = "concat (map (\<lambda>h. bytes_of_string (h @ [CHR 0x0D, CHR 0x0A])) hs) @ 13 # 10 # rest"
  have crlf: "bytes_of_string (h @ [CHR 0x0D, CHR 0x0A]) = (bytes_of_string h @ [13]) @ [10]" by (simp add: bytes_of_string_def byte_of_char_def)
  have "10 \<notin> set (bytes_of_string h @ [13])" using Cons.prems by (auto simp: header_line_def bytes_of_string_def)
  from read_line_at [OF this, of ?r] have "read_line (bytes_of_string (h @ [CHR 0x0D, CHR 0x0A]) @ ?r) = Some ((bytes_of_string h @ [13]) @ [10], ?r)"
    by (simp only: crlf append_assoc append_Cons append_Nil)
  moreover have "(bytes_of_string h @ [13]) @ [10] \<noteq> [13, 10]" "(bytes_of_string h @ [13]) @ [10] \<noteq> [10]"
    using Cons.prems by (auto simp: header_line_def bytes_of_string_def)
  ultimately show ?case using Cons by (subst skip_headers.simps) simp
qed

lemma Itoa_token: "list_all (\<lambda>c. \<not> is_space c) (Itoa n)"
proof -
  have "is_digit c \<Longrightarrow> \<not> is_space c" for c by (auto simp: is_digit_def is_space_def Let_def)
  then show ?thesis using Itoa_digits [of n] by (simp add: list_all_iff)
qed

lemma JoinHostPort_token: "host_token host \<Longrightarrow> list_all (\<lambda>c. \<not> is_space c) (JoinHostPort host (Itoa port))"
  using Itoa_token [of port] by (auto simp: JoinHostPort_def host_token_def is_space_def list_all_iff)

section \<open>Lemmas: handshakes\<close>

text \<open>What a handshake does with the answer of the router.\<close>

definition mixed_finish :: "bytes \<Rightarrow> bytes \<Rightarrow> bytes \<Rightarrow> bytes \<Rightarrow> (route_error, routedConnection) go \<times> dns_state \<Rightarrow> mixed_result" where
  "mixed_finish ok bad rest out x =
     (case x of
        (Ret upstream, st) \<Rightarrow> (MRelay upstream rest, out @ ok, st)
      | (Err e, st) \<Rightarrow> (MClosed, out @ bad, st)
      | (Panic, st) \<Rightarrow> (MPanic, out, st))"

lemma ReadFull_4 [simp]: "ReadFull 4 (a # b # c # d # rest) = Ret ([a, b, c, d], rest)"
  by (simp add: ReadFull_def)

lemma handleSOCKS5_connect:
  assumes "host_fits host" "port < 65536" "length methods \<le> 255"
  shows "handleSOCKS5 w r accepts_all ([0x05, word_of_nat (length methods)] @ methods @ [v, 0x01, rsv] @ trojanAddress host port @ rest) out st =
    mixed_finish (socks_reply_bytes 0) (socks_reply_bytes 5) rest (out @ [0x05, 0x00])
      (Dial w r ''tcp'' (JoinHostPort (canonical_host host) (Itoa port)) st)"
proof -
  obtain atyp body where a: "trojanAddress host port = atyp # body"
    "readSOCKS5Address atyp (body @ rest) = Ret (canonical_host host, port, rest)"
    using readSOCKS5Address_enc [OF assms(1,2)] by metis
  have m: "length methods mod 256 = length methods" using assms(3) by simp
  have rf: "ReadFull (length methods) (methods @ v # 0x01 # rsv # atyp # body @ rest) = Ret (methods, v # 0x01 # rsv # atyp # body @ rest)" by simp
  show ?thesis
    by (simp add: handleSOCKS5_def a m mixed_finish_def accepts_all_def socksReply_def write_quiet_def split: prod.split go.split)
qed

lemma handleHTTPConnect_connect:
  assumes "host_token host" "port < 65536" "list_all header_line hs"
  shows "handleHTTPConnect w r accepts_all (connect_request host port hs @ rest) out st =
    mixed_finish (http_status ''200 Connection Established'') (http_status ''502 Bad Gateway'') rest out
      (Dial w r ''tcp'' (JoinHostPort host (Itoa port)) st)"
proof -
  let ?line = "''CONNECT'' @ '' '' @ JoinHostPort host (Itoa port) @ '' '' @ ''HTTP/1.1'' @ [CHR 0x0D]"
  let ?hs = "concat (map (\<lambda>h. bytes_of_string (h @ [CHR 0x0D, CHR 0x0A])) hs) @ 13 # 10 # rest"
  have crlf: "bytes_of_string [CHR 0x0D, CHR 0x0A] = [13, 10]" "bytes_of_string [CHR 0x0D] = [13]" by (simp_all add: bytes_of_string_def byte_of_char_def)
  have req: "connect_request host port hs @ rest = bytes_of_string ?line @ 10 # ?hs"
    by (simp add: connect_request_def bytes_of_string_def byte_of_char_def)
  have tok: "list_all (\<lambda>c. \<not> is_space c) (JoinHostPort host (Itoa port))" using assms(1) by (rule JoinHostPort_token)
  have ne: "JoinHostPort host (Itoa port) \<noteq> []" by (simp add: JoinHostPort_def)
  have nl: "is_space (CHR 0x0A)" by (simp add: is_space_def)
  then have "CHR 0x0A \<notin> set (JoinHostPort host (Itoa port))" using tok by (auto simp: list_all_iff)
  then have "10 \<notin> set (bytes_of_string ?line)" by (auto simp: bytes_of_string_def)
  from read_line_at [OF this, of ?hs]
  have rl: "read_line (connect_request host port hs @ rest) = Some (bytes_of_string ?line @ [10], ?hs)" unfolding req .
  have "string_of_bytes (bytes_of_string ?line @ [10]) = ''CONNECT'' @ '' '' @ JoinHostPort host (Itoa port) @ '' '' @ ''HTTP/1.1'' @ [CHR 0x0D, CHR 0x0A]"
    using string_of_bytes_of_string [of "?line @ [CHR 0x0A]"] by (simp add: bytes_of_string_def byte_of_char_def)
  then have fl: "Fields (string_of_bytes (bytes_of_string ?line @ [10])) = [''CONNECT'', JoinHostPort host (Itoa port), ''HTTP/1.1'']"
    using Fields_three [OF _ tok, of "''CONNECT''" "''HTTP/1.1''"] ne by (simp add: is_space_def)
  have sp: "SplitHostPort (JoinHostPort host (Itoa port)) = Some (host, Itoa port)"
    using assms(1) by (intro SplitHostPort_JoinHostPort_Itoa) (auto simp: host_token_def list_all_iff)
  have at: "Atoi (Itoa port) = Some (int port)" "Itoa_int (int port) = Itoa port" using assms(2) by (simp_all add: Itoa_int_def)
  show ?thesis
    unfolding handleHTTPConnect_def rl option.case prod.case fl list.case sp at skip_headers_lines [OF assms(3)]
    by (simp add: mixed_finish_def accepts_all_def write_quiet_def split: prod.split go.split)
qed

lemma connect_request_hd: "\<exists>t. connect_request host port hs = 67 # t"
  by (simp add: connect_request_def bytes_of_string_def byte_of_char_def)

text \<open>Whatever the client sends, a handler comes back and the router stays safe.\<close>

lemma Dial_safe: "sets_ok r \<Longrightarrow> dns_reachable st \<Longrightarrow> Dial w r network a st = (x, st') \<Longrightarrow> x \<noteq> Panic \<and> dns_reachable st'"
  using dialRouted_safe [of r w network a a] by (auto simp: dns_safe_def Dial_def)

lemma handle_safe:
  assumes "sets_ok r" "dns_reachable st" "handle w r wok input st = (e, out, st')"
  shows "e \<noteq> MPanic \<and> dns_reachable st'"
proof -
  have socks: "e \<noteq> MPanic \<and> dns_reachable st'" if "handleSOCKS5 w r wok input [] st = (e, out, st')"
    using that assms(2) by (auto simp: handleSOCKS5_def Let_def ReadFull_eq_Ret split: go.splits if_splits prod.splits dest: Dial_safe [OF assms(1,2)])
  have http: "e \<noteq> MPanic \<and> dns_reachable st'" if "handleHTTPConnect w r wok input [] st = (e, out, st')"
    using that assms(2) by (auto simp: handleHTTPConnect_def split: option.splits list.splits go.splits if_splits prod.splits dest: Dial_safe [OF assms(1,2)])
  show ?thesis using assms socks http by (auto simp: handle_def split: list.splits if_splits)
qed

section \<open>Lemmas: associations\<close>

text \<open>
  Every session is in the map, about to be closed or closed; the map holds open sessions, each under
  its own key, and no connection is closed twice.
\<close>

definition assoc_ok :: "udpAssociation \<Rightarrow> bool" where
  "assoc_ok a \<longleftrightarrow>
     distinct (map fst (as_sessions a)) \<and> distinct (as_closes a) \<and>
     (\<forall>(k, s)\<in>set (as_sessions a). s < length (as_opened a) \<and> k = key_of a s \<and> s \<notin> set (as_closing a) \<and> s \<notin> set (as_closes a)) \<and>
     (\<forall>s<length (as_opened a). (key_of a s, s) \<in> set (as_sessions a) \<or> s \<in> set (as_closing a) \<or> s \<in> set (as_closes a)) \<and>
     (\<forall>s\<in>set (as_closing a) \<union> set (as_closes a). s < length (as_opened a))"

lemma key_of_snoc [simp]: "s < length (as_opened a) \<Longrightarrow> key_of (a\<lparr>as_sessions := m, as_opened := as_opened a @ [x]\<rparr>) s = key_of a s"
  by (simp add: key_of_def nth_append)

lemma key_of_upd [simp]:
  "key_of (a\<lparr>as_sessions := m, as_closing := cs\<rparr>) s = key_of a s"
  "key_of (a\<lparr>as_closing := cs, as_closes := ds\<rparr>) s = key_of a s"
  "key_of (a\<lparr>as_once := b, as_closing := cs, as_sessions := m\<rparr>) s = key_of a s"
  by (simp_all add: key_of_def)

lemma assoc_ok_acquire: "assoc_ok a \<Longrightarrow> assoc_ok (fst (snd (udp_acquire w r client tgt a st)))"
proof -
  assume ok: "assoc_ok a"
  show ?thesis
  proof (cases "map_of (as_sessions a) (session_key client tgt) = None \<and> (\<exists>up. fst (Dial w r ''udp'' tgt st) = Ret up)")
    case True
    then obtain up where up: "fst (Dial w r ''udp'' tgt st) = Ret up" by auto
    let ?key = "session_key client tgt" and ?n = "length (as_opened a)"
    let ?x = "\<lparr>us_client = client, us_target = tgt, us_conn = up\<rparr>"
    have new: "?key \<notin> fst ` set (as_sessions a)" using True by (simp add: map_of_eq_None_iff)
    then have upd: "AList.update ?key ?n (as_sessions a) = as_sessions a @ [(?key, ?n)]"
      by (rule update_fresh)
    have key: "key_of (a\<lparr>as_sessions := m, as_opened := as_opened a @ [?x]\<rparr>) ?n = ?key" for m by (simp add: key_of_def)
    have "fst (snd (udp_acquire w r client tgt a st)) = a\<lparr>as_sessions := as_sessions a @ [(?key, ?n)], as_opened := as_opened a @ [?x]\<rparr>"
      using True up by (auto simp: udp_acquire_def Let_def upd split: prod.split)
    then show ?thesis using ok new key by (auto simp: assoc_ok_def less_Suc_eq)
  next
    case False
    then have "fst (snd (udp_acquire w r client tgt a st)) = a"
      by (auto simp: udp_acquire_def Let_def split: option.split prod.split go.split)
    with ok show ?thesis by simp
  qed
qed

lemma assoc_ok_remove:
  assumes "assoc_ok a" "s < length (as_opened a)"
  shows "assoc_ok (removeSession (key_of a s) s a)"
proof -
  let ?m = "if map_of (as_sessions a) (key_of a s) = Some s then AList.delete (key_of a s) (as_sessions a) else as_sessions a"
  have d: "distinct (map fst (as_sessions a))" using assms(1) by (simp add: assoc_ok_def)
  then have "map_of (as_sessions a) (key_of a s) = Some s \<longleftrightarrow> (key_of a s, s) \<in> set (as_sessions a)" by simp
  moreover have "t = s" if "(key_of a s, t) \<in> set (as_sessions a)" "map_of (as_sessions a) (key_of a s) = Some s" for t
    using that d by (metis map_of_is_SomeI option.inject)
  ultimately have m: "(k, t) \<in> set ?m \<longleftrightarrow> (k, t) \<in> set (as_sessions a) \<and> t \<noteq> s" for k t
    using assms(1) by (auto simp: assoc_ok_def AList.delete_eq)
  have "distinct (map fst ?m)" using d by (simp add: distinct_delete)
  with assms m show ?thesis by (auto simp: assoc_ok_def removeSession_def split del: if_split)
qed

lemma assoc_ok_closing:
  assumes "assoc_ok a" "set C \<subseteq> set (as_closing a)" "\<forall>t\<in>set (as_closing a). t \<noteq> s \<longrightarrow> t \<in> set C"
    "set D = insert s (set (as_closes a))" "distinct D" "s \<in> set (as_closing a)"
  shows "assoc_ok (a\<lparr>as_closing := C, as_closes := D\<rparr>)"
proof -
  have i: "\<forall>(k, t)\<in>set (as_sessions a). t < length (as_opened a) \<and> k = key_of a t \<and> t \<notin> set C \<and> t \<notin> set D"
    using assms(1,2,4,6) unfolding assoc_ok_def by fast
  have ii: "\<forall>t<length (as_opened a). (key_of a t, t) \<in> set (as_sessions a) \<or> t \<in> set C \<or> t \<in> set D"
    using assms(1,3,4) unfolding assoc_ok_def by (metis insertCI)
  have iii: "\<forall>t\<in>set C \<union> set D. t < length (as_opened a)" using assms(1,2,4,6) unfolding assoc_ok_def by fast
  show ?thesis using assms(1,5) i ii iii by (simp add: assoc_ok_def)
qed

lemma assoc_ok_run: "assoc_ok a \<Longrightarrow> s \<in> set (as_closing a) \<Longrightarrow> assoc_ok (session_close s a)"
  unfolding session_close_def
  by (rule assoc_ok_closing [where s = s]) (auto simp: assoc_ok_def set_remove1_subset dest: notin_set_remove1)

lemma assoc_ok_accounted:
  "assoc_ok a \<Longrightarrow> s < length (as_opened a) \<Longrightarrow> s \<in> snd ` set (as_sessions a) \<or> s \<in> set (as_closing a) \<or> s \<in> set (as_closes a)"
  unfolding assoc_ok_def by (metis image_eqI snd_conv)

lemma assoc_ok_close: "assoc_ok a \<Longrightarrow> assoc_ok (association_close a)"
proof (cases "as_once a")
  case False
  assume ok: "assoc_ok a"
  let ?C = "as_closing a @ map snd (as_sessions a)"
  have i: "s \<in> set ?C \<or> s \<in> set (as_closes a)" if "s < length (as_opened a)" for s
    using assoc_ok_accounted [OF ok that] by auto
  have ii: "s < length (as_opened a)" if "s \<in> set ?C \<union> set (as_closes a)" for s
    using ok that by (auto simp: assoc_ok_def)
  have "distinct (as_closes a)" using ok by (simp add: assoc_ok_def)
  with False i ii show ?thesis by (simp add: association_close_def assoc_ok_def)
qed (simp add: association_close_def)

lemma assoc_reach_ok: "assoc_reach a \<Longrightarrow> assoc_ok a"
proof (induction rule: assoc_reach.induct)
  case init
  show ?case by (simp add: assoc_ok_def new_association_def)
qed (simp_all add: assoc_ok_acquire assoc_ok_remove assoc_ok_run assoc_ok_close)

text \<open>Closing the inbound closes every registered association.\<close>

lemma close_registered_once:
  "i < length (mx_heap m) \<Longrightarrow> as_once (mx_heap (close_registered j m) ! i) \<longleftrightarrow> as_once (mx_heap m ! i) \<or> i = j"
  by (cases "i = j") (auto simp: close_registered_def association_close_def)

lemma close_registered_len [simp]: "length (mx_heap (close_registered j m)) = length (mx_heap m)"
  by (simp add: close_registered_def)

lemma Mixed_Close_all: "i < length (mx_heap m) \<Longrightarrow> i \<in> set (mx_associations m) \<Longrightarrow> as_once (mx_heap (Mixed_Close m) ! i)"
proof -
  have "i < length (mx_heap m) \<Longrightarrow> as_once (mx_heap m ! i) \<or> i \<in> set js \<Longrightarrow> as_once (mx_heap (fold close_registered js m) ! i)" for js and m
    by (induction js arbitrary: m) (auto simp: close_registered_once)
  then show "i < length (mx_heap m) \<Longrightarrow> i \<in> set (mx_associations m) \<Longrightarrow> as_once (mx_heap (Mixed_Close m) ! i)"
    by (simp add: Mixed_Close_def)
qed

text \<open>The sessions whose connection is open.\<close>

definition open_sessions :: "udpAssociation \<Rightarrow> nat set" where
  "open_sessions a = {s. s < length (as_opened a) \<and> s \<notin> set (as_closes a)}"

text \<open>
  A datagram that the receive loop has read before the association was closed, and looks up after,
  opens a session that no later close of the association closes.
\<close>

lemma late_datagram_leaks:
  assumes "Dial w r ''udp'' tgt st = (Ret up, st')"
  shows "\<exists>a. assoc_reach a \<and> as_once a \<and> as_closing a = [] \<and> open_sessions a = {0} \<and> association_close a = a"
proof -
  define a where "a = fst (snd (udp_acquire w r ''c'' tgt (association_close new_association) st))"
  have "assoc_reach a" unfolding a_def by (intro assoc_reach.intros)
  moreover have "as_once a" "as_closing a = []" "open_sessions a = {0}" "association_close a = a"
    using assms by (auto simp: a_def udp_acquire_def association_close_def new_association_def open_sessions_def Let_def)
  ultimately show ?thesis by blast
qed

section \<open>Properties\<close>

text \<open>
  C10: a client of the mixed inbound reaches what it asked for, and nothing it sends is lost: a SOCKS5
  CONNECT request (with any authentication methods, for an address or a name of at most 255 bytes) and
  an HTTP CONNECT request (with any header lines) dial the router at exactly the requested host and
  port, an address in canonical form; on success the client gets the success reply and the upstream
  connection all bytes that follow the request, on failure the client gets the failure reply.
\<close>

theorem Mixed_connect:
  assumes "port < 65536" "length methods \<le> 255" "host_fits host" "host_token name" "list_all header_line hs"
  shows "handle w r accepts_all ([0x05, word_of_nat (length methods)] @ methods @ [v, 0x01, rsv] @ trojanAddress host port @ rest) st =
      mixed_finish (socks_reply_bytes 0) (socks_reply_bytes 5) rest [0x05, 0x00]
        (Dial w r ''tcp'' (JoinHostPort (canonical_host host) (Itoa port)) st) \<and>
    handle w r accepts_all (connect_request name port hs @ rest) st =
      mixed_finish (http_status ''200 Connection Established'') (http_status ''502 Bad Gateway'') rest []
        (Dial w r ''tcp'' (JoinHostPort name (Itoa port)) st)"
proof -
  obtain t where "connect_request name port hs = 67 # t" using connect_request_hd by blast
  then show ?thesis
    using handleSOCKS5_connect [OF assms(3,1,2), of w r v rsv rest "[]" st] handleHTTPConnect_connect [OF assms(4,1,5), of w r rest "[]" st]
    by (simp add: handle_def)
qed

theorem Mixed_connect_witness:
  "handle world_example router_example accepts_all (connect_request ''example.org'' 443 [''Host: example.org''] @ [1, 2]) new_dns_state =
      mixed_finish (http_status ''200 Connection Established'') (http_status ''502 Bad Gateway'') [1, 2] []
        (Dial world_example router_example ''tcp'' (JoinHostPort ''example.org'' (Itoa 443)) new_dns_state)"
  using Mixed_connect [of 443 "[0]" "''example.org''" "''example.org''" "[''Host: example.org'']" world_example router_example 5 0 "[1, 2]" new_dns_state]
  by (simp add: host_fits_def host_token_def header_line_def is_space_def)


definition router_one :: router where
  "router_one = Register ''p'' (Leaf ''vless'') (New ''p'')"


end
