(* ===== verification/Importer.thy ===== *)
theory Importer
  imports Config_Validate "HOL-Library.Char_ord" "HOL-Library.List_Lexorder"
begin

text \<open>
  The importer of external JSON configurations (\<^verbatim>\<open>compat/singbox/importer.go\<close>). A decoded object is
  its list of members, read with \<^const>\<open>jmap\<close>; a type assertion that fails reads as an absent member.
\<close>

section \<open>Model: reading members\<close>

type_synonym obj = "(string \<times> json) list"

definition jstr :: "obj \<Rightarrow> string \<Rightarrow> string option" where
  "jstr m key = (case jmap m key of Some (JStr s) \<Rightarrow> Some s | _ \<Rightarrow> None)"

definition jbool :: "obj \<Rightarrow> string \<Rightarrow> bool option" where
  "jbool m key = (case jmap m key of Some (JBool b) \<Rightarrow> Some b | _ \<Rightarrow> None)"

definition jobj :: "obj \<Rightarrow> string \<Rightarrow> obj option" where
  "jobj m key = (case jmap m key of Some (JObj kvs) \<Rightarrow> Some kvs | _ \<Rightarrow> None)"

definition jarr :: "obj \<Rightarrow> string \<Rightarrow> json list option" where
  "jarr m key = (case jmap m key of Some (JArr vs) \<Rightarrow> Some vs | _ \<Rightarrow> None)"

fun the_str :: "json \<Rightarrow> string option" where
  "the_str (JStr s) = Some s"
| "the_str _ = None"

definition getString :: "obj \<Rightarrow> string \<Rightarrow> string" where
  "getString m key = (case jstr m key of Some s \<Rightarrow> s | None \<Rightarrow> [])"

definition getBool :: "obj \<Rightarrow> string \<Rightarrow> bool" where
  "getBool m key = (case jbool m key of Some b \<Rightarrow> b | None \<Rightarrow> False)"

text \<open>
  \<^verbatim>\<open>int(v)\<close> of a \<^verbatim>\<open>float64\<close> truncates; outside the range of an \<^verbatim>\<open>int\<close> the conversion of amd64 yields the
  least one. The text of a number that is not integral is \<open>d.ddd\<close> or \<open>d.ddde+xx\<close>.
\<close>

definition real_trunc :: "string \<Rightarrow> int" where
  "real_trunc t =
     (let neg = HasPrefix t ''-''; u = TrimPrefix t ''-'';
          m = takeWhile (\<lambda>c. c \<noteq> CHR ''e'') u; x = drop (length m + 1) u;
          ip = takeWhile (\<lambda>c. c \<noteq> CHR ''.'') m; fr = drop (length ip + 1) m;
          e = (case Atoi x of Some e \<Rightarrow> e | None \<Rightarrow> 0);
          v = dec_val (ip @ fr) * 10 ^ nat e div 10 ^ (length fr + nat (- e)) in
      if neg then - int v else int v)"

definition getInt :: "obj \<Rightarrow> string \<Rightarrow> int" where
  "getInt m key =
     (case jmap m key of
        Some (JInt n) \<Rightarrow> if - (2 ^ 63) \<le> n \<and> n < 2 ^ 63 then n else - (2 ^ 63)
      | Some (JReal t) \<Rightarrow> real_trunc t
      | Some (JStr s) \<Rightarrow> (case Atoi s of Some n \<Rightarrow> n | None \<Rightarrow> 0)
      | _ \<Rightarrow> 0)"

definition getStringList :: "obj \<Rightarrow> string \<Rightarrow> string list" where
  "getStringList m key =
     (case jmap m key of
        Some (JArr vs) \<Rightarrow> filter (\<lambda>text. TrimSpace text \<noteq> []) (List.map_filter the_str vs)
      | Some (JStr s) \<Rightarrow> if TrimSpace s \<noteq> [] then [s] else []
      | _ \<Rightarrow> [])"

text \<open>
  \<^verbatim>\<open>fmt.Sprintf("%v", v)\<close>: a float uses the shortest digits, with an exponent from 1e+06 on; an object
  prints its members in the order of their keys.
\<close>

definition print_int :: "int \<Rightarrow> string" where
  "print_int n = (if n < 0 then CHR ''-'' # Itoa (nat (- n)) else Itoa (nat n))"

definition sprint_int :: "int \<Rightarrow> string" where
  "sprint_int n =
     (if \<bar>n\<bar> < 1000000 then print_int n
      else
        (let ds = Itoa (nat \<bar>n\<bar>); sig = List.rev (dropWhile (\<lambda>c. c = CHR ''0'') (List.rev ds)); e = length ds - 1 in
         (if n < 0 then ''-'' else []) @ take 1 sig @ (if length sig = 1 then [] else CHR ''.'' # drop 1 sig)
         @ ''e+'' @ (if e < 10 then ''0'' else []) @ Itoa e))"

definition sprint_members :: "(string \<times> string) list \<Rightarrow> string list" where
  "sprint_members kvs = map (\<lambda>k. k @ '':'' @ the (map_of (List.rev kvs) k)) (sort (remdups (map fst kvs)))"

fun sprint :: "json \<Rightarrow> string" where
  "sprint JNull = ''<nil>''"
| "sprint (JBool b) = (if b then ''true'' else ''false'')"
| "sprint (JInt n) = sprint_int n"
| "sprint (JReal t) = t"
| "sprint (JStr s) = s"
| "sprint (JArr vs) = ''['' @ Join (map sprint vs) '' '' @ '']''"
| "sprint (JObj kvs) = ''map['' @ Join (sprint_members (map (\<lambda>(k, v). (k, sprint v)) kvs)) '' '' @ '']''"

definition parseDurationSeconds :: "string \<Rightarrow> int" where
  "parseDurationSeconds s0 =
     (if s0 = [] then 0
      else
        (let s = TrimSpace s0;
             (t, mult) = (if HasSuffix s ''s'' then (TrimSuffix s ''s'', 1)
               else if HasSuffix s ''m'' then (TrimSuffix s ''m'', 60)
               else if HasSuffix s ''h'' then (TrimSuffix s ''h'', 3600)
               else if HasSuffix s ''d'' then (TrimSuffix s ''d'', 86400)
               else (s, 1)) in
         case Atoi t of None \<Rightarrow> 0 | Some n \<Rightarrow> sint (word_of_int (n * mult) :: 64 word)))"

definition netJoinHostPort :: "string \<Rightarrow> int \<Rightarrow> string" where
  "netJoinHostPort host port =
     (if CHR '':'' \<in> set host \<and> \<not> HasPrefix host ''['' then ''['' @ host @ '']'' else host) @ '':'' @ print_int port"

definition mapGroupType :: "string \<Rightarrow> string" where
  "mapGroupType t =
     (if t = ''selector'' then ''select''
      else if t = ''urltest'' then ''urltest''
      else if t = ''fallback'' then ''fallback''
      else if t = ''load-balance'' then ''balance''
      else t)"

section \<open>Model: rules and nodes\<close>

definition match_list :: "obj \<Rightarrow> string \<Rightarrow> string list" where
  "match_list rm key = (case jarr rm key of Some vs \<Rightarrow> List.map_filter the_str vs | None \<Rightarrow> [])"

definition match_ports :: "obj \<Rightarrow> string list" where
  "match_ports rm = (case jmap rm ''port'' of None \<Rightarrow> [] | Some (JArr vs) \<Rightarrow> map sprint vs | Some v \<Rightarrow> [sprint v])"

definition convertRule :: "obj \<Rightarrow> Rule option" where
  "convertRule rm =
     (let action = getString rm ''action'';
          match = \<lparr>m_Domain = match_list rm ''domain'', m_DomainSuffix = match_list rm ''domain_suffix'',
            m_DomainKeyword = match_list rm ''domain_keyword'',
            m_IPCIDR = match_list rm ''ip_cidr'' @ (if jbool rm ''ip_is_private'' = Some True then [''private''] else []),
            m_RuleSet = getStringList rm ''rule_set'', m_ProcessName = match_list rm ''process_name'',
            m_Network = getString rm ''network'', m_Port = match_ports rm\<rparr>;
          rule = \<lparr>r_Match = match,
            r_Action = (if action = ''reject'' then ActionReject else if action = ''hijack-dns'' then ActionHijackDNS else ActionRoute),
            r_Target = (if action = ''reject'' \<or> action = ''hijack-dns'' then [] else getString rm ''outbound''),
            r_NoResolve = False\<rparr>;
          hasMatcher = (m_Domain match \<noteq> [] \<or> m_DomainSuffix match \<noteq> [] \<or> m_DomainKeyword match \<noteq> [] \<or> m_IPCIDR match \<noteq> [] \<or>
            m_ProcessName match \<noteq> [] \<or> m_Network match \<noteq> [] \<or> m_Port match \<noteq> [] \<or> m_RuleSet match \<noteq> []) in
      if \<not> hasMatcher \<and> r_Target rule = [] then None else Some rule)"

text \<open>A member copied into \<^verbatim>\<open>node.Auth\<close> when it is a string, or printed when it is there at all.\<close>

definition auth_str :: "obj \<Rightarrow> string \<Rightarrow> (string \<times> string) list" where
  "auth_str om key = (case jstr om key of Some s \<Rightarrow> [(key, s)] | None \<Rightarrow> [])"

definition auth_any :: "obj \<Rightarrow> string \<Rightarrow> (string \<times> string) list" where
  "auth_any om key = (case jmap om key of Some v \<Rightarrow> [(key, sprint v)] | None \<Rightarrow> [])"

definition hysteria2_obfs :: "obj \<Rightarrow> (config_error, (string \<times> string) list) go" where
  "hysteria2_obfs om =
     (case jobj om ''obfs'' of
        None \<Rightarrow> Ret []
      | Some obfs \<Rightarrow>
          (let obfsType = ToLower (TrimSpace (getString obfs ''type'')); obfsPassword = getString obfs ''password'' in
           if obfsType = [] then Ret []
           else if obfsType = ''salamander'' then
             (if obfsPassword = [] then Err (Invalid ''hysteria2 salamander password is required'')
              else Ret [(''obfs'', obfsType), (''obfs_password'', obfsPassword)])
           else Err (Invalid ''hysteria2 obfs is not implemented'')))"

definition tuic_auth :: "obj \<Rightarrow> (config_error, (string \<times> string) list) go" where
  "tuic_auth om =
     gbind (case jstr om ''congestion_control'' of
              None \<Rightarrow> Ret []
            | Some cc \<Rightarrow> if cc \<noteq> [] \<and> \<not> EqualFold cc ''cubic'' then Err (Invalid ''tuic congestion control is not implemented'')
                else Ret [(''congestion_control'', cc)]) (\<lambda>cc.
     gbind (need (jbool om ''zero_rtt_handshake'' \<noteq> Some True) ''tuic zero_rtt_handshake is not implemented'') (\<lambda>_.
     let relay = TrimSpace (getString om ''udp_relay_mode'') in
     gbind (need (relay = [] \<or> relay = ''native'') ''tuic udp_relay_mode is not implemented'') (\<lambda>_.
       Ret (auth_str om ''uuid'' @ auth_str om ''password'' @ cc))))"

definition convert_auth :: "string \<Rightarrow> obj \<Rightarrow> (config_error, (string \<times> string) list) go" where
  "convert_auth t om =
     (if t = ''vless'' then Ret (auth_str om ''uuid'' @ auth_str om ''flow'' @ auth_str om ''packet_encoding'')
      else if t = ''trojan'' then Ret (auth_str om ''password'')
      else if t = ''vmess'' then Ret (auth_str om ''uuid'' @ auth_any om ''alter_id'' @ auth_str om ''security'')
      else if t = ''shadowsocks'' then Ret (auth_str om ''method'' @ auth_str om ''password'')
      else if t = ''hysteria2'' then
        gbind (hysteria2_obfs om) (\<lambda>obfs. Ret (auth_str om ''password'' @ obfs @ auth_any om ''up_mbps'' @ auth_any om ''down_mbps''))
      else if t = ''tuic'' then tuic_auth om
      else Ret [])"

definition convert_tls :: "obj \<Rightarrow> TLSOptions" where
  "convert_tls tlsRaw =
     (let serverName = getString tlsRaw ''server_name'';
          reality = map_option (\<lambda>r. \<lparr>re_Enabled = getBool r ''enabled'', re_PublicKey = getString r ''public_key'',
            re_ShortID = getString r ''short_id''\<rparr>) (jobj tlsRaw ''reality'') in
      \<lparr>t_Enabled = (getBool tlsRaw ''enabled'' \<or> serverName \<noteq> [] \<or> (case reality of Some r \<Rightarrow> re_Enabled r | None \<Rightarrow> False)),
       t_ServerName = serverName, t_Insecure = getBool tlsRaw ''insecure'',
       t_UTLSFingerprint = (case jobj tlsRaw ''utls'' of Some u \<Rightarrow> getString u ''fingerprint'' | None \<Rightarrow> []),
       t_Reality = reality\<rparr>)"

definition convert_transport :: "obj \<Rightarrow> (config_error, TransportOptions) go" where
  "convert_transport tpRaw =
     (let t = getString tpRaw ''type''; tp = \<lparr>tr_Type = t, tr_Path = [], tr_Host = [], tr_ServiceName = []\<rparr> in
      if t \<in> {[], ''raw'', ''tcp''} then Ret tp
      else if t = ''ws'' then
        Ret (tp\<lparr>tr_Path := getString tpRaw ''path'',
          tr_Host := (case jobj tpRaw ''headers'' of Some h \<Rightarrow> getString h ''Host'' | None \<Rightarrow> [])\<rparr>)
      else if t = ''grpc'' then Ret (tp\<lparr>tr_ServiceName := getString tpRaw ''service_name''\<rparr>)
      else if t = ''http'' then Err (Invalid ''HTTP transport is not implemented'')
      else Err (Invalid ''transport is not implemented''))"

definition convertNode :: "string \<Rightarrow> string \<Rightarrow> obj \<Rightarrow> (config_error, Node) go" where
  "convertNode tag t om =
     gbind (need (t \<in> {''vless'', ''trojan'', ''hysteria2'', ''tuic''}) ''protocol is not implemented'') (\<lambda>_.
     let port = getInt om ''server_port'' in
     gbind (need (\<not> (port < 1 \<or> 65535 < port)) ''server port must be between 1 and 65535'') (\<lambda>_.
     gbind (convert_auth t om) (\<lambda>auth.
     let tls = map_option convert_tls (jobj om ''tls'') in
     gbind (case jobj om ''transport'' of None \<Rightarrow> Ret None | Some tpRaw \<Rightarrow> gbind (convert_transport tpRaw) (\<lambda>tp. Ret (Some tp))) (\<lambda>transport.
     gbind (need (\<not> (case jobj om ''multiplex'' of Some m \<Rightarrow> getBool m ''enabled'' | None \<Rightarrow> False)) ''multiplex is not implemented'') (\<lambda>_.
       Ret \<lparr>n_ID = tag, n_Name = tag, n_Type = t, n_Server = getString om ''server'', n_Port = nat port, n_TLS = tls, n_Transport = transport,
            n_Auth = auth, n_Dial = \<lparr>d_BindInterface = [], d_DomainResolver = []\<rparr>, n_UDP = getBool om ''udp'', n_Tags = []\<rparr>)))))"

section \<open>Model: the document\<close>

definition import_log :: "obj \<Rightarrow> LogOptions" where
  "import_log raw =
     (let m = (case jobj raw ''log'' of Some m \<Rightarrow> m | None \<Rightarrow> []); level = getString m ''level'' in
      \<lparr>l_Level = (if level \<noteq> [] then level else ''warn''), l_Timestamp = (case jbool m ''timestamp'' of Some b \<Rightarrow> b | None \<Rightarrow> True)\<rparr>)"

definition import_dns_server :: "json \<Rightarrow> DNSOptions \<Rightarrow> (config_error, DNSOptions) go" where
  "import_dns_server s dns =
     (case s of
        JObj sm \<Rightarrow>
          (let t = getString sm ''type'' in
           if t = [] \<or> t = ''local'' then Ret dns
           else if t = ''https'' then
             (let host0 = getString sm ''server''; port = getInt sm ''server_port'';
                  host = (if 0 < port \<and> port \<noteq> 443 then netJoinHostPort host0 port else host0);
                  path0 = (if getString sm ''path'' = [] then ''/dns-query'' else getString sm ''path'');
                  path = (if \<not> HasPrefix path0 ''/'' then ''/'' @ path0 else path0) in
              if host0 = [] then Err (Invalid ''https server is empty'')
              else Ret (dns\<lparr>dns_Mode := ''doh'', dns_Detour := getString sm ''detour'', dns_Server := ''https://'' @ host @ path,
                   dns_TLSServer := (case jobj sm ''tls'' of Some tls \<Rightarrow> getString tls ''server_name'' | None \<Rightarrow> dns_TLSServer dns)\<rparr>))
           else if t = ''fakeip'' then Err (Invalid ''fakeip is not implemented'')
           else Err (Invalid ''dns server type is not implemented''))
      | _ \<Rightarrow> Ret dns)"

definition import_dns :: "obj \<Rightarrow> (config_error, DNSOptions) go" where
  "import_dns raw =
     (case jobj raw ''dns'' of
        None \<Rightarrow> Ret (zero_DNSOptions\<lparr>dns_Mode := ''local''\<rparr>)
      | Some m \<Rightarrow>
          check_all import_dns_server (case jarr m ''servers'' of Some vs \<Rightarrow> vs | None \<Rightarrow> [])
            (zero_DNSOptions\<lparr>dns_Mode := ''local'', dns_Strategy := getString m ''strategy''\<rparr>))"

definition import_api :: "obj \<Rightarrow> APIConfig" where
  "import_api raw =
     (let clash = (case jobj raw ''experimental'' of
            Some exp \<Rightarrow> (case jobj exp ''clash_api'' of Some c \<Rightarrow> c | None \<Rightarrow> []) | None \<Rightarrow> []);
          ec = getString clash ''external_controller'' in
      \<lparr>api_Listen = (if ec \<noteq> [] then ec else ''127.0.0.1:9090''), api_Secret = getString clash ''secret''\<rparr>)"

definition zero_Inbound :: InboundConfig where
  "zero_Inbound = \<lparr>i_Type = [], i_Tag = [], i_Listen = [], i_Port = 0, i_TUNAddress = [], i_TUNMTU = 0, i_TUNAutoRoute = False,
     i_TUNStrictRoute = False, i_TUNStack = [], i_TUNInterface = [], i_TUNRouteAddr = []\<rparr>"

definition import_inbound :: "json \<Rightarrow> InboundConfig list \<Rightarrow> (config_error, InboundConfig list) go" where
  "import_inbound ib inbounds =
     (case ib of
        JObj im \<Rightarrow>
          (let ic = zero_Inbound\<lparr>i_Type := getString im ''type'', i_Tag := getString im ''tag''\<rparr>; listen = getString im ''listen'' in
           if i_Type ic \<in> {''mixed'', ''socks'', ''http''} then
             Ret (inbounds @ [ic\<lparr>i_Listen := (if listen = [] then ''127.0.0.1'' else listen), i_Port := nat (getInt im ''listen_port'' mod 65536)\<rparr>])
           else if i_Type ic = ''tun'' then
             Ret (inbounds @ [ic\<lparr>i_TUNAddress := getStringList im ''address'', i_TUNMTU := getInt im ''mtu'',
               i_TUNAutoRoute := getBool im ''auto_route'', i_TUNStrictRoute := getBool im ''strict_route'', i_TUNStack := getString im ''stack'',
               i_TUNInterface := getString im ''interface_name'', i_TUNRouteAddr := getStringList im ''route_address''\<rparr>])
           else Err (Invalid ''inbound type is not implemented''))
      | _ \<Rightarrow> Ret inbounds)"

definition known_tags :: "json list \<Rightarrow> string list" where
  "known_tags outbounds = List.map_filter (\<lambda>ob. case ob of JObj om \<Rightarrow> jstr om ''tag'' | _ \<Rightarrow> None) outbounds"

definition import_group :: "string list \<Rightarrow> string \<Rightarrow> string \<Rightarrow> obj \<Rightarrow> GroupConfig" where
  "import_group knownTags tag t om =
     \<lparr>g_ID = tag, g_Type = mapGroupType t,
      g_Members = (case jarr om ''outbounds'' of
          Some ms \<Rightarrow> filter (\<lambda>name. name \<in> set knownTags) (List.map_filter the_str ms) | None \<Rightarrow> []),
      g_URL = (if t = ''urltest'' then getString om ''url'' else []),
      g_Interval = (if t = ''urltest'' then parseDurationSeconds (getString om ''interval'') else 0),
      g_Tolerance = (if t = ''urltest'' then getInt om ''tolerance'' else 0),
      g_Default = getString om ''default''\<rparr>"

definition import_outbound ::
  "string list \<Rightarrow> json \<Rightarrow> GroupConfig list \<times> Node list \<Rightarrow> (config_error, GroupConfig list \<times> Node list) go" where
  "import_outbound knownTags ob s =
     (case s of (groups, nodes) \<Rightarrow>
       (case ob of
          JObj om \<Rightarrow>
            (let tag = getString om ''tag''; t = getString om ''type'' in
             if tag = [] then Ret (groups, nodes)
             else if t = ''direct'' \<or> t = ''block'' \<or> t = ''dns'' then Ret (groups, nodes)
             else if t = ''selector'' \<or> t = ''urltest'' then Ret (groups @ [import_group knownTags tag t om], nodes)
             else if t = ''fallback'' \<or> t = ''load-balance'' then Err (Invalid ''group type is not implemented'')
             else gbind (convertNode tag t om) (\<lambda>node. Ret (groups, nodes @ [node])))
        | _ \<Rightarrow> Ret (groups, nodes)))"

definition import_ruleset :: "json \<Rightarrow> RulesetConfig list \<Rightarrow> (config_error, RulesetConfig list) go" where
  "import_ruleset item sets =
     (case item of
        JObj setRaw \<Rightarrow>
          (let setType = (if getString setRaw ''type'' = [] then ''remote'' else getString setRaw ''type'');
               fmt = (if getString setRaw ''format'' = [] then ''source'' else getString setRaw ''format'') in
           gbind (need (setType = ''remote'') ''rule set type is not implemented'') (\<lambda>_.
           gbind (need (fmt = ''source'' \<or> fmt = ''binary'') ''rule set format is not implemented'') (\<lambda>_.
           let rs = \<lparr>rs_ID = getString setRaw ''tag'', rs_Type = setType, rs_Format = fmt, rs_URL = getString setRaw ''url'',
                 rs_FallbackURLs = getStringList setRaw ''download_fallback_url'', rs_DownloadDetour = getString setRaw ''download_detour'',
                 rs_UpdateInterval = parseDurationSeconds (getString setRaw ''update_interval''), rs_Optional = getBool setRaw ''download_optional''\<rparr> in
           gbind (need (\<not> (rs_ID rs = [] \<or> rs_URL rs = [])) ''remote rule set requires tag and url'') (\<lambda>_.
             Ret (sets @ [rs])))))
      | _ \<Rightarrow> Err (Invalid ''route.rule_set contains a non-object entry''))"

definition import_rule :: "json \<Rightarrow> Rule list \<Rightarrow> (config_error, Rule list) go" where
  "import_rule r rules =
     (case r of
        JObj rm \<Rightarrow>
          gbind (need (jmap rm ''process_name'' = None) ''route process_name matching is not implemented'') (\<lambda>_.
            case convertRule rm of None \<Rightarrow> Ret rules | Some rule \<Rightarrow> Ret (rules @ [rule]))
      | _ \<Rightarrow> Ret rules)"

text \<open>\<^verbatim>\<open>list, _ := m[key].([]interface{})\<close>: what is not a list is an empty one.\<close>

definition items_of :: "obj \<Rightarrow> string \<Rightarrow> json list" where
  "items_of m key = (case jarr m key of Some vs \<Rightarrow> vs | None \<Rightarrow> [])"

definition Import :: "obj \<Rightarrow> (config_error, Config) go" where
  "Import raw =
     gbind (need (items_of raw ''endpoints'' = []) ''endpoints are not implemented'') (\<lambda>_.
     gbind (import_dns raw) (\<lambda>dns.
     gbind (check_all import_inbound (items_of raw ''inbounds'') []) (\<lambda>inbounds.
     let outbounds = items_of raw ''outbounds'' in
     gbind (check_all (import_outbound (known_tags outbounds)) outbounds ([], [])) (\<lambda>(groups, nodes).
     let route = (case jobj raw ''route'' of Some m \<Rightarrow> m | None \<Rightarrow> []); fin = getString route ''final'' in
     gbind (check_all import_ruleset (items_of route ''rule_set'') []) (\<lambda>sets.
     gbind (check_all import_rule (items_of route ''rules'') []) (\<lambda>rules.
       Ret \<lparr>cfg_Log = import_log raw, cfg_Core = \<lparr>c_TUN = False, c_IPv6 = False, c_CacheDir = []\<rparr>, cfg_DNS = dns, cfg_Inbounds = inbounds,
            cfg_Nodes = nodes, cfg_Groups = groups, cfg_Providers = [], cfg_Rulesets = sets, cfg_Rules = rules,
            cfg_Final = (if fin \<noteq> [] then fin else ''direct''), cfg_API = import_api raw\<rparr>))))))"

definition ImportBytes :: "json option \<Rightarrow> (config_error, Config) go" where
  "ImportBytes document =
     (case document of
        Some v \<Rightarrow> (case decode_raw_map v of Some raw \<Rightarrow> Import raw | None \<Rightarrow> Err (Invalid ''decode json config''))
      | None \<Rightarrow> Err (Invalid ''decode json config''))"

section \<open>Lemmas\<close>

lemma check_all_inv:
  "(\<And>x s s'. I s \<Longrightarrow> f x s = Ret s' \<Longrightarrow> I s') \<Longrightarrow> I s \<Longrightarrow> check_all f xs s = Ret s' \<Longrightarrow> I s'"
  by (induction xs arbitrary: s) auto

lemma check_all_collect:
  "(\<And>x s s'. f x s = Ret s' \<Longrightarrow> h s' = h s @ g x) \<Longrightarrow> check_all f xs s = Ret s' \<Longrightarrow> h s' = h s @ concat (map g xs)"
  by (induction xs arbitrary: s) auto

text \<open>The tags of the outbounds that are nodes and of those that are groups, in order.\<close>

definition outbound_tag :: "(string \<Rightarrow> bool) \<Rightarrow> json \<Rightarrow> string list" where
  "outbound_tag p ob =
     (case ob of
        JObj om \<Rightarrow> if getString om ''tag'' \<noteq> [] \<and> p (getString om ''type'') then [getString om ''tag''] else []
      | _ \<Rightarrow> [])"

abbreviation group_type :: "string \<Rightarrow> bool" where
  "group_type t \<equiv> t = ''selector'' \<or> t = ''urltest''"

abbreviation node_type :: "string \<Rightarrow> bool" where
  "node_type t \<equiv> t \<notin> {''direct'', ''block'', ''dns'', ''selector'', ''urltest''}"

lemma import_outbound_tags:
  assumes "import_outbound known ob s = Ret s'"
  shows "map g_ID (fst s') = map g_ID (fst s) @ outbound_tag group_type ob" "map n_ID (snd s') = map n_ID (snd s) @ outbound_tag node_type ob"
  using assms by (cases ob; auto simp: import_outbound_def outbound_tag_def import_group_def convertNode_def Let_def split: prod.splits if_splits)+

definition node_imported :: "Node \<Rightarrow> bool" where
  "node_imported n \<longleftrightarrow> n_ID n \<noteq> [] \<and> n_Name n = n_ID n \<and> n_Type n \<in> {''vless'', ''trojan'', ''hysteria2'', ''tuic''} \<and>
     1 \<le> n_Port n \<and> n_Port n \<le> 65535 \<and> validate_transport (n_Transport n) = Ret ()"

definition group_imported :: "string list \<Rightarrow> GroupConfig \<Rightarrow> bool" where
  "group_imported known g \<longleftrightarrow> g_ID g \<noteq> [] \<and> g_Type g \<in> {''select'', ''urltest''} \<and> set (g_Members g) \<subseteq> set known"

definition inbound_imported :: "InboundConfig \<Rightarrow> bool" where
  "inbound_imported i \<longleftrightarrow> i_Type i \<in> {''mixed'', ''socks'', ''http'', ''tun''} \<and> i_Port i < 65536 \<and> (i_Type i = ''tun'' \<or> i_Listen i \<noteq> [])"

definition ruleset_imported :: "RulesetConfig \<Rightarrow> bool" where
  "ruleset_imported rs \<longleftrightarrow> rs_ID rs \<noteq> [] \<and> rs_URL rs \<noteq> [] \<and> rs_Type rs = ''remote'' \<and> rs_Format rs \<in> {''source'', ''binary''}"

definition rule_imported :: "Rule \<Rightarrow> bool" where
  "rule_imported r \<longleftrightarrow> m_ProcessName (r_Match r) = [] \<and> r_Action r \<in> {ActionRoute, ActionReject, ActionHijackDNS} \<and>
     (r_Action r \<noteq> ActionRoute \<longrightarrow> r_Target r = []) \<and> (r_Target r = [] \<longrightarrow> r_Match r \<noteq> zero_MatchExpr)"

definition dns_imported :: "DNSOptions \<Rightarrow> bool" where
  "dns_imported d \<longleftrightarrow> dns_FakeIP d = [] \<and> dns_Mode d \<in> {''local'', ''doh''} \<and> (dns_Mode d = ''doh'' \<longrightarrow> HasPrefix (dns_Server d) ''https://'')"

lemma convert_transport_valid: "convert_transport t = Ret tp \<Longrightarrow> validate_transport (Some tp) = Ret ()"
proof -
  assume "convert_transport t = Ret tp"
  then have "tr_Type tp \<in> {[], ''raw'', ''tcp'', ''ws'', ''grpc''}" by (auto simp: convert_transport_def Let_def split: if_splits)
  moreover have "ToLower (TrimSpace x) = x" if "x \<in> {[], ''raw'', ''tcp'', ''ws'', ''grpc''}" for x
    using that by (elim insertE emptyE) (simp; code_simp)+
  ultimately show ?thesis by (auto simp: validate_transport_def)
qed

lemma convertNode_imported: "convertNode tag t om = Ret n \<Longrightarrow> tag \<noteq> [] \<Longrightarrow> node_imported n"
proof -
  assume c: "convertNode tag t om = Ret n" and tag: "tag \<noteq> []"
  have "n_Transport n = None \<or> (\<exists>tpRaw tp. convert_transport tpRaw = Ret tp \<and> n_Transport n = Some tp)"
    using c by (auto simp: convertNode_def Let_def split: option.splits)
  then have "validate_transport (n_Transport n) = Ret ()"
    using convert_transport_valid by (auto simp: validate_transport_def [of None])
  moreover have "n_ID n = tag \<and> n_Name n = tag \<and> n_Type n \<in> {''vless'', ''trojan'', ''hysteria2'', ''tuic''} \<and> 1 \<le> n_Port n \<and> n_Port n \<le> 65535"
    using c by (auto simp: convertNode_def Let_def)
  ultimately show ?thesis using tag by (auto simp: node_imported_def)
qed

lemma import_outbound_imported:
  assumes "import_outbound known ob s = Ret s'" "list_all (group_imported known) (fst s)" "list_all node_imported (snd s)"
  shows "list_all (group_imported known) (fst s') \<and> list_all node_imported (snd s')"
  using assms
  by (cases ob; auto simp: import_outbound_def import_group_def mapGroupType_def group_imported_def Let_def convertNode_imported split: prod.splits if_splits option.splits)

lemma import_inbound_imported: "import_inbound ib is' = Ret js \<Longrightarrow> list_all inbound_imported is' \<Longrightarrow> list_all inbound_imported js"
  by (cases ib) (auto simp: import_inbound_def inbound_imported_def zero_Inbound_def Let_def nat_less_iff split: if_splits)

lemma import_ruleset_imported: "import_ruleset x sets = Ret sets' \<Longrightarrow> list_all ruleset_imported sets \<Longrightarrow> list_all ruleset_imported sets'"
  by (cases x) (auto simp: import_ruleset_def ruleset_imported_def Let_def)

lemma convertRule_imported: "convertRule rm = Some r \<Longrightarrow> jmap rm ''process_name'' = None \<Longrightarrow> rule_imported r"
  by (auto simp: convertRule_def rule_imported_def Let_def match_list_def [of rm "''process_name''"] jarr_def zero_MatchExpr_def split: if_splits)

lemma import_rule_imported: "import_rule x rules = Ret rules' \<Longrightarrow> list_all rule_imported rules \<Longrightarrow> list_all rule_imported rules'"
  by (cases x) (auto simp: import_rule_def convertRule_imported split: option.splits)

lemma import_dns_server_imported: "import_dns_server x d = Ret d' \<Longrightarrow> dns_imported d \<Longrightarrow> dns_imported d'"
  by (cases x) (auto simp: import_dns_server_def dns_imported_def Let_def HasPrefix_iff split: if_splits)

lemma import_dns_imported: "import_dns raw = Ret d \<Longrightarrow> dns_imported d"
proof -
  have z: "dns_imported (zero_DNSOptions\<lparr>dns_Mode := ''local''\<rparr>)" "dns_imported (zero_DNSOptions\<lparr>dns_Mode := ''local'', dns_Strategy := x\<rparr>)" for x
    by (simp_all add: dns_imported_def zero_DNSOptions_def)
  assume d: "import_dns raw = Ret d"
  show ?thesis
  proof (cases "jobj raw ''dns''")
    case None
    with d z(1) show ?thesis by (auto simp: import_dns_def)
  next
    case (Some m)
    with d have "check_all import_dns_server (case jarr m ''servers'' of Some vs \<Rightarrow> vs | None \<Rightarrow> [])
      (zero_DNSOptions\<lparr>dns_Mode := ''local'', dns_Strategy := getString m ''strategy''\<rparr>) = Ret d" by (simp add: import_dns_def)
    then show ?thesis by (rule check_all_inv [where I = dns_imported, rotated 2]) (auto intro: import_dns_server_imported z(2))
  qed
qed

text \<open>
  Matchers the importer does not know are dropped: a rule that has only such matchers and a target
  becomes one that matches everything, and one with a string where a list is expected as well.
\<close>

lemma convertRule_widens:
  "convertRule [(''geosite'', JArr [JStr ''cn'']), (''outbound'', JStr ''direct'')] =
     Some \<lparr>r_Match = zero_MatchExpr, r_Action = ActionRoute, r_Target = ''direct'', r_NoResolve = False\<rparr>"
  "convertRule [(''domain'', JStr ''example.org''), (''outbound'', JStr ''direct'')] =
     Some \<lparr>r_Match = zero_MatchExpr, r_Action = ActionRoute, r_Target = ''direct'', r_NoResolve = False\<rparr>"
  "convertRule [(''domain_regex'', JArr [JStr ''x'']), (''action'', JStr ''reject'')] = None"
  by code_simp+

section \<open>Properties\<close>

text \<open>
  C19: what the importer accepts has the shape the core works with, and nothing is lost or reordered:
  the nodes are exactly the tagged outbounds that are no group and no reserved one, the groups exactly
  the tagged selectors and URL tests, both in document order; every node has a supported protocol, a
  port from 1 to 65535 and a supported transport; every group member is the tag of an outbound; rule
  sets are remote ones with a tag and a URL, inbounds are of a known type with a listen address, no
  rule matches processes and a rule that routes nowhere has a matcher; DNS is local or DNS over HTTPS,
  and the final outbound and the API address are set.
\<close>

theorem Import_wellformed:
  assumes "Import raw = Ret cfg"
  shows "map n_ID (cfg_Nodes cfg) = concat (map (outbound_tag node_type) (items_of raw ''outbounds'')) \<and>
    map g_ID (cfg_Groups cfg) = concat (map (outbound_tag group_type) (items_of raw ''outbounds'')) \<and>
    list_all node_imported (cfg_Nodes cfg) \<and> list_all (group_imported (known_tags (items_of raw ''outbounds''))) (cfg_Groups cfg) \<and>
    list_all ruleset_imported (cfg_Rulesets cfg) \<and> list_all inbound_imported (cfg_Inbounds cfg) \<and> list_all rule_imported (cfg_Rules cfg) \<and>
    dns_imported (cfg_DNS cfg) \<and> cfg_Final cfg \<noteq> [] \<and> api_Listen (cfg_API cfg) \<noteq> [] \<and> cfg_Providers cfg = [] \<and> items_of raw ''endpoints'' = []"
proof -
  let ?obs = "items_of raw ''outbounds''" and ?route = "case jobj raw ''route'' of Some m \<Rightarrow> m | None \<Rightarrow> []"
  from assms obtain dns inbounds groups nodes sets rules where
    i: "items_of raw ''endpoints'' = []" "import_dns raw = Ret dns" "check_all import_inbound (items_of raw ''inbounds'') [] = Ret inbounds"
    "check_all (import_outbound (known_tags ?obs)) ?obs ([], []) = Ret (groups, nodes)"
    "check_all import_ruleset (items_of ?route ''rule_set'') [] = Ret sets" "check_all import_rule (items_of ?route ''rules'') [] = Ret rules"
    and cfg: "cfg_Nodes cfg = nodes" "cfg_Groups cfg = groups" "cfg_Rulesets cfg = sets" "cfg_Inbounds cfg = inbounds" "cfg_Rules cfg = rules"
    "cfg_DNS cfg = dns" "cfg_Final cfg \<noteq> []" "api_Listen (cfg_API cfg) \<noteq> []" "cfg_Providers cfg = []"
    by (auto simp: Import_def Let_def import_api_def)
  have tags: "map g_ID groups = concat (map (outbound_tag group_type) ?obs)" "map n_ID nodes = concat (map (outbound_tag node_type) ?obs)"
    using check_all_collect [where h = "\<lambda>s. map g_ID (fst s)" and g = "outbound_tag group_type", OF import_outbound_tags(1) i(4)]
      check_all_collect [where h = "\<lambda>s. map n_ID (snd s)" and g = "outbound_tag node_type", OF import_outbound_tags(2) i(4)] by simp_all
  let ?I = "\<lambda>s. list_all (group_imported (known_tags ?obs)) (fst s) \<and> list_all node_imported (snd s)"
  have "?I s'" if "?I s" "import_outbound (known_tags ?obs) x s = Ret s'" for x s s'
    using import_outbound_imported [OF that(2)] that(1) by blast
  from check_all_inv [where I = ?I, OF this _ i(4)]
  have obs: "list_all (group_imported (known_tags ?obs)) groups \<and> list_all node_imported nodes" by simp
  have "list_all inbound_imported inbounds" "list_all ruleset_imported sets" "list_all rule_imported rules"
    using check_all_inv [where I = "list_all inbound_imported", OF _ _ i(3)] import_inbound_imported
      check_all_inv [where I = "list_all ruleset_imported", OF _ _ i(5)] import_ruleset_imported
      check_all_inv [where I = "list_all rule_imported", OF _ _ i(6)] import_rule_imported by auto
  with tags obs cfg i(1) import_dns_imported [OF i(2)] show ?thesis by simp
qed

definition sample_document :: obj where
  "sample_document =
     [(''inbounds'', JArr [JObj [(''type'', JStr ''mixed''), (''listen_port'', JInt 9)]]),
      (''outbounds'', JArr
         [JObj [(''tag'', JStr ''auto''), (''type'', JStr ''selector''), (''outbounds'', JArr [JStr ''hk'', JStr ''gone''])],
          JObj [(''tag'', JStr ''hk''), (''type'', JStr ''trojan''), (''server'', JStr ''h''), (''server_port'', JInt 8), (''password'', JStr ''p'')],
          JObj [(''tag'', JStr ''direct''), (''type'', JStr ''direct'')]]),
      (''route'', JObj [(''final'', JStr ''auto'')])]"

theorem Import_wellformed_witness:
  "\<exists>cfg. Import sample_document = Ret cfg \<and> map n_ID (cfg_Nodes cfg) = [''hk''] \<and> map g_ID (cfg_Groups cfg) = [''auto''] \<and> list_all node_imported (cfg_Nodes cfg)"
proof -
  have "(case Import sample_document of Ret _ \<Rightarrow> True | _ \<Rightarrow> False)" by code_simp
  then obtain cfg where cfg: "Import sample_document = Ret cfg" by (auto split: go.splits)
  have "concat (map (outbound_tag node_type) (items_of sample_document ''outbounds'')) = [''hk'']"
    "concat (map (outbound_tag group_type) (items_of sample_document ''outbounds'')) = [''auto'']" by code_simp+
  with Import_wellformed [OF cfg] cfg show ?thesis by auto
qed

end
