(* ===== verification/API.thy ===== *)
theory API
  imports Runtime
begin

text \<open>
  The control API (\<^verbatim>\<open>api/controller.go\<close>) and the latency probe it calls (\<^verbatim>\<open>probe/url.go\<close>). A request is
  what the HTTP server parsed, a response its status with the JSON value written; the state is what the
  handlers share with the rest of the core. The HTTP server, URL parsing, time formatting and the probe's
  HTTP exchange are parameters.
\<close>

section \<open>Model\<close>

definition coreVersion :: string where
  "coreVersion = ''1.10.12''"

record request =
  rq_method :: string
  rq_path :: string
  rq_query :: "string \<Rightarrow> string"
  rq_header :: "string \<Rightarrow> string"
  rq_body :: "json option"
  rq_host :: string
  rq_origin :: "string option option"

text \<open>\<^verbatim>\<open>rq_origin\<close> is \<^verbatim>\<open>websocket.Origin\<close>: an error, no origin, or the host name of one.\<close>

datatype response = Reply nat "json option" | Upgraded | Forbidden | Redirect

record api_state =
  ap_router :: router
  ap_dns :: dns_state
  ap_stats :: Traffic
  ap_conns :: Connections

record probe_response =
  pr_total :: int
  pr_connect :: int
  pr_status :: int

record api_world =
  aw_time :: "int \<Rightarrow> string"
  aw_parse :: "string \<Rightarrow> (string \<times> string \<times> string) option"
  aw_probe :: "string \<Rightarrow> string \<Rightarrow> int \<Rightarrow> string + probe_response"

type_synonym handler = "request \<Rightarrow> api_state \<Rightarrow> response \<times> api_state"

definition writeJSON :: "json \<Rightarrow> response" where
  "writeJSON v = Reply 200 (Some v)"

definition writeError :: "nat \<Rightarrow> string \<Rightarrow> response" where
  "writeError status message = Reply status (Some (JObj [(''error'', JStr message)]))"

text \<open>\<^verbatim>\<open>Measure\<close> after the request: the connect time is at most the total, and only a 2xx status succeeds.\<close>

definition Measure_result :: "probe_response \<Rightarrow> string + probe_response" where
  "Measure_result p =
     (let p1 = (if pr_connect p \<le> 0 \<or> pr_total p < pr_connect p then p\<lparr>pr_connect := pr_total p\<rparr> else p) in
      if pr_status p1 < 200 \<or> 300 \<le> pr_status p1 then Inl ''URL test HTTP status'' else Inr p1)"

definition Measure :: "api_world \<Rightarrow> string \<Rightarrow> string \<Rightarrow> int \<Rightarrow> string + probe_response" where
  "Measure aw name tgt timeout = (case aw_probe aw name tgt timeout of Inl e \<Rightarrow> Inl e | Inr p \<Rightarrow> Measure_result p)"

definition version :: handler where
  "version rq s =
     (if rq_method rq \<noteq> ''GET'' then (writeError 405 ''method not allowed'', s)
      else (writeJSON (JObj [(''version'', JStr coreVersion)]), s))"

definition groupView :: "('o, 'x) base_scheme \<Rightarrow> json" where
  "groupView g = JObj [(''type'', JStr (b_typ g)), (''now'', JStr (Current g)), (''all'', JArr (map JStr (Members g)))]"

fun group_json :: "outbound \<Rightarrow> json option" where
  "group_json (GSelect b) = Some (groupView b)"
| "group_json (GURLTest u) = Some (groupView u)"
| "group_json _ = None"

definition proxies :: handler where
  "proxies rq s =
     (if rq_method rq \<noteq> ''GET'' then (writeError 405 ''method not allowed'', s)
      else (writeJSON (JObj [(''proxies'', JObj (List.map_filter (\<lambda>(name, ob). map_option (\<lambda>v. (name, v)) (group_json ob))
              (rt_outbounds (ap_router s))))]), s))"

definition delay_timeout :: "string \<Rightarrow> int" where
  "delay_timeout raw =
     (if raw \<noteq> [] then
        (case Atoi raw of
           Some millis \<Rightarrow> (if 30000 < max 100 millis then 30000 else max 100 millis) * 1000000
         | None \<Rightarrow> 8000000000)
      else 8000000000)"

definition proxyDelay :: "api_world \<Rightarrow> string \<Rightarrow> handler" where
  "proxyDelay aw name rq s =
     (if rq_method rq \<noteq> ''GET'' then (writeError 405 ''method not allowed'', s)
      else
        (case map_of (rt_outbounds (ap_router s)) name of
           None \<Rightarrow> (writeError 404 ''proxy not found'', s)
         | Some ob \<Rightarrow>
             (let tgt = (if rq_query rq ''url'' = [] then ''https://www.gstatic.com/generate_204'' else rq_query rq ''url'') in
              case aw_parse aw tgt of
                None \<Rightarrow> (writeError 400 ''invalid delay test URL'', s)
              | Some (scheme, host, url) \<Rightarrow>
                  (if host = [] \<or> (scheme \<noteq> ''http'' \<and> scheme \<noteq> ''https'') then (writeError 400 ''invalid delay test URL'', s)
                   else
                     (case Measure aw name url (delay_timeout (rq_query rq ''timeout'')) of
                        Inl e \<Rightarrow> (writeError 503 e, s)
                      | Inr res \<Rightarrow>
                          (let totalDelay = max 1 (pr_total res div 1000000); connectDelay = max 1 (pr_connect res div 1000000) in
                           (writeJSON (JObj [(''delay'', JInt totalDelay), (''totalDelay'', JInt totalDelay),
                              (''connectDelay'', JInt connectDelay), (''status'', JInt (pr_status res))]), s)))))))"

text \<open>Decoding the body into a struct with a field \<^verbatim>\<open>name\<close>: keys are compared without case, the last one wins.\<close>

fun decode_name :: "(string \<times> json) list \<Rightarrow> string \<Rightarrow> string option" where
  "decode_name [] name = Some name"
| "decode_name ((k, v) # kvs) name =
     (if EqualFold k ''name'' then
        (case v of JStr s \<Rightarrow> decode_name kvs s | JNull \<Rightarrow> decode_name kvs name | _ \<Rightarrow> None)
      else decode_name kvs name)"

definition body_name :: "json option \<Rightarrow> string option" where
  "body_name body = (case body of Some v \<Rightarrow> (case decode_raw_map v of Some kvs \<Rightarrow> decode_name kvs [] | None \<Rightarrow> None) | None \<Rightarrow> None)"

definition outbound_view :: "outbound \<Rightarrow> json" where
  "outbound_view ob = (case group_json ob of Some v \<Rightarrow> v | None \<Rightarrow> JObj [(''type'', JStr (outbound_type ob))])"

definition proxy_select :: "string \<Rightarrow> outbound \<Rightarrow> handler" where
  "proxy_select name ob rq s =
     (case body_name (rq_body rq) of
        None \<Rightarrow> (writeError 400 ''invalid body'', s)
      | Some member \<Rightarrow>
          (if member = [] then (writeError 400 ''invalid body'', s)
           else
             (case ob of
                GSelect b \<Rightarrow>
                  (case SetCurrent member b of
                     (False, _) \<Rightarrow> (writeError 400 ''selector member not found'', s)
                   | (True, b') \<Rightarrow>
                       (writeJSON (outbound_view (GSelect b')),
                        s\<lparr>ap_router := (ap_router s)\<lparr>rt_outbounds := AList.update name (GSelect b') (rt_outbounds (ap_router s))\<rparr>,
                          ap_dns := InvalidateDNSConnections (ap_dns s)\<rparr>))
              | _ \<Rightarrow> (writeError 400 ''proxy is not selectable'', s))))"

definition proxy_name :: "string \<Rightarrow> string \<times> string option" where
  "proxy_name name = (case IndexByte name (CHR ''/'') of Some i \<Rightarrow> (take i name, Some (drop (i + 1) name)) | None \<Rightarrow> (name, None))"

definition proxy :: "api_world \<Rightarrow> handler" where
  "proxy aw rq s =
     (let path = TrimPrefix (rq_path rq) ''/proxies/'' in
      if path = [] then (writeError 400 ''missing proxy name'', s)
      else
        (case proxy_name path of (name, sfx) \<Rightarrow>
          if sfx = Some ''delay'' then proxyDelay aw name rq s
          else
            (case map_of (rt_outbounds (ap_router s)) name of
               None \<Rightarrow> (writeError 404 ''proxy not found'', s)
             | Some ob \<Rightarrow>
                 (if rq_method rq = ''PUT'' then proxy_select name ob rq s
                  else if rq_method rq \<noteq> ''GET'' then (writeError 405 ''method not allowed'', s)
                  else (writeJSON (outbound_view ob), s)))))"

definition connectionView :: "api_world \<Rightarrow> Connection \<Rightarrow> json" where
  "connectionView aw c =
     (let md = Metadata c in
      JObj ([(''id'', JStr (ID c)), (''network'', JStr (md_Network md)), (''source'', JStr (md_Source md)), (''host'', JStr (md_Host md)),
        (''destination'', JStr (md_Destination md)), (''domain'', JStr (md_Domain md)), (''route'', JStr (md_Route md)),
        (''outbound'', JStr (md_Outbound md)), (''rule'', JStr (md_Rule md)), (''startedAt'', JStr (aw_time aw (StartedAt c))),
        (''upload'', JInt (sint (Upload c))), (''download'', JInt (sint (Download c)))] @
        (case closedAt c of
           None \<Rightarrow> [(''status'', JStr ''active'')]
         | Some at \<Rightarrow> [(''status'', JStr ''closed''), (''closedAt'', JStr (aw_time aw at))])))"

definition connectionSnapshot :: "api_world \<Rightarrow> api_state \<Rightarrow> json" where
  "connectionSnapshot aw s =
     JObj [(''uploadTotal'', JInt (sint (upload (ap_stats s)))), (''downloadTotal'', JInt (sint (Traffic.download (ap_stats s)))),
       (''connections'', JArr (map (connectionView aw) (Snapshot (ap_conns s))))]"

text \<open>\<^verbatim>\<open>CloseAll\<close> runs in the background; its effect is part of the new state.\<close>

definition connections :: "api_world \<Rightarrow> handler" where
  "connections aw rq s =
     (if rq_method rq = ''DELETE'' then
        (Reply 204 None, s\<lparr>ap_dns := InvalidateDNSConnections (ap_dns s), ap_conns := CloseAll (ap_conns s)\<rparr>)
      else if rq_method rq \<noteq> ''GET'' then (writeError 405 ''method not allowed'', s)
      else (writeJSON (connectionSnapshot aw s), s))"

text \<open>The handshake of \<^verbatim>\<open>webSocketHandler\<close>.\<close>

definition origin_allowed :: "request \<Rightarrow> bool" where
  "origin_allowed rq =
     (case rq_origin rq of
        None \<Rightarrow> False
      | Some None \<Rightarrow> True
      | Some (Some h) \<Rightarrow>
          (let originHost = ToLower (TrimSpace h);
               requestHost0 = (case SplitHostPort (rq_host rq) of Some (host, _) \<Rightarrow> host | None \<Rightarrow> rq_host rq);
               requestHost = ToLower (TrimChars requestHost0 ''[]'') in
           originHost = requestHost \<or> originHost = ''localhost'' \<or>
           (case ParseIP originHost of Some a \<Rightarrow> ip_IsLoopback a | None \<Rightarrow> False)))"

definition webSocketHandler :: handler where
  "webSocketHandler rq s = (if origin_allowed rq then Upgraded else Forbidden, s)"

definition connectionsEndpoint :: "api_world \<Rightarrow> handler" where
  "connectionsEndpoint aw rq s =
     (if EqualFold (rq_header rq ''Upgrade'') ''websocket'' then webSocketHandler rq s else connections aw rq s)"

definition connectionLog :: "api_world \<Rightarrow> handler" where
  "connectionLog aw rq s =
     (if rq_method rq = ''DELETE'' then (Reply 204 None, s\<lparr>ap_conns := ClearHistory (ap_conns s)\<rparr>)
      else if rq_method rq \<noteq> ''GET'' then (writeError 405 ''method not allowed'', s)
      else
        (let rawAfter = TrimSpace (rq_query rq ''after''); rawLimit = TrimSpace (rq_query rq ''limit'');
             after = (if rawAfter = [] then Some 0 else ParseUint64 rawAfter);
             limit = (if rawLimit = [] then Some 1000
               else case Atoi rawLimit of Some n \<Rightarrow> if n < 1 then None else Some n | None \<Rightarrow> None) in
         case after of
           None \<Rightarrow> (writeError 400 ''invalid connection log cursor'', s)
         | Some a \<Rightarrow>
             (case limit of
                None \<Rightarrow> (writeError 400 ''invalid connection log limit'', s)
              | Some l \<Rightarrow>
                  (case HistorySnapshotSince a l (ap_conns s) of (rows, cursor) \<Rightarrow>
                    (writeJSON (JObj [(''cursor'', JInt (int cursor)), (''connections'', JArr (map (connectionView aw) rows))]), s)))))"

text \<open>One tick of \<^verbatim>\<open>trafficWebSocket\<close>: the counters of the previous tick and of this one.\<close>

definition max64 :: "64 word \<Rightarrow> 64 word \<Rightarrow> 64 word" where
  "max64 a b = (if sint b < sint a then a else b)"

definition traffic_frame :: "Traffic \<Rightarrow> Traffic \<Rightarrow> json" where
  "traffic_frame lst t = JObj [(''up'', JInt (sint (max64 0 (upload t - upload lst)))), (''down'', JInt (sint (max64 0 (Traffic.download t - Traffic.download lst))))]"

text \<open>
  \<^verbatim>\<open>Start\<close>'s routes: the multiplexer redirects a path that is not clean to the clean one, then looks for
  the exact pattern or the longest prefix pattern.
\<close>

definition clean_path :: "string \<Rightarrow> bool" where
  "clean_path p =
     (case Split p (CHR ''/'') of
        first # segs \<Rightarrow> first = [] \<and> segs \<noteq> [] \<and> list_all (\<lambda>seg. seg \<notin> {[], ''.'', ''..''}) (butlast segs) \<and> last segs \<notin> {''.'', ''..''}
      | [] \<Rightarrow> False)"

definition routes :: "api_world \<Rightarrow> handler" where
  "routes aw rq s =
     (if rq_method rq \<noteq> ''CONNECT'' \<and> \<not> clean_path (rq_path rq) then (Redirect, s)
      else if rq_path rq = ''/version'' then version rq s
      else if rq_path rq = ''/proxies'' then proxies rq s
      else if HasPrefix (rq_path rq) ''/proxies/'' then proxy aw rq s
      else if rq_path rq = ''/connections'' then connectionsEndpoint aw rq s
      else if rq_path rq = ''/connection-log'' then connectionLog aw rq s
      else if rq_path rq = ''/traffic'' then webSocketHandler rq s
      else (Reply 404 None, s))"

definition authorized :: "string \<Rightarrow> request \<Rightarrow> bool" where
  "authorized secret rq =
     (let expectedHeader = ''Bearer '' @ secret; providedHeader = rq_header rq ''Authorization''; providedToken = rq_query rq ''token'' in
      length providedHeader = length expectedHeader \<and> providedHeader = expectedHeader \<or>
      length providedToken = length secret \<and> providedToken = secret)"

definition authorize :: "string \<Rightarrow> handler \<Rightarrow> handler" where
  "authorize secret nxt rq s = (if \<not> authorized secret rq then (writeError 401 ''unauthorized'', s) else nxt rq s)"

definition api_handler :: "APIConfig \<Rightarrow> api_world \<Rightarrow> handler" where
  "api_handler cfg aw = (if api_Secret cfg \<noteq> [] then authorize (api_Secret cfg) (routes aw) else routes aw)"

section \<open>Lemmas\<close>

text \<open>What a handler may do: nothing but answer, or one of the three operations that change state.\<close>

definition selects :: "request \<Rightarrow> api_state \<Rightarrow> response \<Rightarrow> api_state \<Rightarrow> bool" where
  "selects rq s resp s' \<longleftrightarrow> rq_method rq = ''PUT'' \<and>
     (\<exists>name b member. map_of (rt_outbounds (ap_router s)) name = Some (GSelect b) \<and> body_name (rq_body rq) = Some member \<and>
        map_of (members b) member \<noteq> None \<and> resp = writeJSON (groupView (b\<lparr>current := member\<rparr>)) \<and>
        s' = s\<lparr>ap_router := Register name (GSelect (b\<lparr>current := member\<rparr>)) (ap_router s), ap_dns := InvalidateDNSConnections (ap_dns s)\<rparr>)"

definition deletes :: "request \<Rightarrow> api_state \<Rightarrow> response \<Rightarrow> api_state \<Rightarrow> bool" where
  "deletes rq s resp s' \<longleftrightarrow> rq_method rq = ''DELETE'' \<and> resp = Reply 204 None \<and>
     (s' = s\<lparr>ap_dns := InvalidateDNSConnections (ap_dns s), ap_conns := CloseAll (ap_conns s)\<rparr> \<or> s' = s\<lparr>ap_conns := ClearHistory (ap_conns s)\<rparr>)"

definition api_effect :: "request \<Rightarrow> api_state \<Rightarrow> response \<times> api_state \<Rightarrow> bool" where
  "api_effect rq s x \<longleftrightarrow> snd x = s \<or> selects rq s (fst x) (snd x) \<or> deletes rq s (fst x) (snd x)"

lemma pure_effect [simp]: "api_effect rq s (resp, s)"
  by (simp add: api_effect_def)

lemma version_effect: "api_effect rq s (version rq s)"
  by (simp add: version_def)

lemma proxies_effect: "api_effect rq s (proxies rq s)"
  by (simp add: proxies_def)

lemma proxyDelay_effect: "api_effect rq s (proxyDelay aw name rq s)"
  by (auto simp: proxyDelay_def Let_def split: option.splits sum.splits)

lemma proxy_select_effect:
  assumes "map_of (rt_outbounds (ap_router s)) name = Some ob" "rq_method rq = ''PUT''"
  shows "api_effect rq s (proxy_select name ob rq s)"
proof (cases "\<exists>b member. ob = GSelect b \<and> body_name (rq_body rq) = Some member \<and> member \<noteq> [] \<and> map_of (members b) member \<noteq> None")
  case True
  then obtain b member where b: "ob = GSelect b" "body_name (rq_body rq) = Some member" "member \<noteq> []" "map_of (members b) member \<noteq> None" by blast
  then have "proxy_select name ob rq s = (writeJSON (groupView (b\<lparr>current := member\<rparr>)),
      s\<lparr>ap_router := Register name (GSelect (b\<lparr>current := member\<rparr>)) (ap_router s), ap_dns := InvalidateDNSConnections (ap_dns s)\<rparr>)"
    by (simp add: proxy_select_def SetCurrent_def outbound_view_def Register_def)
  moreover have "selects rq s (fst \<dots>) (snd \<dots>)" unfolding selects_def fst_conv snd_conv using assms b by blast
  ultimately show ?thesis by (simp add: api_effect_def)
next
  case False
  then have "snd (proxy_select name ob rq s) = s"
    by (cases ob) (auto simp: proxy_select_def SetCurrent_def split: option.split)
  then show ?thesis by (simp add: api_effect_def)
qed

lemma proxy_effect: "api_effect rq s (proxy aw rq s)"
  by (auto simp: proxy_def Let_def proxyDelay_effect proxy_select_effect split: prod.splits option.splits)

lemma connections_effect: "api_effect rq s (connectionsEndpoint aw rq s)"
  by (auto simp: connectionsEndpoint_def connections_def webSocketHandler_def api_effect_def deletes_def)

lemma connectionLog_effect: "api_effect rq s (connectionLog aw rq s)"
proof (cases "rq_method rq = ''DELETE''")
  case True
  then show ?thesis by (simp add: connectionLog_def api_effect_def deletes_def)
next
  case False
  then have "\<exists>resp. connectionLog aw rq s = (resp, s)"
    unfolding connectionLog_def Let_def if_not_P [OF False] by (simp split: option.split prod.split)
  then show ?thesis by auto
qed

lemmas handler_effects = version_effect proxies_effect proxy_effect connections_effect connectionLog_effect

lemma routes_effect: "api_effect rq s (routes aw rq s)"
  by (simp add: routes_def handler_effects webSocketHandler_def)

lemma api_handler_effect: "api_effect rq s (api_handler cfg aw rq s)"
  by (simp add: api_handler_def authorize_def routes_effect)

text \<open>An API request is at most one selection, so it keeps what the start-up established.\<close>

lemma api_handler_router: "ap_router (snd (api_handler cfg aw rq s)) = ap_router s \<or> group_step (ap_router s) (ap_router (snd (api_handler cfg aw rq s)))"
proof -
  have "group_step (ap_router s) (ap_router s')" if "selects rq s resp s'" for resp s'
  proof -
    from that obtain name b member where m: "map_of (rt_outbounds (ap_router s)) name = Some (GSelect b)" "map_of (members b) member \<noteq> None"
      "ap_router s' = Register name (GSelect (b\<lparr>current := member\<rparr>)) (ap_router s)" unfolding selects_def by auto
    with group_step.select [OF m(1), of member] show ?thesis by (simp add: SetCurrent_def)
  qed
  moreover have "ap_router s' = ap_router s" if "deletes rq s resp s'" for resp s' using that by (auto simp: deletes_def)
  moreover have "snd x = s \<or> selects rq s (fst x) (snd x) \<or> deletes rq s (fst x) (snd x)" if "x = api_handler cfg aw rq s" for x
    using api_handler_effect [of rq s cfg aw] that by (simp only: api_effect_def)
  ultimately show ?thesis by metis
qed

text \<open>A selection takes effect: the group resolves to whatever the chosen member resolves to.\<close>

lemma resolve_loop_seen:
  assumes "ranked rk r"
  shows "\<forall>t\<in>set seen. rk tag < rk t \<Longrightarrow> resolve_loop (rt_outbounds r) seen tag = resolve_loop (rt_outbounds r) [] tag"
proof (induction "rk tag" arbitrary: seen tag rule: less_induct)
  case less
  show ?case
  proof (cases "\<exists>ob cur. map_of (rt_outbounds r) tag = Some ob \<and> group_current ob = Some cur")
    case True
    then obtain ob cur where c: "map_of (rt_outbounds r) tag = Some ob" "group_current ob = Some cur" by blast
    then have rk: "rk cur < rk tag" using assms by (auto simp: ranked_def current_edge_def)
    have "tag \<notin> set seen" using less.prems by auto
    moreover have "resolve_loop (rt_outbounds r) (tag # seen) cur = resolve_loop (rt_outbounds r) [tag] cur"
      using less.hyps [OF rk, of "tag # seen"] less.hyps [OF rk, of "[tag]"] less.prems rk by fastforce
    ultimately show ?thesis using c resolve_loop.simps [of "rt_outbounds r" seen tag] resolve_loop.simps [of "rt_outbounds r" "[]" tag] by simp
  next
    case False
    then show ?thesis using resolve_loop.simps [of "rt_outbounds r" seen tag] resolve_loop.simps [of "rt_outbounds r" "[]" tag]
      by (auto split: option.split)
  qed
qed

lemma resolve_current:
  assumes "ranked rk r" "map_of (rt_outbounds r) tag = Some ob" "group_current ob = Some cur"
  shows "resolve r tag = resolve r cur"
proof -
  have "rk cur < rk tag" using assms by (auto simp: ranked_def current_edge_def)
  with resolve_loop_seen [OF assms(1), of "[tag]" cur] assms(2,3) show ?thesis
    unfolding resolve_def by (subst resolve_loop.simps) simp
qed

lemma IndexByte_absent: "CHR ''/'' \<notin> set s \<Longrightarrow> proxy_name s = (s, None)"
  unfolding proxy_name_def by (subst IndexByte_None [THEN iffD2]) simp_all

lemma api_select:
  assumes "authorized (api_Secret cfg) rq \<or> api_Secret cfg = []" "rq_method rq = ''PUT''" "rq_path rq = ''/proxies/'' @ name"
    "CHR ''/'' \<notin> set name" "name \<notin> {[], ''.'', ''..''}" "rq_body rq = Some (JObj [(''name'', JStr member)])" "member \<noteq> []"
    "map_of (rt_outbounds (ap_router s)) name = Some (GSelect b)" "map_of (members b) member \<noteq> None"
  shows "api_handler cfg aw rq s = (writeJSON (groupView (b\<lparr>current := member\<rparr>)),
    s\<lparr>ap_router := Register name (GSelect (b\<lparr>current := member\<rparr>)) (ap_router s), ap_dns := InvalidateDNSConnections (ap_dns s)\<rparr>)"
proof -
  have "Split (rq_path rq) (CHR ''/'') = [[], ''proxies'', name]"
    using Split_append_sep [of "CHR ''/''" "[]" "''proxies/'' @ name"] Split_append_sep [of "CHR ''/''" "''proxies''" name] assms(3,4)
    by (simp add: Split_no_sep)
  then have clean: "clean_path (rq_path rq)" using assms(5) by (simp add: clean_path_def)
  have pfx: "HasPrefix (rq_path rq) ''/proxies/''" "TrimPrefix (rq_path rq) ''/proxies/'' = name"
    using assms(3) by (simp_all add: HasPrefix_iff TrimPrefix_def)
  have body: "body_name (rq_body rq) = Some member" using assms(6) by (simp add: body_name_def)
  have "proxy aw rq s = proxy_select name (GSelect b) rq s"
    using assms(2,5,8) by (simp add: proxy_def Let_def pfx(2) IndexByte_absent [OF assms(4)])
  also have "\<dots> = (writeJSON (groupView (b\<lparr>current := member\<rparr>)),
      s\<lparr>ap_router := Register name (GSelect (b\<lparr>current := member\<rparr>)) (ap_router s), ap_dns := InvalidateDNSConnections (ap_dns s)\<rparr>)"
    using assms(7,9) by (simp add: proxy_select_def body SetCurrent_def outbound_view_def Register_def)
  finally have "proxy aw rq s = (writeJSON (groupView (b\<lparr>current := member\<rparr>)),
      s\<lparr>ap_router := Register name (GSelect (b\<lparr>current := member\<rparr>)) (ap_router s), ap_dns := InvalidateDNSConnections (ap_dns s)\<rparr>)" .
  then have "routes aw rq s = (writeJSON (groupView (b\<lparr>current := member\<rparr>)),
      s\<lparr>ap_router := Register name (GSelect (b\<lparr>current := member\<rparr>)) (ap_router s), ap_dns := InvalidateDNSConnections (ap_dns s)\<rparr>)"
    using clean pfx(1) assms(3) by (simp add: routes_def)
  then show ?thesis using assms(1) by (auto simp: api_handler_def authorize_def)
qed

section \<open>Properties\<close>

text \<open>
  C13: requests to the control API cannot do more than they are meant to. With a secret configured, a
  request that carries neither the bearer header nor the token is answered 401 and changes nothing; an
  error response changes nothing; the routing state changes only by a PUT that selects an existing
  member of a selector, the connection registry only by a DELETE, and the traffic totals never.
\<close>

theorem api_requests_safe:
  assumes "api_handler cfg aw rq s = (resp, s')"
  shows "(api_Secret cfg \<noteq> [] \<and> rq_header rq ''Authorization'' \<noteq> ''Bearer '' @ api_Secret cfg \<and> rq_query rq ''token'' \<noteq> api_Secret cfg \<longrightarrow>
      resp = writeError 401 ''unauthorized'' \<and> s' = s) \<and>
    (\<forall>n body. resp = Reply n body \<and> 400 \<le> n \<longrightarrow> s' = s) \<and>
    (ap_router s' \<noteq> ap_router s \<longrightarrow> selects rq s resp s') \<and> (ap_conns s' \<noteq> ap_conns s \<longrightarrow> deletes rq s resp s') \<and>
    ap_stats s' = ap_stats s"
proof -
  have e: "s' = s \<or> selects rq s resp s' \<or> deletes rq s resp s'" using api_handler_effect [of rq s cfg aw] assms by (simp add: api_effect_def)
  have "resp = writeError 401 ''unauthorized'' \<and> s' = s"
    if "api_Secret cfg \<noteq> []" "rq_header rq ''Authorization'' \<noteq> ''Bearer '' @ api_Secret cfg" "rq_query rq ''token'' \<noteq> api_Secret cfg"
    using assms that by (auto simp: api_handler_def authorize_def authorized_def)
  moreover have "s' = s" if "resp = Reply n body" "400 \<le> n" for n body
    using e that by (auto simp: selects_def deletes_def writeJSON_def)
  moreover have "ap_stats s' = ap_stats s" "ap_router s' \<noteq> ap_router s \<Longrightarrow> selects rq s resp s'" "ap_conns s' \<noteq> ap_conns s \<Longrightarrow> deletes rq s resp s'"
    using e by (auto simp: selects_def deletes_def)
  ultimately show ?thesis by blast
qed

definition api_world_example :: api_world where
  "api_world_example = \<lparr>aw_time = (\<lambda>_. []), aw_parse = (\<lambda>_. None), aw_probe = (\<lambda>_ _ _. Inl [])\<rparr>"

theorem api_requests_safe_witness:
  "snd (api_handler \<lparr>api_Listen = [], api_Secret = ''k''\<rparr> api_world_example \<lparr>rq_method = ''DELETE'', rq_path = ''/connections'', rq_query = (\<lambda>_. []), rq_header = (\<lambda>_. []),
      rq_body = None, rq_host = [], rq_origin = None\<rparr> \<lparr>ap_router = New ''direct'', ap_dns = new_dns_state, ap_stats = Traffic.make 0 0, ap_conns = NewConnections\<rparr>)
    = \<lparr>ap_router = New ''direct'', ap_dns = new_dns_state, ap_stats = Traffic.make 0 0, ap_conns = NewConnections\<rparr>"
  using api_requests_safe [OF prod.collapse [symmetric], of "\<lparr>api_Listen = [], api_Secret = ''k''\<rparr>"] by simp

end
