(* ===== verification/Reality.thy ===== *)
theory Reality
  imports Proto_Address Model
begin

text \<open>
  The TLS entry point of the stream protocols (\<^verbatim>\<open>protocol/tls.go\<close>): which kind of handshake is made,
  the fingerprints and keys it needs, and the REALITY handshake, in which the client hides an
  authenticated message in the session id of its ClientHello and accepts only a server that knows the
  shared key. \<^verbatim>\<open>crypto\<close>, uTLS and the network are parameters: the key agreement, the key derivation,
  AES-GCM, HMAC, the ClientHello that was built and what the peer presents.
\<close>

section \<open>Model: options\<close>

definition isPlainTLSFingerprint :: "string \<Rightarrow> bool" where
  "isPlainTLSFingerprint s = (ToLower (TrimSpace s) \<in> {[], ''none'', ''golang'', ''default'', ''disabled''})"

text \<open>The fingerprints by name; the value is the name of the uTLS constant.\<close>

definition fingerprints :: "(string \<times> string) list" where
  "fingerprints =
     [(''chrome'', ''HelloChrome_Auto''), (''chrome_auto'', ''HelloChrome_Auto''), (''auto'', ''HelloChrome_Auto''),
      (''firefox'', ''HelloFirefox_Auto''), (''firefox_auto'', ''HelloFirefox_Auto''),
      (''safari'', ''HelloSafari_Auto''), (''safari_auto'', ''HelloSafari_Auto''),
      (''ios'', ''HelloIOS_Auto''), (''ios_auto'', ''HelloIOS_Auto''),
      (''edge'', ''HelloEdge_Auto''), (''edge_auto'', ''HelloEdge_Auto''),
      (''android'', ''HelloAndroid_11_OkHttp''), (''android_11_okhttp'', ''HelloAndroid_11_OkHttp''), (''okhttp'', ''HelloAndroid_11_OkHttp''),
      (''randomized'', ''HelloRandomized''), (''random'', ''HelloRandomized''),
      (''chrome_58'', ''HelloChrome_58''), (''chrome_62'', ''HelloChrome_62''), (''chrome_70'', ''HelloChrome_70''),
      (''chrome_72'', ''HelloChrome_72''), (''chrome_83'', ''HelloChrome_83''), (''chrome_87'', ''HelloChrome_87''),
      (''chrome_96'', ''HelloChrome_96''), (''chrome_100'', ''HelloChrome_100''), (''chrome_102'', ''HelloChrome_102''),
      (''chrome_120'', ''HelloChrome_120''), (''chrome_131'', ''HelloChrome_131''), (''chrome_133'', ''HelloChrome_133''),
      (''firefox_55'', ''HelloFirefox_55''), (''firefox_56'', ''HelloFirefox_56''), (''firefox_63'', ''HelloFirefox_63''),
      (''firefox_65'', ''HelloFirefox_65''), (''firefox_99'', ''HelloFirefox_99''), (''firefox_102'', ''HelloFirefox_102''),
      (''firefox_105'', ''HelloFirefox_105''), (''firefox_120'', ''HelloFirefox_120''),
      (''edge_85'', ''HelloEdge_85''), (''edge_106'', ''HelloEdge_106''),
      (''safari_16_0'', ''HelloSafari_16_0''), (''ios_14'', ''HelloIOS_14'')]"

definition clientHelloIDFromString :: "string \<Rightarrow> (conn_error, string) go" where
  "clientHelloIDFromString s =
     (case map_of fingerprints (ToLower (map (\<lambda>c. if c = CHR ''-'' then CHR ''_'' else c) (TrimSpace s))) of
        Some i \<Rightarrow> Ret i
      | None \<Rightarrow> Err (Refused ''unsupported uTLS fingerprint''))"

datatype tls_path = RawTCP | RealityTLS | UTLS | StandardTLS

definition dialTLSWithNextProtos :: "TLSOptions option \<Rightarrow> tls_path" where
  "dialTLSWithNextProtos opts =
     (case opts of
        None \<Rightarrow> RawTCP
      | Some t \<Rightarrow>
          (if \<not> t_Enabled t then RawTCP
           else if (case t_Reality t of Some re \<Rightarrow> re_Enabled re | None \<Rightarrow> False) then RealityTLS
           else if t_UTLSFingerprint t \<noteq> [] \<and> \<not> isPlainTLSFingerprint (t_UTLSFingerprint t) then UTLS
           else StandardTLS))"

text \<open>The server name and verification a plain or fingerprinted TLS handshake uses; \<open>connect\<close> is the TCP dial.\<close>

record tls_config =
  tc_ServerName :: string
  tc_Insecure :: bool
  tc_NextProtos :: "string list"
  tc_HelloID :: "string option"

definition tls_config_of :: "TLSOptions \<Rightarrow> string \<Rightarrow> string list \<Rightarrow> string option \<Rightarrow> tls_config" where
  "tls_config_of t host protos hello =
     \<lparr>tc_ServerName = (if t_ServerName t = [] then host else t_ServerName t), tc_Insecure = t_Insecure t, tc_NextProtos = protos, tc_HelloID = hello\<rparr>"

definition dialStandardTLS :: "bool \<Rightarrow> (tls_config \<Rightarrow> bool) \<Rightarrow> TLSOptions \<Rightarrow> string \<Rightarrow> string list \<Rightarrow> (conn_error, tls_config) go" where
  "dialStandardTLS connected handshake t host protos =
     (if \<not> connected then Err (Refused ''connect'')
      else let cfg = tls_config_of t host protos None in
        if handshake cfg then Ret cfg else Err (Refused ''handshake''))"

definition dialUTLS :: "bool \<Rightarrow> (tls_config \<Rightarrow> bool) \<Rightarrow> TLSOptions \<Rightarrow> string \<Rightarrow> string list \<Rightarrow> (conn_error, tls_config) go" where
  "dialUTLS connected handshake t host protos =
     (if \<not> connected then Err (Refused ''connect'')
      else gbind (clientHelloIDFromString (t_UTLSFingerprint t)) (\<lambda>hello.
        let cfg = tls_config_of t host protos (Some hello) in
        if handshake cfg then Ret cfg else Err (Refused ''handshake'')))"

section \<open>Model: keys\<close>

text \<open>
  \<^verbatim>\<open>encoding/base64\<close>: the standard and the URL alphabet, with and without padding. Line ends are skipped,
  the unused bits of the last digit are not checked.
\<close>

definition b64_digit :: "bool \<Rightarrow> char \<Rightarrow> nat option" where
  "b64_digit url c =
     (let n = (of_char c :: nat) in
      if 65 \<le> n \<and> n \<le> 90 then Some (n - 65)
      else if 97 \<le> n \<and> n \<le> 122 then Some (n - 71)
      else if 48 \<le> n \<and> n \<le> 57 then Some (n + 4)
      else if c = (if url then CHR ''-'' else CHR ''+'') then Some 62
      else if c = (if url then CHR ''_'' else CHR ''/'') then Some 63
      else None)"

fun b64_bytes :: "nat list \<Rightarrow> bytes option" where
  "b64_bytes [] = Some []"
| "b64_bytes [a] = None"
| "b64_bytes [a, b] = Some [word_of_nat (a * 4 + b div 16)]"
| "b64_bytes [a, b, c] = Some [word_of_nat (a * 4 + b div 16), word_of_nat (b * 16 + c div 4)]"
| "b64_bytes (a # b # c # d # ds) =
     map_option (\<lambda>bs. [word_of_nat (a * 4 + b div 16), word_of_nat (b * 16 + c div 4), word_of_nat (c * 64 + d)] @ bs) (b64_bytes ds)"

definition b64_decode :: "bool \<Rightarrow> bool \<Rightarrow> string \<Rightarrow> bytes option" where
  "b64_decode url padded s =
     (let t = filter (\<lambda>c. c \<noteq> CHR 0x0A \<and> c \<noteq> CHR 0x0D) s;
          body = (if HasSuffix t ''=='' then take (length t - 2) t else if HasSuffix t ''='' then take (length t - 1) t else t) in
      if padded \<and> length t mod 4 \<noteq> 0 then None
      else case those (map (b64_digit url) (if padded then body else t)) of
        Some ds \<Rightarrow> b64_bytes ds
      | None \<Rightarrow> None)"

definition decodeBase64Flexible :: "string \<Rightarrow> (conn_error, bytes) go" where
  "decodeBase64Flexible s0 =
     (let s = TrimSpace s0 in
      case List.map_filter (\<lambda>(url, padded). b64_decode url padded s) [(True, False), (False, False), (True, True), (False, True)] of
        b # _ \<Rightarrow> Ret b
      | [] \<Rightarrow> Err (Refused ''invalid base64''))"

definition parseRealityPublicKey :: "(bytes \<Rightarrow> bool) \<Rightarrow> string \<Rightarrow> (conn_error, bytes) go" where
  "parseRealityPublicKey validKey s =
     gbind (decodeBase64Flexible s) (\<lambda>raw.
     if length raw \<noteq> 32 then Err (Refused ''public_key must decode to 32 bytes'')
     else if \<not> validKey raw then Err (Refused ''invalid X25519 public_key'')
     else Ret raw)"

definition parseRealityShortID :: "string \<Rightarrow> (conn_error, bytes) go" where
  "parseRealityShortID s0 =
     (let s = TrimSpace s0 in
      if s = [] then Ret (replicate 8 0)
      else case hex_decode s of
        None \<Rightarrow> Err (Refused ''decode short_id'')
      | Some b \<Rightarrow> if 8 < length b then Err (Refused ''short_id must be at most 8 bytes'') else Ret (b @ replicate (8 - length b) 0))"

section \<open>Model: the REALITY handshake\<close>

record client_hello =
  h_random :: bytes
  h_session :: bytes
  h_raw :: bytes
  h_ecdhe :: "(bytes \<Rightarrow> bytes option) option"
  h_mlkem :: "(bytes \<Rightarrow> bytes option) option"

record crypto =
  cr_hkdf :: "bytes \<Rightarrow> bytes \<Rightarrow> bytes"
  cr_seal :: "bytes \<Rightarrow> bytes \<Rightarrow> bytes \<Rightarrow> bytes \<Rightarrow> bytes"
  cr_hmac :: "bytes \<Rightarrow> bytes \<Rightarrow> bytes"

abbreviation realitySessionIDOffset :: nat where "realitySessionIDOffset \<equiv> 39"

definition set_session :: "bytes \<Rightarrow> bytes \<Rightarrow> bytes" where
  "set_session raw sid = take realitySessionIDOffset raw @ sid @ drop (realitySessionIDOffset + 32) raw"

definition reality_plain :: "nat \<Rightarrow> bytes \<Rightarrow> bytes" where
  "reality_plain now shortID = [1, 6, 8, 0] @ put32 now @ shortID"

definition reality_hello :: "crypto \<Rightarrow> nat \<Rightarrow> bytes \<Rightarrow> bytes \<Rightarrow> client_hello \<Rightarrow> (conn_error, client_hello \<times> bytes) go" where
  "reality_hello cr now publicKey shortID hello =
     (if length (h_random hello) \<noteq> 32 then Err (Refused ''invalid client hello random'')
      else if length (h_session hello) \<noteq> 32 then Err (Refused ''fingerprint session id must be 32 bytes'')
      else
        (case (case h_ecdhe hello of Some k \<Rightarrow> Some k | None \<Rightarrow> h_mlkem hello) of
           None \<Rightarrow> Err (Refused ''missing X25519 ECDHE key'')
         | Some ecdh \<Rightarrow>
             (case ecdh publicKey of
                None \<Rightarrow> Err (Refused ''derive shared secret'')
              | Some shared \<Rightarrow>
                  (let authKey = cr_hkdf cr shared (take 20 (h_random hello)) in
                   if length (h_raw hello) < realitySessionIDOffset + 32 then Err (Refused ''client hello is too short'')
                   else
                     (let originalHello = set_session (h_raw hello) (replicate 32 0);
                          cipherSessionID = cr_seal cr authKey (drop 20 (h_random hello)) (reality_plain now shortID) originalHello in
                      if length cipherSessionID \<noteq> 32 then Err (Refused ''unexpected sealed session-id length'')
                      else Ret (hello\<lparr>h_session := cipherSessionID, h_raw := set_session originalHello cipherSessionID\<rparr>, authKey))))))"

record server_cert =
  ct_ed25519 :: "bytes option"
  ct_signature :: bytes

text \<open>\<^verbatim>\<open>VerifyPeerCertificate\<close>; a certificate that does not parse is \<open>None\<close>.\<close>

definition reality_verify :: "crypto \<Rightarrow> bytes option \<Rightarrow> server_cert option list \<Rightarrow> (conn_error, unit) go" where
  "reality_verify cr authKey rawCerts =
     (case rawCerts of
        [] \<Rightarrow> Err (Refused ''no server certificate'')
      | first # _ \<Rightarrow>
          (case authKey of
             None \<Rightarrow> Err (Refused ''auth key is not initialized'')
           | Some k \<Rightarrow>
               (case first of
                  None \<Rightarrow> Err (Refused ''parse server certificate'')
                | Some cert \<Rightarrow>
                    (case ct_ed25519 cert of
                       None \<Rightarrow> Err (Refused ''server certificate is not ed25519'')
                     | Some pub \<Rightarrow> if cr_hmac cr k pub = ct_signature cert then Ret () else Err (Refused ''server certificate did not authenticate'')))))"

text \<open>
  \<^verbatim>\<open>HandshakeContext\<close> of the third-party client: it fails by itself, or completes, with or without
  having called back with the certificates of the peer; an error of the callback fails it.
\<close>

datatype handshake_result = HsFailed | HsNoCallback | HsCerts "server_cert option list"

definition dialRealityTLS ::
  "crypto \<Rightarrow> (bytes \<Rightarrow> bool) \<Rightarrow> nat \<Rightarrow> bool \<Rightarrow> client_hello option \<Rightarrow> (client_hello \<Rightarrow> handshake_result) \<Rightarrow> TLSOptions \<Rightarrow> (conn_error, client_hello) go" where
  "dialRealityTLS cr validKey now connected built handshake t =
     (case t_Reality t of
        None \<Rightarrow> Err (Refused ''reality options are nil'')
      | Some re \<Rightarrow>
          (if t_ServerName t = [] then Err (Refused ''reality requires server_name'')
           else if TrimSpace (re_PublicKey re) = [] then Err (Refused ''reality requires public_key'')
           else
             gbind (parseRealityPublicKey validKey (re_PublicKey re)) (\<lambda>publicKey.
             gbind (parseRealityShortID (re_ShortID re)) (\<lambda>shortID.
             gbind (clientHelloIDFromString (t_UTLSFingerprint t)) (\<lambda>helloID.
             if helloID = ''HelloGolang'' then Err (Refused ''reality requires a non-Golang uTLS fingerprint'')
             else if \<not> connected then Err (Refused ''connect'')
             else
               (case built of
                  None \<Rightarrow> Err (Refused ''build client hello'')
                | Some hello \<Rightarrow>
                    gbind (reality_hello cr now publicKey shortID hello) (\<lambda>(hello', authKey).
                      case handshake hello' of
                        HsFailed \<Rightarrow> Err (Refused ''handshake'')
                      | HsNoCallback \<Rightarrow> Err (Refused ''server was not authenticated'')
                      | HsCerts certs \<Rightarrow> gtry (reality_verify cr (Some authKey) certs) (\<lambda>e. Err (Refused ''handshake'')) (\<lambda>_. Ret hello')))))))) "

section \<open>Lemmas\<close>

lemma hex_char_digit [simp]: "n < 16 \<Longrightarrow> hex_digit (hex_char n) = Some n"
  by (auto simp: hex_digit_def hex_char_def Let_def)

lemma hex_decode_encode [simp]: "hex_decode (hex_encode bs) = Some bs"
proof (induction bs)
  case (Cons b bs)
  have lt: "unat b div 16 < 16" "unat b mod 16 < 16" using unat_u8_less [of b] by (simp_all add: less_mult_imp_div_less)
  have "hex_encode (b # bs) = hex_char (unat b div 16) # hex_char (unat b mod 16) # hex_encode bs" by (simp add: hex_encode_def)
  moreover have "unat b div 16 * 16 + unat b mod 16 = unat b" by simp
  ultimately show ?case using Cons lt by simp
qed (simp add: hex_encode_def)

lemma hex_char_token: "n < 16 \<Longrightarrow> \<not> is_space (hex_char n)"
  by (auto simp: is_space_def hex_char_def Let_def)

lemma hex_encode_token: "list_all (\<lambda>c. \<not> is_space c) (hex_encode bs)"
proof -
  have "unat b div 16 < 16" "unat b mod 16 < 16" for b :: u8 using unat_u8_less [of b] by (simp_all add: less_mult_imp_div_less)
  then show ?thesis by (auto simp: hex_encode_def list_all_iff hex_char_token)
qed

lemma TrimSpace_token: "list_all (\<lambda>c. \<not> is_space c) s \<Longrightarrow> TrimSpace s = s"
  unfolding TrimSpace_def by (rule trim_by_id) (cases "s = []"; auto simp: list_all_iff)

lemma parseRealityShortID_hex: "length b \<le> 8 \<Longrightarrow> parseRealityShortID (hex_encode b) = Ret (b @ replicate (8 - length b) 0)"
  by (cases b) (auto simp: parseRealityShortID_def TrimSpace_token [OF hex_encode_token] Let_def, simp_all add: hex_encode_def)

lemma parseRealityShortID_len: "parseRealityShortID s = Ret b \<Longrightarrow> length b = 8"
  by (auto simp: parseRealityShortID_def Let_def split: option.splits if_splits)

lemma set_session_len: "length sid = 32 \<Longrightarrow> 71 \<le> length raw \<Longrightarrow> length (set_session raw sid) = length raw"
  by (simp add: set_session_def)

lemma set_session_twice: "length a = 32 \<Longrightarrow> length b = 32 \<Longrightarrow> 71 \<le> length raw \<Longrightarrow> set_session (set_session raw a) b = set_session raw b"
  by (simp add: set_session_def)

lemma session_of: "length sid = 32 \<Longrightarrow> 71 \<le> length raw \<Longrightarrow> take 32 (drop 39 (set_session raw sid)) = sid"
  by (simp add: set_session_def)

text \<open>
  What a REALITY server does: with its own copy of the key it opens the session id of the ClientHello,
  authenticated with the ClientHello whose session id is cleared.
\<close>

definition server_open :: "(bytes \<Rightarrow> bytes \<Rightarrow> bytes \<Rightarrow> bytes \<Rightarrow> bytes option) \<Rightarrow> bytes \<Rightarrow> client_hello \<Rightarrow> bytes option" where
  "server_open opn key hello = opn key (drop 20 (h_random hello)) (take 32 (drop 39 (h_raw hello))) (set_session (h_raw hello) (replicate 32 0))"

definition hello_ok :: "client_hello \<Rightarrow> bool" where
  "hello_ok hello \<longleftrightarrow> length (h_random hello) = 32 \<and> length (h_session hello) = 32 \<and> 71 \<le> length (h_raw hello)"

lemma reality_hello_sealed:
  assumes "\<And>k n p ad. opn k n (cr_seal cr k n p ad) ad = Some p" "\<And>k n p ad. length (cr_seal cr k n p ad) = length p + 16"
    and "hello_ok hello" "h_ecdhe hello = Some ecdh" "ecdh publicKey = Some shared" "length shortID = 8"
  shows "\<exists>hello'. reality_hello cr now publicKey shortID hello = Ret (hello', cr_hkdf cr shared (take 20 (h_random hello))) \<and>
    server_open opn (cr_hkdf cr shared (take 20 (h_random hello))) hello' = Some (reality_plain now shortID) \<and>
    h_random hello' = h_random hello \<and> length (h_raw hello') = length (h_raw hello) \<and>
    take 39 (h_raw hello') = take 39 (h_raw hello) \<and> drop 71 (h_raw hello') = drop 71 (h_raw hello) \<and> take 32 (drop 39 (h_raw hello')) = h_session hello'"
proof -
  define key where "key = cr_hkdf cr shared (take 20 (h_random hello))"
  define clear where "clear = set_session (h_raw hello) (replicate 32 0)"
  define sid where "sid = cr_seal cr key (drop 20 (h_random hello)) (reality_plain now shortID) clear"
  let ?h = "hello\<lparr>h_session := sid, h_raw := set_session clear sid\<rparr>"
  have ok: "length (h_random hello) = 32" "length (h_session hello) = 32" "71 \<le> length (h_raw hello)" using assms(3) by (auto simp: hello_ok_def)
  have sid: "length sid = 32" using assms(2,6) by (simp add: sid_def reality_plain_def)
  have raw: "set_session clear sid = set_session (h_raw hello) sid" unfolding clear_def by (rule set_session_twice) (use ok sid in simp_all)
  have "reality_hello cr now publicKey shortID hello = Ret (?h, key)"
    using ok sid assms(4,5) by (simp add: reality_hello_def Let_def key_def [symmetric] clear_def [symmetric] sid_def [symmetric])
  moreover have "server_open opn key ?h = Some (reality_plain now shortID)"
    using assms(1) [of key "drop 20 (h_random hello)" "reality_plain now shortID" clear] session_of [OF sid ok(3)]
      set_session_twice [OF sid _ ok(3), of "replicate 32 0"]
    by (simp add: server_open_def raw sid_def [symmetric] clear_def [symmetric])
  moreover have "length (h_raw ?h) = length (h_raw hello)" "take 39 (h_raw ?h) = take 39 (h_raw hello)" "drop 71 (h_raw ?h) = drop 71 (h_raw hello)"
    "take 32 (drop 39 (h_raw ?h)) = h_session ?h"
    using ok sid session_of [OF sid ok(3)] by (simp_all add: raw) (simp_all add: set_session_def)
  ultimately show ?thesis unfolding key_def by auto
qed

lemma reality_verify_Ret:
  "reality_verify cr (Some k) certs = Ret () \<Longrightarrow> \<exists>cert pub rest. certs = Some cert # rest \<and> ct_ed25519 cert = Some pub \<and> cr_hmac cr k pub = ct_signature cert"
  by (auto simp: reality_verify_def split: list.splits option.splits if_splits)

section \<open>Properties\<close>


definition crypto_example :: crypto where
  "crypto_example = \<lparr>cr_hkdf = (\<lambda>a b. a @ b), cr_seal = (\<lambda>k n p ad. p @ replicate 16 0), cr_hmac = (\<lambda>k m. k @ m)\<rparr>"

definition hello_example :: client_hello where
  "hello_example = \<lparr>h_random = replicate 32 1, h_session = replicate 32 2, h_raw = replicate 80 3, h_ecdhe = Some (\<lambda>p. Some [9]), h_mlkem = None\<rparr>"


end
