(* ===== verification/Tunnel.thy ===== *)
theory Tunnel
  imports Sniff DNS_Stream
begin

text \<open>
  The TUN flow handler (\<^verbatim>\<open>tunnel/handler_windows.go\<close>): the verdict on a packet, DNS packets and streams
  that are answered by the core, TCP streams that are sniffed, routed and relayed, and UDP flows with
  one upstream connection per destination. The TUN stack itself is third-party: a flow is its
  destination, the bytes or packets it delivers and the writes it accepts.
\<close>

section \<open>Model: packets and streams\<close>

datatype verdict = VHijackDNS | VReject | VAccept

definition JudgeFlow :: "rworld \<Rightarrow> router \<Rightarrow> u8 \<Rightarrow> nat \<Rightarrow> string option \<Rightarrow> dns_state \<Rightarrow> verdict \<times> dns_state" where
  "JudgeFlow w r network port destination st =
     (if network = 17 \<and> port = 53 then (VHijackDNS, st)
      else if network = 17 then
        (case RejectPacket w r ''udp'' destination st of (rejected, st') \<Rightarrow> (if rejected then VReject else VAccept, st'))
      else (VAccept, st))"

text \<open>The goroutine of \<^verbatim>\<open>NewDNSPacket\<close>: the packet written back, if any.\<close>

definition NewDNSPacket :: "rworld \<Rightarrow> router \<Rightarrow> bytes \<Rightarrow> Traffic \<Rightarrow> dns_state \<Rightarrow> bytes option \<times> Traffic \<times> dns_state" where
  "NewDNSPacket w r query tr st =
     (case ExchangeDNS w r query st of
        (Ret response, st') \<Rightarrow>
          (Some response, router_AddDownload (word_of_nat (length response)) (router_AddUpload (word_of_nat (length query)) tr), st')
      | (_, st') \<Rightarrow> (None, tr, st'))"

text \<open>What becomes of a TCP stream: the argument of \<^verbatim>\<open>onClose\<close>, and the relay if there was one.\<close>

datatype tun_end =
    DNSServed "stream_error option"
  | DialError route_error
  | Relayed routedConnection bytes ConnectionMetadata
  | TunPanic

definition NewConnectionEx ::
  "(nat \<Rightarrow> rworld) \<Rightarrow> router \<Rightarrow> (bytes \<Rightarrow> unit + nat) \<Rightarrow> stream_end \<Rightarrow> string \<Rightarrow> nat \<Rightarrow> string \<Rightarrow> bytes \<Rightarrow> Traffic \<Rightarrow> dns_state \<Rightarrow>
   tun_end \<times> bytes \<times> Traffic \<times> dns_state" where
  "NewConnectionEx w r wr e source port destination input tr st =
     (if port = 53 then
        (case ServeDNSStream w r wr e 0 input st tr [] of
           (Ret _, st', tr', out) \<Rightarrow> (DNSServed None, out, tr', st')
         | (Err x, st', tr', out) \<Rightarrow> (DNSServed (Some x), out, tr', st')
         | (Panic, st', tr', out) \<Rightarrow> (TunPanic, out, tr', st'))
      else
        (case (if port = 443 then SniffTLSHost input else Ret (input, [])) of
           Ret (conn, domain) \<Rightarrow>
             (case DialWithDomain (w 0) r ''tcp'' destination domain st of
                (Err x, st') \<Rightarrow> (DialError x, [], tr, st')
              | (Panic, st') \<Rightarrow> (TunPanic, [], tr, st')
              | (Ret upstream, st') \<Rightarrow>
                  (case pipe_target_metadata (w 0) r source destination (Some upstream) st' of (md, st'') \<Rightarrow>
                    (Relayed upstream conn md, [], tr, st'')))
         | _ \<Rightarrow> (TunPanic, [], tr, st)))"

section \<open>Model: UDP flows\<close>

text \<open>
  The peers of a flow: a connection is its index in \<open>tf_opened\<close>, \<open>tf_closes\<close> are the connections closed
  so far, \<open>tf_once\<close> that \<^verbatim>\<open>closeAll\<close> has run.
\<close>

record tun_flow =
  tf_peers :: "(string \<times> nat) list"
  tf_opened :: "(string \<times> routedConnection) list"
  tf_closes :: "nat list"
  tf_once :: bool

definition new_flow :: tun_flow where
  "new_flow = \<lparr>tf_peers = [], tf_opened = [], tf_closes = [], tf_once = False\<rparr>"

definition closeAll :: "tun_flow \<Rightarrow> tun_flow" where
  "closeAll f = (if tf_once f then f else f\<lparr>tf_once := True, tf_closes := tf_closes f @ map snd (tf_peers f)\<rparr>)"

text \<open>The second critical section of \<^verbatim>\<open>getPeer\<close>: a connection that lost a race is closed.\<close>

definition insert_peer :: "string \<Rightarrow> routedConnection \<Rightarrow> tun_flow \<Rightarrow> nat \<times> tun_flow" where
  "insert_peer key upstream f =
     (let i = length (tf_opened f); f1 = f\<lparr>tf_opened := tf_opened f @ [(key, upstream)]\<rparr> in
      case map_of (tf_peers f) key of
        Some existing \<Rightarrow> (existing, f1\<lparr>tf_closes := tf_closes f @ [i]\<rparr>)
      | None \<Rightarrow> (i, f1\<lparr>tf_peers := AList.update key i (tf_peers f)\<rparr>))"

definition getPeer :: "rworld \<Rightarrow> router \<Rightarrow> string \<Rightarrow> tun_flow \<Rightarrow> dns_state \<Rightarrow> (route_error, nat) go \<times> tun_flow \<times> dns_state" where
  "getPeer w r key f st =
     (case map_of (tf_peers f) key of
        Some i \<Rightarrow> (Ret i, f, st)
      | None \<Rightarrow>
          (case Dial w r ''udp'' key st of
             (Err e, st') \<Rightarrow> (Err e, f, st')
           | (Panic, st') \<Rightarrow> (Panic, f, st')
           | (Ret upstream, st') \<Rightarrow> (case insert_peer key upstream f of (i, f') \<Rightarrow> (Ret i, f', st'))))"

text \<open>
  One packet of the loop of \<^verbatim>\<open>NewPacketConnectionEx\<close>; \<open>wr\<close> is what the upstream write returns. The flag
  says whether the loop goes on; the counters are the totals and those of the tracked connection.
\<close>

definition tun_packet ::
  "rworld \<Rightarrow> router \<Rightarrow> (nat \<Rightarrow> bytes \<Rightarrow> 64 word \<times> bool) \<Rightarrow> string \<Rightarrow> string \<Rightarrow> bytes \<Rightarrow>
   tun_flow \<times> Traffic \<times> Connections \<times> dns_state \<Rightarrow> bool \<times> tun_flow \<times> Traffic \<times> Connections \<times> dns_state" where
  "tun_packet w r wr tracked destination payload c =
     (case c of (f, tr, cs, st) \<Rightarrow>
       (case getPeer w r destination f st of
          (Ret i, f', st') \<Rightarrow>
            (let (n, ok) = wr i payload in
             if 0 < sint n then (ok, f', router_AddUpload n tr, count_conn tracked n 0 cs, st')
             else (ok, f', tr, cs, st'))
        | (_, f', st') \<Rightarrow> (False, f', tr, cs, st')))"

text \<open>
  One read of the goroutine of a peer: \<open>n\<close> bytes and an error; \<open>wok\<close> says whether the flow accepts the
  packet, \<open>quiet\<close> whether the error is a close or the end of the stream.
\<close>

definition peer_read ::
  "bytes \<Rightarrow> bool \<Rightarrow> bool option \<Rightarrow> string \<Rightarrow> tun_flow \<times> Traffic \<times> Connections \<Rightarrow> bool \<times> bytes option \<times> tun_flow \<times> Traffic \<times> Connections" where
  "peer_read d wok quiet tracked c =
     (case c of (f, tr, cs) \<Rightarrow>
       if 0 < length d \<and> \<not> wok then (False, None, closeAll f, tr, cs)
       else
         (let n = word_of_nat (length d);
              (pkt, tr', cs') = (if 0 < length d then (Some d, router_AddDownload n tr, count_conn tracked 0 n cs) else (None, tr, cs)) in
          case quiet of
            None \<Rightarrow> (True, pkt, f, tr', cs')
          | Some q \<Rightarrow> (False, pkt, if q then f else closeAll f, tr', cs')))"

text \<open>The receive loop inserts peers, and any goroutine may close the flow.\<close>

inductive flow_reach :: "tun_flow \<Rightarrow> bool" where
  init: "flow_reach new_flow"
| peer: "flow_reach f \<Longrightarrow> flow_reach (snd (insert_peer key upstream f))"
| close: "flow_reach f \<Longrightarrow> flow_reach (closeAll f)"

section \<open>Lemmas\<close>

definition flow_ok :: "tun_flow \<Rightarrow> bool" where
  "flow_ok f \<longleftrightarrow> distinct (map fst (tf_peers f)) \<and> distinct (map snd (tf_peers f)) \<and> distinct (tf_closes f) \<and>
     (\<forall>(k, i)\<in>set (tf_peers f). i < length (tf_opened f) \<and> fst (tf_opened f ! i) = k) \<and>
     (\<forall>i<length (tf_opened f). i \<in> snd ` set (tf_peers f) \<or> i \<in> set (tf_closes f)) \<and>
     (\<forall>i\<in>set (tf_closes f). i < length (tf_opened f)) \<and>
     (\<not> tf_once f \<longrightarrow> snd ` set (tf_peers f) \<inter> set (tf_closes f) = {})"

lemma flow_ok_peer: "flow_ok f \<Longrightarrow> flow_ok (snd (insert_peer key upstream f))"
proof (cases "map_of (tf_peers f) key")
  case None
  assume ok: "flow_ok f"
  have "key \<notin> fst ` set (tf_peers f)" using None by (simp add: map_of_eq_None_iff)
  then have upd: "AList.update key (length (tf_opened f)) (tf_peers f) = tf_peers f @ [(key, length (tf_opened f))]" by (rule update_fresh)
  have "length (tf_opened f) \<notin> snd ` set (tf_peers f)" "length (tf_opened f) \<notin> set (tf_closes f)" using ok by (auto simp: flow_ok_def)
  with ok None upd \<open>key \<notin> fst ` set (tf_peers f)\<close> show ?thesis
    by (auto simp: flow_ok_def insert_peer_def Let_def less_Suc_eq nth_append)
next
  case (Some i)
  assume ok: "flow_ok f"
  have "length (tf_opened f) \<notin> snd ` set (tf_peers f)" "length (tf_opened f) \<notin> set (tf_closes f)" using ok by (auto simp: flow_ok_def)
  with ok Some show ?thesis by (auto simp: flow_ok_def insert_peer_def Let_def less_Suc_eq nth_append)
qed

lemma flow_ok_close: "flow_ok f \<Longrightarrow> flow_ok (closeAll f)"
  by (auto simp: flow_ok_def closeAll_def)

lemma flow_reach_ok: "flow_reach f \<Longrightarrow> flow_ok f"
  by (induction rule: flow_reach.induct) (simp_all add: flow_ok_peer flow_ok_close, simp add: flow_ok_def new_flow_def)

text \<open>A peer that is dialled while the flow is being closed stays open.\<close>

lemma late_peer_leaks: "\<exists>f. flow_reach f \<and> tf_once f \<and> 0 < length (tf_opened f) \<and> tf_closes (closeAll f) = []"
proof -
  have "flow_reach (snd (insert_peer ''k'' up (closeAll new_flow)))" for up by (intro flow_reach.intros)
  moreover have "tf_once (snd (insert_peer ''k'' up (closeAll new_flow)))" "0 < length (tf_opened (snd (insert_peer ''k'' up (closeAll new_flow))))"
    "tf_closes (closeAll (snd (insert_peer ''k'' up (closeAll new_flow)))) = []" for up
    by (simp_all add: insert_peer_def closeAll_def new_flow_def Let_def)
  ultimately show ?thesis by blast
qed

text \<open>
  A flow accounts for its connections: one per destination in the table, every other one closed, none
  closed twice, and the first close closes all that are open.
\<close>

lemma flow_accounts:
  assumes "flow_reach f"
  shows "distinct (map fst (tf_peers f))" "distinct (tf_closes f)" "{..<length (tf_opened f)} \<subseteq> snd ` set (tf_peers f) \<union> set (tf_closes f)"
    "\<not> tf_once f \<Longrightarrow> {..<length (tf_opened f)} = set (tf_closes (closeAll f))"
  using flow_reach_ok [OF assms] by (auto simp: flow_ok_def closeAll_def)

text \<open>A stream that starts with a ClientHello record that names \<open>host\<close>.\<close>

definition tls_stream_for :: "string \<Rightarrow> bytes \<Rightarrow> bool" where
  "tls_stream_for host input \<longleftrightarrow>
     (\<exists>hdr session ciphers compressions xs ys v1 v2 hello more.
        length hdr = 34 \<and> length session \<le> 255 \<and> length ciphers < 65536 \<and> length compressions \<le> 255 \<and>
        list_all ext_ok xs \<and> (\<forall>x\<in>set xs. fst x \<noteq> 0 \<or> length (snd x) < 5) \<and> length host + 5 < 65536 \<and> host \<noteq> [] \<and>
        length (enc_exts (xs @ (0, enc_sni host) # ys)) < 65536 \<and>
        hello = enc_handshake (enc_hello hdr session ciphers compressions (xs @ (0, enc_sni host) # ys)) \<and> length hello \<le> 65531 \<and>
        input = [22, v1, v2] @ put16 (length hello) @ hello @ more)"

lemma tls_stream_sniffed: "tls_stream_for host input \<Longrightarrow> SniffTLSHost input = Ret (input, ToLower (TrimSuffix host ''.''))"
  unfolding tls_stream_for_def by (clarify, rule SniffTLSHost_found) (assumption | rule refl)+

section \<open>Properties\<close>


definition tun_router :: router where
  "tun_router = Register ''p'' (Leaf ''vless'') (New ''p'')"

definition hello_stream :: bytes where
  "hello_stream = (let hello = enc_handshake (enc_hello (replicate 34 7) [] [0x13, 1] [0] ([(10, [1])] @ (0, enc_sni ''A.example.'') # [])) in
     [22, 3, 1] @ put16 (length hello) @ hello @ [])"

lemma hello_stream_names: "tls_stream_for ''A.example.'' hello_stream"
proof -
  let ?xs = "[(10, [1])] :: (nat \<times> bytes) list" and ?hello = "enc_handshake (enc_hello (replicate 34 7) [] [0x13, 1] [0] ([(10, [1])] @ (0, enc_sni ''A.example.'') # []))"
  have a: "length (replicate 34 (7 :: u8)) = 34" "length ([] :: bytes) \<le> 255" "length [0x13, 1 :: u8] < 65536" "length [0 :: u8] \<le> 255"
    "list_all ext_ok ?xs" "\<forall>x\<in>set ?xs. fst x \<noteq> 0 \<or> length (snd x) < 5" "length ''A.example.'' + 5 < 65536" "''A.example.'' \<noteq> []"
    by (simp_all add: ext_ok_def)
  have b: "length (enc_exts (?xs @ (0, enc_sni ''A.example.'') # [])) < 65536" "length ?hello \<le> 65531"
    by (simp_all add: enc_exts_def enc_ext_def enc_sni_def enc_handshake_def enc_hello_def)
  show ?thesis unfolding tls_stream_for_def hello_stream_def Let_def using a b by blast
qed


end
