(* ===== verification/Tunnel_Manager.thy ===== *)
theory Tunnel_Manager
  imports Go_Net Model
begin

text \<open>
  The TUN manager (\<^verbatim>\<open>tunnel/manager_windows.go\<close>): the options of the device, the addresses that must
  not be routed into it, start with its failure paths, and close. The TUN library, \<^verbatim>\<open>netsh\<close>, name
  resolution and URL parsing are parameters.
\<close>

section \<open>Model: options\<close>

datatype tun_error = TunError string

record tun_world =
  tw_finder :: bool
  tw_netmonNew :: bool
  tw_netmonStart :: bool
  tw_ifmonNew :: bool
  tw_ifmonStart :: bool
  tw_physical :: "int option"
  tw_create :: "nat \<Rightarrow> string option"
  tw_ranges :: "ip_prefix list option"
  tw_index :: "int option"
  tw_stackNew :: "string \<Rightarrow> bool"
  tw_stackStart :: bool
  tw_deviceStart :: bool
  tw_netsh :: "ip_prefix \<Rightarrow> bool"
  tw_deviceClose :: bool
  tw_lookup :: "string \<Rightarrow> addr list option"
  tw_hostname :: "string \<Rightarrow> string option"

definition New_manager :: "bool \<Rightarrow> DNSOptions \<Rightarrow> (tun_error, unit) go" where
  "New_manager present dns =
     (if \<not> present then Err (TunError ''TUN requires a built router and config'')
      else if dns_Mode dns \<noteq> ''doh'' \<or> TrimSpace (dns_Server dns) = [] then Err (TunError ''TUN requires encrypted DNS'')
      else Ret ())"

text \<open>\<^verbatim>\<open>addHost\<close>; the map of seen addresses is a list without repetitions.\<close>

definition addHost :: "tun_world \<Rightarrow> string \<Rightarrow> addr list \<Rightarrow> (tun_error, addr list) go" where
  "addHost w host0 seen =
     (let host = TrimSpace (TrimChars host0 ''[]'') in
      if host = [] then Err (TunError ''empty upstream host'')
      else case ParseAddr host of
        Some a \<Rightarrow> Ret (List.insert (Unmap a) seen)
      | None \<Rightarrow>
          (case tw_lookup w host of
             None \<Rightarrow> Err (TunError ''resolve upstream'')
           | Some [] \<Rightarrow> Err (TunError ''upstream resolved to no addresses'')
           | Some addrs \<Rightarrow> Ret (fold (\<lambda>a. List.insert (Unmap a)) addrs seen)))"

fun add_nodes :: "tun_world \<Rightarrow> Node list \<Rightarrow> addr list \<Rightarrow> (tun_error, addr list) go" where
  "add_nodes w [] seen = Ret seen"
| "add_nodes w (n # ns) seen = gbind (addHost w (n_Server n) seen) (add_nodes w ns)"

definition Is4 :: "addr \<Rightarrow> bool" where
  "Is4 a = (case a of Addr4 _ \<Rightarrow> True | _ \<Rightarrow> False)"

definition endpointExclusions :: "tun_world \<Rightarrow> Node list \<Rightarrow> DNSOptions \<Rightarrow> (tun_error, ip_prefix list \<times> ip_prefix list) go" where
  "endpointExclusions w nodes dns =
     gbind (add_nodes w nodes []) (\<lambda>seen0.
     gbind (if dns_Detour dns = [] \<or> dns_Detour dns = ''direct'' then
              (case tw_hostname w (dns_Server dns) of Some h \<Rightarrow> addHost w h seen0 | None \<Rightarrow> Ret seen0)
            else Ret seen0) (\<lambda>seen.
       Ret (map (\<lambda>a. (a, 32)) (filter Is4 seen), map (\<lambda>a. (a, 128)) (filter (\<lambda>a. \<not> Is4 a) seen))))"

fun parse_prefixes :: "string \<Rightarrow> string list \<Rightarrow> (tun_error, ip_prefix list \<times> ip_prefix list) go" where
  "parse_prefixes what [] = Ret ([], [])"
| "parse_prefixes what (raw # raws) =
     (case ParsePrefix raw of
        None \<Rightarrow> Err (TunError what)
      | Some p \<Rightarrow> gbind (parse_prefixes what raws) (\<lambda>(v4, v6). Ret (if Is4 (fst p) then (p # v4, v6) else (v4, p # v6))))"

record tun_options =
  to_Name :: string
  to_Inet4 :: "ip_prefix list"
  to_Inet6 :: "ip_prefix list"
  to_MTU :: "32 word"
  to_AutoRoute :: bool
  to_StrictRoute :: bool
  to_Route4 :: "ip_prefix list"
  to_Route6 :: "ip_prefix list"
  to_Exclude4 :: "ip_prefix list"
  to_Exclude6 :: "ip_prefix list"

definition tun_options_of :: "tun_world \<Rightarrow> InboundConfig \<Rightarrow> Node list \<Rightarrow> DNSOptions \<Rightarrow> (tun_error, tun_options) go" where
  "tun_options_of w i nodes dns =
     (let name = TrimSpace (i_TUNInterface i) in
      gbind (parse_prefixes ''invalid TUN address'' (if i_TUNAddress i = [] then [''172.19.0.1/30''] else i_TUNAddress i)) (\<lambda>(inet4, inet6).
      gbind (parse_prefixes ''invalid TUN route'' (i_TUNRouteAddr i)) (\<lambda>(route4, route6).
      gbind (endpointExclusions w nodes dns) (\<lambda>(exclude4, exclude6).
        Ret \<lparr>to_Name = (if name = [] then ''HongdaTun'' else name), to_Inet4 = inet4, to_Inet6 = inet6,
             to_MTU = word_of_int (if i_TUNMTU i \<le> 0 then 1500 else i_TUNMTU i), to_AutoRoute = i_TUNAutoRoute i,
             to_StrictRoute = i_TUNStrictRoute i, to_Route4 = route4, to_Route6 = route6, to_Exclude4 = exclude4, to_Exclude6 = exclude6\<rparr>))))"

section \<open>Model: start and close\<close>

datatype tun_res = NetMonitor | IfMonitor | Device | Stack

text \<open>What the manager does to the system, in order; the routes are deleted by \<^verbatim>\<open>netsh\<close>.\<close>

datatype tun_event = OpenRes tun_res | DeleteAddress ip_prefix | DeleteRoute ip_prefix | CloseRes tun_res

record windowsManager =
  wm_live :: bool
  wm_open :: "tun_res list"
  wm_routeCleanup :: "ip_prefix list"
  wm_interfaceIndex :: int
  wm_direct :: "int option"
  wm_closed :: bool
  wm_log :: "tun_event list"

definition new_manager :: windowsManager where
  "new_manager = \<lparr>wm_live = False, wm_open = [], wm_routeCleanup = [], wm_interfaceIndex = 0, wm_direct = None, wm_closed = False, wm_log = []\<rparr>"

definition has :: "tun_res \<Rightarrow> windowsManager \<Rightarrow> bool" where
  "has x m = (x \<in> set (wm_open m))"

definition obtain_res :: "tun_res \<Rightarrow> windowsManager \<Rightarrow> windowsManager" where
  "obtain_res x m = m\<lparr>wm_open := x # wm_open m, wm_log := wm_log m @ [OpenRes x]\<rparr>"

definition removeRoutes :: "tun_world \<Rightarrow> windowsManager \<Rightarrow> tun_error option \<times> tun_event list" where
  "removeRoutes w m =
     (if wm_interfaceIndex m \<le> 0 \<or> wm_routeCleanup m = [] then (None, [])
      else (if list_ex (\<lambda>p. \<not> tw_netsh w p) (wm_routeCleanup m) then Some (TunError ''remove stale TUN route'') else None,
            map DeleteRoute (wm_routeCleanup m)))"

definition manager_Close :: "tun_world \<Rightarrow> windowsManager \<Rightarrow> tun_error option \<times> windowsManager" where
  "manager_Close w m =
     (if wm_closed m then (None, m)
      else
        (case removeRoutes w m of (routeErr, routeEvents) \<Rightarrow>
          (if routeErr = None \<and> has Device m \<and> \<not> tw_deviceClose w then Some (TunError ''close device'') else routeErr,
           m\<lparr>wm_closed := True, wm_live := False, wm_open := [],
             wm_log := wm_log m @ routeEvents @ map CloseRes (filter (\<lambda>x. has x m) [Device, Stack, IfMonitor, NetMonitor])\<rparr>)))"

definition staleTUNAddressError :: "string \<Rightarrow> bool" where
  "staleTUNAddressError err = (let message = ToLower err in Contains message ''object already exists'' \<or> Contains message ''error_object_already_exists'')"

definition cleanupStaleTUNAddresses :: "tun_options \<Rightarrow> tun_event list" where
  "cleanupStaleTUNAddresses opts =
     (if TrimSpace (to_Name opts) = [] then [] else map DeleteAddress (to_Inet4 opts @ to_Inet6 opts))"

text \<open>\<^verbatim>\<open>tun.New\<close>, once more after a stale address was removed; \<open>tw_create w k\<close> is the error of the \<open>k\<close>-th try.\<close>

definition create_device :: "tun_world \<Rightarrow> tun_options \<Rightarrow> bool \<times> tun_event list" where
  "create_device w opts =
     (case tw_create w 0 of
        None \<Rightarrow> (True, [])
      | Some err \<Rightarrow>
          if staleTUNAddressError err then (tw_create w 1 = None, cleanupStaleTUNAddresses opts) else (False, []))"

definition stack_name :: "InboundConfig \<Rightarrow> string" where
  "stack_name i = (let s = ToLower (TrimSpace (i_TUNStack i)) in if s = [] \<or> s = ''mixed'' \<or> s = ''system'' then ''gvisor'' else s)"

definition fail :: "tun_world \<Rightarrow> string \<Rightarrow> windowsManager \<Rightarrow> tun_error option \<times> windowsManager" where
  "fail w message m = (Some (TunError message), snd (manager_Close w m))"

definition start_device :: "tun_world \<Rightarrow> InboundConfig \<Rightarrow> tun_options \<Rightarrow> windowsManager \<Rightarrow> tun_error option \<times> windowsManager" where
  "start_device w i opts m =
     (let m0 = m\<lparr>wm_log := wm_log m @ snd (create_device w opts)\<rparr> in
      if \<not> fst (create_device w opts) then fail w ''create Wintun interface'' m0
      else
        (let m1 = obtain_res Device m0 in
         if to_AutoRoute opts \<and> tw_ranges w = None then fail w ''calculate TUN route rollback set'' m1
         else
           (let m2 = (if to_AutoRoute opts then m1\<lparr>wm_routeCleanup := the (tw_ranges w),
                  wm_interfaceIndex := (case tw_index w of Some k \<Rightarrow> k | None \<Rightarrow> wm_interfaceIndex m1)\<rparr> else m1) in
            if \<not> tw_stackNew w (stack_name i) then fail w ''create gVisor stack'' m2
            else
              (let m3 = obtain_res Stack m2 in
               if \<not> tw_stackStart w then fail w ''start gVisor stack'' m3
               else if \<not> tw_deviceStart w then fail w ''install TUN routes'' m3
               else (None, m3)))))"

definition manager_Start ::
  "tun_world \<Rightarrow> InboundConfig \<Rightarrow> Node list \<Rightarrow> DNSOptions \<Rightarrow> windowsManager \<Rightarrow> tun_error option \<times> windowsManager" where
  "manager_Start w i nodes dns m =
     (let m0 = m\<lparr>wm_live := True\<rparr> in
      if \<not> tw_finder w then (Some (TunError ''enumerate network interfaces''), m0)
      else if \<not> tw_netmonNew w then (Some (TunError ''create network monitor''), m0)
      else
        (let m1 = obtain_res NetMonitor m0 in
         if \<not> tw_netmonStart w then fail w ''start network monitor'' m1
         else if \<not> tw_ifmonNew w then fail w ''create default-interface monitor'' m1
         else
           (let m2 = obtain_res IfMonitor m1 in
            if \<not> tw_ifmonStart w then fail w ''start default-interface monitor'' m2
            else if i_TUNAutoRoute i \<and> (case tw_physical w of Some k \<Rightarrow> k \<le> 0 | None \<Rightarrow> True) then
              fail w ''no physical default interface found'' m2
            else
              (let m3 = (if i_TUNAutoRoute i then m2\<lparr>wm_direct := tw_physical w\<rparr> else m2) in
               case tun_options_of w i nodes dns of
                 Ret opts \<Rightarrow> start_device w i opts m3
               | Err (TunError e) \<Rightarrow> fail w e m3
               | Panic \<Rightarrow> fail w ''panic'' m3))))"

section \<open>Lemmas\<close>

lemma addHost_no_panic: "addHost w host seen \<noteq> Panic"
  by (auto simp: addHost_def Let_def split: option.splits list.splits)

lemma add_nodes_no_panic: "add_nodes w nodes seen \<noteq> Panic"
proof (induction nodes arbitrary: seen)
  case (Cons n nodes)
  then show ?case using addHost_no_panic by (cases "addHost w (n_Server n) seen") auto
qed simp

lemma endpointExclusions_no_panic: "endpointExclusions w nodes dns \<noteq> Panic"
  using add_nodes_no_panic addHost_no_panic
  by (auto simp: endpointExclusions_def gbind_def split: go.splits option.splits)

lemma parse_prefixes_no_panic: "parse_prefixes what raws \<noteq> Panic"
  by (induction what raws rule: parse_prefixes.induct) (auto simp: gbind_def split: option.splits go.splits)

text \<open>The branch of \<open>manager_Start\<close> for a panic is never taken.\<close>

lemma tun_options_of_no_panic: "tun_options_of w i nodes dns \<noteq> Panic"
  using parse_prefixes_no_panic endpointExclusions_no_panic
  by (auto simp: tun_options_of_def gbind_def Let_def simp del: parse_prefixes.simps split: go.splits)

text \<open>An address that was seen stays seen, so the exclusions cover the address of every upstream.\<close>

definition upstream :: "tun_world \<Rightarrow> string \<Rightarrow> addr set" where
  "upstream w host0 =
     (let host = TrimSpace (TrimChars host0 ''[]'') in
      case ParseAddr host of Some a \<Rightarrow> {Unmap a}
      | None \<Rightarrow> (case tw_lookup w host of Some addrs \<Rightarrow> Unmap ` set addrs | None \<Rightarrow> {}))"

lemma set_fold_insert: "set (fold (\<lambda>a. List.insert (f a)) xs acc) = set acc \<union> f ` set xs"
  by (induction xs arbitrary: acc) auto

lemma addHost_seen: "addHost w host seen = Ret seen' \<Longrightarrow> set seen' = set seen \<union> upstream w host"
  by (auto simp: addHost_def upstream_def Let_def set_fold_insert split: if_splits option.splits list.splits)

lemma add_nodes_seen:
  "add_nodes w nodes seen = Ret seen' \<Longrightarrow> set seen' = set seen \<union> (\<Union>n\<in>set nodes. upstream w (n_Server n))"
proof (induction nodes arbitrary: seen)
  case (Cons n nodes)
  then obtain s1 where "addHost w (n_Server n) seen = Ret s1" "add_nodes w nodes s1 = Ret seen'"
    by (cases "addHost w (n_Server n) seen") auto
  with Cons.IH addHost_seen show ?case by fastforce
qed simp

definition host_prefix :: "addr \<Rightarrow> ip_prefix" where
  "host_prefix a = (a, if Is4 a then 32 else 128)"

lemma endpointExclusions_cover:
  assumes "endpointExclusions w nodes dns = Ret (v4, v6)" and "n \<in> set nodes" and "a \<in> upstream w (n_Server n)"
  shows "host_prefix a \<in> set (v4 @ v6)"
proof -
  from assms(1) obtain seen0 seen where s0: "add_nodes w nodes [] = Ret seen0" and sub: "set seen0 \<subseteq> set seen"
    and v: "v4 = map (\<lambda>a. (a, 32)) (filter Is4 seen)" "v6 = map (\<lambda>a. (a, 128)) (filter (\<lambda>a. \<not> Is4 a) seen)"
    by (auto simp: endpointExclusions_def gbind_def split: go.splits option.splits if_splits dest: addHost_seen)
  with add_nodes_seen [OF s0] assms(2,3) have "a \<in> set seen" by auto
  with v show ?thesis by (auto simp: host_prefix_def)
qed

lemma tun_options_of_cover:
  assumes "tun_options_of w i nodes dns = Ret opts" and "n \<in> set nodes" and "a \<in> upstream w (n_Server n)"
  shows "host_prefix a \<in> set (to_Exclude4 opts @ to_Exclude6 opts)"
  using assms endpointExclusions_cover [OF _ assms(2,3)]
  by (fastforce simp: tun_options_of_def gbind_def Let_def simp del: parse_prefixes.simps split: go.splits)

subsection \<open>Every opened resource is closed once\<close>

definition balanced :: "windowsManager \<Rightarrow> bool" where
  "balanced m =
     (distinct (wm_open m) \<and>
      (\<forall>x. count_list (wm_log m) (OpenRes x) = count_list (wm_log m) (CloseRes x) + (if has x m then 1 else 0)))"

lemma balanced_new_manager: "balanced (new_manager\<lparr>wm_live := b\<rparr>)"
  by (simp add: balanced_def new_manager_def has_def)

lemma balanced_obtain_res: "balanced m \<Longrightarrow> \<not> has x m \<Longrightarrow> balanced (obtain_res x m)"
  by (auto simp: balanced_def obtain_res_def has_def)

lemma count_list_map_other: "(\<And>y. f y \<noteq> e) \<Longrightarrow> count_list (map f ys) e = 0"
  by (auto simp: count_list_0_iff)

lemma count_routes: "snd (removeRoutes w m) = evs \<Longrightarrow> count_list evs (OpenRes x) = 0 \<and> count_list evs (CloseRes x) = 0"
  by (auto simp: removeRoutes_def count_list_map_other split: if_splits)

lemma count_cleanup:
  "count_list (snd (create_device w opts)) (OpenRes x) = 0 \<and> count_list (snd (create_device w opts)) (CloseRes x) = 0"
  by (auto simp: create_device_def cleanupStaleTUNAddresses_def count_list_map_other split: option.splits)

lemma count_closed: "count_list (map CloseRes (filter (\<lambda>x. has x m) [Device, Stack, IfMonitor, NetMonitor])) (CloseRes x) = (if has x m then 1 else 0)"
  by (cases x) auto

lemma manager_Close_balanced:
  assumes "balanced m" and "\<not> wm_closed m"
  shows "balanced (snd (manager_Close w m))" and "wm_open (snd (manager_Close w m)) = []" and "wm_closed (snd (manager_Close w m))"
    and "\<not> wm_live (snd (manager_Close w m))"
proof -
  obtain e evs where r: "removeRoutes w m = (e, evs)" by force
  with count_routes [of w m evs] have evs: "count_list evs (OpenRes x) = 0" "count_list evs (CloseRes x) = 0" for x by simp_all
  let ?c = "map CloseRes (filter (\<lambda>x. has x m) [Device, Stack, IfMonitor, NetMonitor])"
  have c: "count_list ?c (OpenRes x) = 0" for x by (rule count_list_map_other) simp
  have log: "wm_log (snd (manager_Close w m)) = wm_log m @ evs @ ?c" and o: "wm_open (snd (manager_Close w m)) = []"
    using assms(2) r by (simp_all add: manager_Close_def del: filter.simps)
  show "balanced (snd (manager_Close w m))"
    unfolding balanced_def log o using assms(1) o evs c count_closed
    by (simp add: balanced_def has_def del: filter.simps)
qed (use assms(2) in \<open>simp_all add: manager_Close_def split: prod.splits\<close>)

text \<open>What a start leaves: either everything is open, or an error and nothing open.\<close>

definition started :: "tun_error option \<times> windowsManager \<Rightarrow> bool" where
  "started r =
     (balanced (snd r) \<and> (case fst r of None \<Rightarrow> set (wm_open (snd r)) = UNIV \<and> \<not> wm_closed (snd r) | Some _ \<Rightarrow> wm_open (snd r) = []))"

lemma started_fail: "balanced m \<Longrightarrow> \<not> wm_closed m \<Longrightarrow> started (fail w e m)"
  by (simp add: started_def fail_def manager_Close_balanced)

lemma balanced_update [simp]:
  "balanced (m\<lparr>wm_routeCleanup := r, wm_interfaceIndex := k\<rparr>) = balanced m"
  "balanced (m\<lparr>wm_direct := d\<rparr>) = balanced m"
  "has x (m\<lparr>wm_routeCleanup := r, wm_interfaceIndex := k\<rparr>) = has x m"
  "has x (m\<lparr>wm_direct := d\<rparr>) = has x m"
  "has x (m\<lparr>wm_live := b\<rparr>) = has x m"
  "has x (m\<lparr>wm_log := l\<rparr>) = has x m"
  "has x (obtain_res y m) = (x = y \<or> has x m)"
  "wm_closed (obtain_res y m) = wm_closed m"
  by (auto simp: balanced_def has_def obtain_res_def)

lemma balanced_log: "balanced m \<Longrightarrow> balanced (m\<lparr>wm_log := wm_log m @ snd (create_device w opts)\<rparr>)"
  using count_cleanup by (auto simp: balanced_def has_def)

lemma start_device_started:
  assumes "balanced m" and "\<not> wm_closed m" and "has NetMonitor m" and "has IfMonitor m" and "\<not> has Device m" and "\<not> has Stack m"
  shows "started (start_device w i opts m)"
proof -
  let ?m1 = "obtain_res Device (m\<lparr>wm_log := wm_log m @ snd (create_device w opts)\<rparr>)"
  let ?m2 = "if to_AutoRoute opts then ?m1\<lparr>wm_routeCleanup := the (tw_ranges w),
                  wm_interfaceIndex := (case tw_index w of Some k \<Rightarrow> k | None \<Rightarrow> wm_interfaceIndex ?m1)\<rparr> else ?m1"
  let ?m3 = "obtain_res Stack ?m2"
  have b0: "balanced (m\<lparr>wm_log := wm_log m @ snd (create_device w opts)\<rparr>)" by (rule balanced_log) (rule assms)
  have b1: "balanced ?m1" by (rule balanced_obtain_res [OF b0]) (simp add: assms)
  have b2: "balanced ?m2" "\<not> wm_closed ?m2" and no: "\<not> has Stack ?m2" using b1 assms by auto
  have b3: "balanced ?m3" by (rule balanced_obtain_res [OF b2(1) no])
  have "has x ?m3" for x using assms by (cases x) auto
  then have all: "set (wm_open ?m3) = UNIV" by (auto simp: has_def)
  have c3: "\<not> wm_closed ?m3" using b2(2) by simp
  from b3 all c3 have ok: "started (None, ?m3)" by (simp add: started_def)
  show ?thesis
    unfolding start_device_def Let_def
    using started_fail [OF b0] started_fail [OF b1] started_fail [OF b2] started_fail [OF b3 c3] ok assms
    by simp
qed

lemma manager_Start_started: "started (manager_Start w i nodes dns new_manager)"
proof -
  let ?m0 = "new_manager\<lparr>wm_live := True\<rparr>"
  let ?m1 = "obtain_res NetMonitor ?m0"
  let ?m2 = "obtain_res IfMonitor ?m1"
  have new: "\<not> has x new_manager" "\<not> wm_closed new_manager" for x by (simp_all add: has_def new_manager_def)
  have s0: "started (Some e, ?m0)" for e using balanced_new_manager [of True] by (simp add: started_def) (simp add: new_manager_def)
  have b1: "balanced ?m1" by (rule balanced_obtain_res [OF balanced_new_manager]) (simp add: new)
  have b2: "balanced ?m2" by (rule balanced_obtain_res [OF b1]) (simp add: new)
  have c: "\<not> wm_closed ?m1" "\<not> wm_closed ?m2" by (simp_all add: new)
  have f3: "started (fail w e (?m2\<lparr>wm_direct := d\<rparr>))" for e d by (rule started_fail) (simp_all add: b2 new)
  have d3: "started (start_device w i opts (?m2\<lparr>wm_direct := d\<rparr>))" for opts d
    by (rule start_device_started) (simp_all add: b2 new)
  have d2: "started (start_device w i opts ?m2)" for opts by (rule start_device_started) (simp_all add: b2 new)
  show ?thesis
    unfolding manager_Start_def Let_def
    using s0 started_fail [OF b1 c(1)] started_fail [OF b2 c(2)] f3 d3 d2
    by (auto split: go.split tun_error.split)
qed

lemma manager_Start_ok:
  assumes "manager_Start w i nodes dns new_manager = (None, m)"
  obtains opts m3 where "tun_options_of w i nodes dns = Ret opts" and "start_device w i opts m3 = (None, m)"
  using assms by (auto simp: manager_Start_def fail_def Let_def split: if_splits go.splits tun_error.splits)

lemma manager_Close_once:
  assumes "\<not> wm_closed m" and "set (wm_open m) = UNIV"
  shows "wm_log (snd (manager_Close w m)) =
           wm_log m @ (if wm_interfaceIndex m \<le> 0 then [] else map DeleteRoute (wm_routeCleanup m)) @
           map CloseRes [Device, Stack, IfMonitor, NetMonitor]"
    and "manager_Close w (snd (manager_Close w m)) = (None, snd (manager_Close w m))"
  using assms by (auto simp: manager_Close_def removeRoutes_def has_def)


definition demo_world :: tun_world where
  "demo_world = \<lparr>tw_finder = True, tw_netmonNew = True, tw_netmonStart = True, tw_ifmonNew = True, tw_ifmonStart = True,
     tw_physical = Some 7, tw_create = (\<lambda>k. if k = 0 then Some ''Object already exists'' else None),
     tw_ranges = Some [(Addr4 [0, 0, 0, 0], 1)], tw_index = Some 12, tw_stackNew = (\<lambda>s. s = ''gvisor''), tw_stackStart = True,
     tw_deviceStart = True, tw_netsh = (\<lambda>_. True), tw_deviceClose = True,
     tw_lookup = (\<lambda>h. if h = ''a.b'' then Some [Addr4 [203, 0, 113, 7]] else None), tw_hostname = (\<lambda>_. None)\<rparr>"

definition demo_inbound :: InboundConfig where
  "demo_inbound = \<lparr>i_Type = ''tun'', i_Tag = ''t'', i_Listen = [], i_Port = 0, i_TUNAddress = [], i_TUNMTU = 0,
     i_TUNAutoRoute = True, i_TUNStrictRoute = False, i_TUNStack = ''Mixed'', i_TUNInterface = [], i_TUNRouteAddr = []\<rparr>"

definition demo_node :: Node where
  "demo_node = \<lparr>n_ID = ''n1'', n_Name = ''n1'', n_Type = ''trojan'', n_Server = ''[a.b]'', n_Port = 44, n_TLS = None, n_Transport = None,
     n_Auth = [], n_Dial = \<lparr>d_BindInterface = [], d_DomainResolver = []\<rparr>, n_UDP = True, n_Tags = []\<rparr>"

lemma demo_starts: "fst (manager_Start demo_world demo_inbound [demo_node] zero_DNSOptions new_manager) = None"
  by code_simp


end
