(* ===== verification/Service.thy ===== *)
theory Service
  imports Go_Strings Json
begin

text \<open>
  The Windows supervisor (\<^verbatim>\<open>src/windows/service/main.go\<close>): it extracts the embedded core, checks the
  configuration with it, runs it inside a kill-on-close job and answers JSON lines on its standard input.
  The file system is a map from paths to contents; which of its operations fail, the outputs of the core, the
  paths of the platform and the checksum are fields of a world.
\<close>

section \<open>Model\<close>

datatype exec_error = ExitError int string | OtherError string

definition exec_text :: "exec_error \<Rightarrow> string" where
  "exec_text e = (case e of ExitError _ s \<Rightarrow> s | OtherError s \<Rightarrow> s)"

definition exitCode :: "exec_error \<Rightarrow> int" where
  "exitCode e = (case e of ExitError c _ \<Rightarrow> c | OtherError _ \<Rightarrow> 1)"

definition int_text :: "int \<Rightarrow> string" where
  "int_text k = (if k < 0 then ''-'' @ Itoa (nat (- k)) else Itoa (nat k))"

text \<open>Why \<^verbatim>\<open>runService\<close> leaves its first \<^verbatim>\<open>select\<close>.\<close>

datatype svc_wake = Exited "exec_error option" | Signal | Stop

record svc_world =
  sw_localAppData :: string
  sw_userCacheDir :: "string + string"
  sw_joinPath :: "string list \<Rightarrow> string"
  sw_mkdirAll :: "string option"
  sw_sha256Hex :: "bytes \<Rightarrow> string"
  sw_readable :: bool
  sw_writeFile :: "string option"
  sw_partial :: "bytes option"
  sw_rename :: "nat \<Rightarrow> string option"
  sw_remove :: "string \<Rightarrow> bool"
  sw_abs :: "string \<Rightarrow> string + string"
  sw_stat :: "string \<Rightarrow> string + bool"
  sw_coreVersion :: "exec_error option \<times> string"
  sw_coreCheck :: "string \<Rightarrow> exec_error option \<times> string"
  sw_pipes :: "string option \<times> string option"
  sw_start :: "string option"
  sw_job :: "string option"
  sw_wake :: svc_wake
  sw_exitsInTime :: bool

type_synonym files = "string \<Rightarrow> bytes option"

record errorFrame =
  ef_Phase :: string
  ef_Message :: string
  ef_ExitCode :: int
  ef_Detail :: string

text \<open>What the supervisor does, in order.\<close>

record runtimeFiles =
  rf_Dir :: string
  rf_Core :: string
  rf_CoreSHA :: string
  rf_CoreBytes :: nat

datatype svc_event =
    Print string
  | Usage
  | Features
  | DoctorReport runtimeFiles string
  | EmitError errorFrame
  | RunCore string
  | StartCore string
  | Kill
  | Wait
  | AttachJob
  | CloseJob
  | Ready

text \<open>An error of the supervisor is its text and whether a frame for it was already emitted.\<close>

datatype svc_error = Reported string | Plain string

definition serviceVersion :: string where
  "serviceVersion = ''1.5.13''"

text \<open>The supervisor's constant \<^verbatim>\<open>coreVersion\<close>; the API has one of its own.\<close>

definition embeddedCoreVersion :: string where
  "embeddedCoreVersion = ''1.10.13''"

fun configPath :: "string list \<Rightarrow> string" where
  "configPath [] = ''config.json''"
| "configPath (a # args) =
     (if a = ''-c'' \<or> a = ''--config'' then
        (case args of v # _ \<Rightarrow> v | [] \<Rightarrow> ''config.json'')
      else if HasPrefix a ''--config='' then TrimPrefix a ''--config=''
      else configPath args)"

definition replace_char :: "char \<Rightarrow> char \<Rightarrow> string \<Rightarrow> string" where
  "replace_char a b s = map (\<lambda>c. if c = a then b else c) s"

definition ellipsis :: string where
  "ellipsis = [CHR 0xE2, CHR 0x80, CHR 0xA6]"

definition compact :: "string \<Rightarrow> string" where
  "compact s =
     (let fields = Fields (replace_char (CHR 0x0A) (CHR '' '') (replace_char (CHR 0x0D) (CHR '' '') s)) in
      if length fields = 0 then []
      else let out = Join fields '' '' in if length out > 1200 then take 1200 out @ ellipsis else out)"

definition frame :: "string \<Rightarrow> string \<Rightarrow> errorFrame" where
  "frame phase message = \<lparr>ef_Phase = phase, ef_Message = message, ef_ExitCode = 0, ef_Detail = []\<rparr>"

definition reportError :: "errorFrame \<Rightarrow> string \<Rightarrow> (svc_error, 'a) go \<times> svc_event list" where
  "reportError f err = (Err (Reported err), [EmitError f])"

subsection \<open>Extracting the core\<close>

definition serviceDataDir :: "svc_world \<Rightarrow> string + string" where
  "serviceDataDir w =
     (let root = TrimSpace (sw_localAppData w) in
      if root \<noteq> [] then Inr (sw_joinPath w [root, ''HongdaStarlink'', ''runtime'', embeddedCoreVersion])
      else case sw_userCacheDir w of
        Inl e \<Rightarrow> Inl (''resolve user cache directory: '' @ e)
      | Inr cache \<Rightarrow> Inr (sw_joinPath w [cache, ''HongdaStarlink'', ''runtime'', embeddedCoreVersion]))"

text \<open>
  A failed write leaves whatever part of the data reached the temporary file (\<open>sw_partial\<close>); the two renames
  and the removal of the old file in between succeed or fail as the world says.
\<close>

definition writeEmbeddedIfNeeded :: "svc_world \<Rightarrow> string \<Rightarrow> bytes \<Rightarrow> string \<Rightarrow> files \<Rightarrow> string option \<times> files" where
  "writeEmbeddedIfNeeded w path data expectedSHA fs =
     (if (case fs path of Some existing \<Rightarrow> sw_readable w \<and> sw_sha256Hex w existing = expectedSHA | None \<Rightarrow> False)
      then (None, fs)
      else
        (let tmp = path @ ''.tmp'' in
         case sw_writeFile w of
           Some err \<Rightarrow> (Some err, fs(tmp := sw_partial w))
         | None \<Rightarrow>
             (case sw_rename w 0 of
                None \<Rightarrow> (None, fs(tmp := None, path := Some data))
              | Some _ \<Rightarrow>
                  (let fs1 = (if sw_remove w path then fs(path := None) else fs) in
                   case sw_rename w 1 of
                     Some retryErr \<Rightarrow> (Some retryErr, fs1(tmp := if sw_remove w tmp then None else Some data))
                   | None \<Rightarrow> (None, fs1(tmp := None, path := Some data))))))"

definition minCore :: nat where
  "minCore = 5 * 1024 * 1024"

definition ensureRuntime :: "svc_world \<Rightarrow> bytes \<Rightarrow> files \<Rightarrow> (string, runtimeFiles) go \<times> files" where
  "ensureRuntime w coreBinary fs =
     (if length coreBinary < minCore then (Err ''embedded HongdaCore is missing or truncated'', fs)
      else case serviceDataDir w of
        Inl e \<Rightarrow> (Err e, fs)
      | Inr dir \<Rightarrow>
          (case sw_mkdirAll w of
             Some e \<Rightarrow> (Err (''create runtime directory '' @ dir @ '': '' @ e), fs)
           | None \<Rightarrow>
               (let corePath = sw_joinPath w [dir, ''HongdaCore.exe'']; coreSHA = sw_sha256Hex w coreBinary in
                case writeEmbeddedIfNeeded w corePath coreBinary coreSHA fs of
                  (Some e, fs') \<Rightarrow> (Err (''extract HongdaCore: '' @ e), fs')
                | (None, fs') \<Rightarrow>
                    (Ret \<lparr>rf_Dir = dir, rf_Core = corePath, rf_CoreSHA = coreSHA, rf_CoreBytes = length coreBinary\<rparr>, fs'))))"

subsection \<open>The commands\<close>

type_synonym svc_result = "(svc_error, unit) go \<times> svc_event list \<times> files"

definition printVersion :: "svc_world \<Rightarrow> bytes \<Rightarrow> files \<Rightarrow> svc_result" where
  "printVersion w coreBinary fs =
     (case ensureRuntime w coreBinary fs of
        (Ret files, fs') \<Rightarrow>
          (case sw_coreVersion w of
             (Some err, out) \<Rightarrow>
               (Err (Plain (''query HongdaCore version: '' @ exec_text err @ '': '' @ compact out)), [RunCore ''version''], fs')
           | (None, out) \<Rightarrow>
               (if \<not> Contains (compact out) embeddedCoreVersion then
                  (Err (Plain (''HongdaCore version mismatch: expected '' @ embeddedCoreVersion @ '', got '' @ compact out)), [RunCore ''version''], fs')
                else if length (rf_CoreSHA files) < 12 then (Panic, [RunCore ''version''], fs')
                else
                  (Ret (), [RunCore ''version'', Print (''HongdaService '' @ serviceVersion @ '' '' @ [CHR 0xC2, CHR 0xB7] @ '' HongdaCore '' @ embeddedCoreVersion @
                     '' '' @ [CHR 0xC2, CHR 0xB7] @ '' embedded core sha256:'' @ take 12 (rf_CoreSHA files))], fs')))
      | (Err e, fs') \<Rightarrow> (Err (Plain e), [], fs')
      | (Panic, fs') \<Rightarrow> (Panic, [], fs'))"

definition runCheck :: "svc_world \<Rightarrow> string \<Rightarrow> (svc_error, unit) go \<times> svc_event list" where
  "runCheck w absolute =
     (case sw_stat w absolute of
        Inl e \<Rightarrow>
          (let msg = ''config file unavailable '' @ absolute @ '': '' @ e in reportError (frame ''config_missing'' msg) msg)
      | Inr _ \<Rightarrow>
          (case sw_coreCheck w absolute of
             (Some err, out) \<Rightarrow>
               (let message = ''HongdaCore configuration check failed''; detail = compact out in
                (Err (Reported (message @ '': '' @ detail)),
                 [RunCore ''check'', EmitError \<lparr>ef_Phase = ''config_check'', ef_Message = message, ef_ExitCode = exitCode err, ef_Detail = detail\<rparr>]))
           | (None, _) \<Rightarrow> (Ret (), [RunCore ''check'', Print ''HONGDA_CHECK_OK''])))"

text \<open>The part \<^verbatim>\<open>checkConfig\<close>, \<^verbatim>\<open>doctor\<close> and \<^verbatim>\<open>runService\<close> share: the core and the absolute path of the configuration.\<close>

definition with_core ::
  "svc_world \<Rightarrow> bytes \<Rightarrow> string \<Rightarrow> files \<Rightarrow> (runtimeFiles \<Rightarrow> string \<Rightarrow> (svc_error, unit) go \<times> svc_event list) \<Rightarrow> svc_result" where
  "with_core w coreBinary config fs body =
     (case ensureRuntime w coreBinary fs of
        (Ret files, fs') \<Rightarrow>
          (case sw_abs w config of
             Inl e \<Rightarrow> (case reportError (frame ''config_path'' e) e of (r, evs) \<Rightarrow> (r, evs, fs'))
           | Inr absolute \<Rightarrow> (case body files absolute of (r, evs) \<Rightarrow> (r, evs, fs')))
      | (Err e, fs') \<Rightarrow> (case reportError (frame ''core_extract'' e) e of (r, evs) \<Rightarrow> (r, evs, fs'))
      | (Panic, fs') \<Rightarrow> (Panic, [], fs'))"

definition checkConfig :: "svc_world \<Rightarrow> bytes \<Rightarrow> string \<Rightarrow> files \<Rightarrow> svc_result" where
  "checkConfig w coreBinary config fs = with_core w coreBinary config fs (\<lambda>_. runCheck w)"

text \<open>Steps in sequence: an error of the first ends it, events accumulate.\<close>

definition svc_then :: "(svc_error, unit) go \<times> svc_event list \<Rightarrow> (svc_error, unit) go \<times> svc_event list \<Rightarrow> (svc_error, unit) go \<times> svc_event list" where
  "svc_then a b = (case a of (Ret _, evs) \<Rightarrow> (fst b, evs @ snd b) | _ \<Rightarrow> a)"

definition doctor :: "svc_world \<Rightarrow> bytes \<Rightarrow> string \<Rightarrow> files \<Rightarrow> svc_result" where
  "doctor w coreBinary config fs =
     with_core w coreBinary config fs (\<lambda>files absolute.
       case sw_stat w absolute of
         Inl e \<Rightarrow> reportError (frame ''config_missing'' e) e
       | Inr True \<Rightarrow> (let msg = ''config file not found: '' @ absolute in reportError (frame ''config_missing'' msg) msg)
       | Inr False \<Rightarrow> svc_then (runCheck w absolute) (Ret (), [DoctorReport files absolute]))"

text \<open>
  \<^verbatim>\<open>runService\<close> from the creation of the pipes. Once the job is attached its close is deferred; the second
  select waits for the exit of the core and kills it again after three seconds.
\<close>

definition supervise :: "svc_world \<Rightarrow> (svc_error, unit) go \<times> svc_event list" where
  "supervise w =
     (case sw_wake w of
        Exited (Some err) \<Rightarrow>
          (Err (Reported (''HongdaCore exited with code '' @ int_text (exitCode err) @ '': '' @ exec_text err)),
           [EmitError \<lparr>ef_Phase = ''core_exit'', ef_Message = ''HongdaCore exited unexpectedly'', ef_ExitCode = exitCode err, ef_Detail = exec_text err\<rparr>])
      | Exited None \<Rightarrow> (Ret (), [])
      | _ \<Rightarrow> (Ret (), Kill # (if sw_exitsInTime w then [Wait] else [Kill]) @ [Print ''HONGDA_STOPPED'']))"

definition start_core :: "svc_world \<Rightarrow> string \<Rightarrow> (svc_error, unit) go \<times> svc_event list" where
  "start_core w absolute =
     (case sw_pipes w of
        (Some e, _) \<Rightarrow> reportError (frame ''core_pipe'' e) e
      | (None, Some e) \<Rightarrow> reportError (frame ''core_pipe'' e) e
      | (None, None) \<Rightarrow>
          (case sw_start w of
             Some e \<Rightarrow> reportError (frame ''core_start'' e) e
           | None \<Rightarrow>
               (case sw_job w of
                  Some e \<Rightarrow>
                    (let message = ''failed to attach HongdaCore to kill-on-close Job Object'' in
                     (Err (Reported (message @ '': '' @ e)),
                      [StartCore absolute, Kill, Wait, EmitError ((frame ''core_supervision'' message)\<lparr>ef_Detail := e\<rparr>)]))
                | None \<Rightarrow>
                    (case supervise w of (r, evs) \<Rightarrow> (r, [StartCore absolute, AttachJob, Ready] @ evs @ [CloseJob])))))"

definition runService :: "svc_world \<Rightarrow> bytes \<Rightarrow> string \<Rightarrow> files \<Rightarrow> svc_result" where
  "runService w coreBinary config fs =
     with_core w coreBinary config fs (\<lambda>_ absolute. svc_then (runCheck w absolute) (start_core w absolute))"

text \<open>The end of \<^verbatim>\<open>main\<close>: an error that was not reported yet gets its frame.\<close>

definition svc_exit :: "svc_result \<Rightarrow> nat \<times> svc_event list \<times> files" where
  "svc_exit = (\<lambda>(r, evs, fs'). case r of
       Ret _ \<Rightarrow> (0, evs, fs')
     | Err (Reported _) \<Rightarrow> (1, evs, fs')
     | Err (Plain e) \<Rightarrow> (1, evs @ [EmitError (frame ''service'' e)], fs')
     | Panic \<Rightarrow> (2, evs, fs'))"

text \<open>\<^verbatim>\<open>main\<close>: the exit code, what was done and the files afterwards.\<close>

definition svc_main :: "svc_world \<Rightarrow> bytes \<Rightarrow> string list \<Rightarrow> files \<Rightarrow> nat \<times> svc_event list \<times> files" where
  "svc_main w coreBinary args fs =
     (case args of
        [] \<Rightarrow> (2, [Usage], fs)
      | a # rest \<Rightarrow>
          (let command = ToLower (TrimSpace a) in
           if command = ''version'' \<or> command = ''--version'' \<or> command = ''-v'' then svc_exit (printVersion w coreBinary fs)
           else if command = ''features'' then (0, [Features], fs)
           else if command = ''doctor'' then svc_exit (doctor w coreBinary (configPath rest) fs)
           else if command = ''check'' then svc_exit (checkConfig w coreBinary (configPath rest) fs)
           else if command = ''run'' then svc_exit (runService w coreBinary (configPath rest) fs)
           else (2, [Usage], fs)))"

subsection \<open>Requests on standard input\<close>

text \<open>
  A line with what decoding it as JSON gives (the decoder's error text or the value) and the seconds since the start
  when it is handled.
\<close>

record stdin_line =
  ln_text :: string
  ln_json :: "string + json"
  ln_uptime :: int

record ipcRequest =
  rq_ID :: string
  rq_Method :: string

record ipcResponse =
  rs_ID :: string
  rs_OK :: bool
  rs_Result :: "json option"
  rs_Error :: string

record ipc_env =
  ie_pid :: int
  ie_corePID :: int
  ie_config :: string
  ie_files :: runtimeFiles
  ie_startedAt :: string
  ie_features :: string

fun decode_fields :: "(string \<times> json) list \<Rightarrow> ipcRequest \<Rightarrow> ipcRequest option" where
  "decode_fields [] req = Some req"
| "decode_fields ((k, v) # kvs) req =
     (if EqualFold k ''id'' then
        (case v of JStr s \<Rightarrow> decode_fields kvs (req\<lparr>rq_ID := s\<rparr>) | JNull \<Rightarrow> decode_fields kvs req | _ \<Rightarrow> None)
      else if EqualFold k ''method'' then
        (case v of JStr s \<Rightarrow> decode_fields kvs (req\<lparr>rq_Method := s\<rparr>) | JNull \<Rightarrow> decode_fields kvs req | _ \<Rightarrow> None)
      else if EqualFold k ''params'' then
        (case v of JObj _ \<Rightarrow> decode_fields kvs req | JNull \<Rightarrow> decode_fields kvs req | _ \<Rightarrow> None)
      else decode_fields kvs req)"

definition decode_request :: "stdin_line \<Rightarrow> string + ipcRequest" where
  "decode_request l =
     (case ln_json l of
        Inl e \<Rightarrow> Inl e
      | Inr v \<Rightarrow>
          (case decode_raw_map v of
             Some kvs \<Rightarrow>
               (case decode_fields kvs \<lparr>rq_ID = [], rq_Method = []\<rparr> of
                  Some req \<Rightarrow> Inr req
                | None \<Rightarrow> Inl ''json: cannot unmarshal into Go struct field'')
           | None \<Rightarrow> Inl ''json: cannot unmarshal into Go value''))"

definition status_result :: "ipc_env \<Rightarrow> int \<Rightarrow> json" where
  "status_result env uptime = JObj
     [(''running'', JBool True), (''pid'', JInt (ie_pid env)), (''wrapperPid'', JInt (ie_pid env)), (''corePid'', JInt (ie_corePID env)),
      (''serviceVersion'', JStr serviceVersion), (''coreVersion'', JStr embeddedCoreVersion), (''features'', JStr (ie_features env)),
      (''config'', JStr (ie_config env)), (''corePath'', JStr (rf_Core (ie_files env))), (''coreSha256'', JStr (rf_CoreSHA (ie_files env))),
      (''startedAt'', JStr (ie_startedAt env)), (''uptimeSeconds'', JInt uptime), (''ipc'', JStr ''stdio-jsonl'')]"

text \<open>What one request is answered with, and whether it stops the loop.\<close>

definition ipc_answer :: "ipc_env \<Rightarrow> int \<Rightarrow> ipcRequest \<Rightarrow> ipcResponse \<times> bool" where
  "ipc_answer env uptime req =
     (let meth = ToLower (TrimSpace (rq_Method req)); reply = (\<lambda>v. \<lparr>rs_ID = rq_ID req, rs_OK = True, rs_Result = Some v, rs_Error = []\<rparr>) in
      if meth = ''ping'' then
        (reply (JObj [(''pong'', JBool True), (''wrapperPid'', JInt (ie_pid env)), (''corePid'', JInt (ie_corePID env))]), False)
      else if meth = ''status'' then (reply (status_result env uptime), False)
      else if meth = ''stop'' then (reply (JObj [(''stopping'', JBool True)]), True)
      else (\<lparr>rs_ID = rq_ID req, rs_OK = False, rs_Result = None, rs_Error = ''unknown method: '' @ meth\<rparr>, False))"

definition maxLine :: nat where
  "maxLine = 1024 * 1024"

text \<open>The scanner gives up at a line that does not fit its buffer together with the line end.\<close>

fun ipcLoop :: "ipc_env \<Rightarrow> stdin_line list \<Rightarrow> ipcResponse list \<times> bool" where
  "ipcLoop env [] = ([], True)"
| "ipcLoop env (l # ls) =
     (if maxLine \<le> length (ln_text l) then ([], True)
      else
        (let line = TrimSpace (ln_text l); lower = ToLower line in
         if line = [] then ipcLoop env ls
         else if lower = ''stop'' \<or> lower = ''quit'' \<or> lower = ''exit'' then ([], True)
         else
           (case decode_request l of
              Inl e \<Rightarrow>
                (case ipcLoop env ls of (rs, stop) \<Rightarrow> (\<lparr>rs_ID = [], rs_OK = False, rs_Result = None, rs_Error = ''invalid IPC request: '' @ e\<rparr> # rs, stop))
            | Inr req \<Rightarrow>
                (case ipc_answer env (ln_uptime l) req of
                   (r, True) \<Rightarrow> ([r], True)
                 | (r, False) \<Rightarrow> (case ipcLoop env ls of (rs, stop) \<Rightarrow> (r # rs, stop))))))"

text \<open>\<^verbatim>\<open>forward\<close>: the lines it copies, and whether it gave up before the end of its input.\<close>

fun forward_lines :: "string \<Rightarrow> string list \<Rightarrow> string list \<times> bool" where
  "forward_lines pfx [] = ([], False)"
| "forward_lines pfx (l # ls) =
     (if maxLine \<le> length l then ([], True)
      else case forward_lines pfx ls of (out, gave_up) \<Rightarrow> ((pfx @ l) # out, gave_up))"

subsection \<open>The job object\<close>

datatype job_event = OpenHandle string | CloseHandle string | LimitKillOnClose | AssignProcess

record job_world =
  jw_create :: "string option"
  jw_set :: "string option"
  jw_open :: "string option"
  jw_assign :: "string option"

text \<open>The deferred close of the job runs on every failure after its creation, that of the process handle always.\<close>

definition attachKillOnCloseJob :: "job_world \<Rightarrow> string option \<times> job_event list" where
  "attachKillOnCloseJob w =
     (case jw_create w of
        Some e \<Rightarrow> (Some (''CreateJobObjectW: '' @ e), [])
      | None \<Rightarrow>
          (case jw_set w of
             Some e \<Rightarrow> (Some (''SetInformationJobObject: '' @ e), [OpenHandle ''job'', CloseHandle ''job''])
           | None \<Rightarrow>
               (case jw_open w of
                  Some e \<Rightarrow> (Some (''OpenProcess: '' @ e), [OpenHandle ''job'', LimitKillOnClose, CloseHandle ''job''])
                | None \<Rightarrow>
                    (case jw_assign w of
                       Some e \<Rightarrow>
                         (Some (''AssignProcessToJobObject: '' @ e),
                          [OpenHandle ''job'', LimitKillOnClose, OpenHandle ''process'', CloseHandle ''process'', CloseHandle ''job''])
                     | None \<Rightarrow>
                         (None, [OpenHandle ''job'', LimitKillOnClose, OpenHandle ''process'', AssignProcess, CloseHandle ''process''])))))"

section \<open>Lemmas\<close>

lemma attachKillOnCloseJob_handles:
  assumes "attachKillOnCloseJob w = (e, evs)"
  shows "count_list evs (OpenHandle ''process'') = count_list evs (CloseHandle ''process'')"
    and "e \<noteq> None \<Longrightarrow> count_list evs (OpenHandle ''job'') = count_list evs (CloseHandle ''job'')"
    and "e = None \<Longrightarrow> OpenHandle ''job'' \<in> set evs \<and> CloseHandle ''job'' \<notin> set evs \<and> LimitKillOnClose \<in> set evs \<and> AssignProcess \<in> set evs"
  using assms by (auto simp: attachKillOnCloseJob_def split: option.splits)

text \<open>The first request to stop decides: a stop line, a stop request, a line that is too long, or the end of the input.\<close>

lemma ipcLoop_stops: "snd (ipcLoop env ls) = True"
  by (induction env ls rule: ipcLoop.induct) (auto simp: Let_def split: sum.splits prod.splits bool.splits)

lemma compact_length: "length (compact s) \<le> 1203"
  by (simp add: compact_def Let_def ellipsis_def)

text \<open>A line longer than the buffer ends the forwarding of the core's log for good; the pipe is not read any more.\<close>

lemma forward_gives_up: "maxLine \<le> length l \<Longrightarrow> forward_lines pfx (ls @ l # rest) = (fst (forward_lines pfx ls), True)"
  by (induction ls) (auto split: prod.splits)

lemma tmp_path_neq: "path @ ''.tmp'' \<noteq> path" "path \<noteq> path @ ''.tmp''"
  by simp_all

lemma writeEmbedded_files:
  assumes "writeEmbeddedIfNeeded w path data sha fs = (r, fs')"
  shows "p \<noteq> path \<Longrightarrow> p \<noteq> path @ ''.tmp'' \<Longrightarrow> fs' p = fs p"
    and "fs' path \<in> {fs path, None, Some data}"
    and "r = None \<Longrightarrow> fs' path = Some data \<or> fs' path = fs path \<and> (\<exists>c. fs path = Some c \<and> sw_sha256Hex w c = sha)"
    and "r \<noteq> None \<Longrightarrow> fs' path \<in> {fs path, None}"
  using assms
  by (auto simp: writeEmbeddedIfNeeded_def Let_def tmp_path_neq split: if_splits option.splits)

lemma ensureRuntime_cases:
  assumes "ensureRuntime w bin fs = (r, fs')"
  obtains (unchanged) e where "r = Err e" "fs' = fs"
  | (extracted) dir e where "serviceDataDir w = Inr dir" "minCore \<le> length bin"
      "writeEmbeddedIfNeeded w (sw_joinPath w [dir, ''HongdaCore.exe'']) bin (sw_sha256Hex w bin) fs = (e, fs')"
      "case e of Some x \<Rightarrow> r = Err (''extract HongdaCore: '' @ x) | None \<Rightarrow>
         r = Ret \<lparr>rf_Dir = dir, rf_Core = sw_joinPath w [dir, ''HongdaCore.exe''], rf_CoreSHA = sw_sha256Hex w bin, rf_CoreBytes = length bin\<rparr>"
  using assms by (auto simp: ensureRuntime_def Let_def split: if_splits sum.splits option.splits prod.splits)

lemma ensureRuntime_no_panic: "fst (ensureRuntime w bin fs) \<noteq> Panic"
  by (simp add: ensureRuntime_def Let_def split: sum.split option.split prod.split)

text \<open>
  C40: extracting the core never leaves a truncated executable. Whatever fails, the file at the path of the core is
  afterwards what it was before, absent, or the complete embedded binary, and no other file but the temporary one
  next to it changes; a failed extraction never installs a new file. After a successful one the core that will be
  run is present and has the checksum of the embedded binary, which has at least five mebibytes.
\<close>

theorem ensureRuntime_intact:
  assumes "ensureRuntime w bin fs = (r, fs')" and "serviceDataDir w = Inr dir"
    and "core = sw_joinPath w [dir, ''HongdaCore.exe'']"
  shows "fs' core \<in> {fs core, None, Some bin} \<and> (\<forall>p. p \<noteq> core \<and> p \<noteq> core @ ''.tmp'' \<longrightarrow> fs' p = fs p) \<and> r \<noteq> Panic \<and>
    (\<forall>e. r = Err e \<longrightarrow> fs' core \<in> {fs core, None}) \<and>
    (\<forall>f. r = Ret f \<longrightarrow> rf_Core f = core \<and> minCore \<le> length bin \<and>
       (\<exists>c. fs' core = Some c \<and> sw_sha256Hex w c = sw_sha256Hex w bin))"
  using assms(1)
proof (cases rule: ensureRuntime_cases)
  case (extracted d e)
  then have "d = dir" using assms(2) by simp
  with extracted assms(3) have x: "writeEmbeddedIfNeeded w core bin (sw_sha256Hex w bin) fs = (e, fs')" by simp
  note w = writeEmbedded_files [OF x]
  show ?thesis
  proof (cases e)
    case None
    with extracted(4) \<open>d = dir\<close> assms(3) have "r = Ret \<lparr>rf_Dir = dir, rf_Core = core, rf_CoreSHA = sw_sha256Hex w bin, rf_CoreBytes = length bin\<rparr>" by simp
    moreover have "\<exists>c. fs' core = Some c \<and> sw_sha256Hex w c = sw_sha256Hex w bin" using w(3) [OF None] by metis
    ultimately show ?thesis using w(1,2) extracted(2) by simp
  next
    case (Some err)
    with extracted(4) have "r = Err (''extract HongdaCore: '' @ err)" by simp
    with w(1,2) w(4) Some show ?thesis by simp
  qed
qed simp

definition demo_svc :: svc_world where
  "demo_svc = \<lparr>sw_localAppData = ''C:'', sw_userCacheDir = Inl [], sw_joinPath = (\<lambda>ps. Join ps ''/''), sw_mkdirAll = None,
     sw_sha256Hex = (\<lambda>b. replicate 64 (CHR ''0'')), sw_readable = True, sw_writeFile = None, sw_partial = None,
     sw_rename = (\<lambda>k. if k = 0 then Some ''busy'' else None), sw_remove = (\<lambda>_. True), sw_abs = Inr, sw_stat = (\<lambda>_. Inr False),
     sw_coreVersion = (None, embeddedCoreVersion), sw_coreCheck = (\<lambda>_. (None, [])), sw_pipes = (None, None), sw_start = None, sw_job = None,
     sw_wake = Signal, sw_exitsInTime = False\<rparr>"

lemma demo_dir: "serviceDataDir demo_svc = Inr ''C:/HongdaStarlink/runtime/1.10.13''"
  by code_simp

lemma demo_extracts: "\<exists>f fs'. ensureRuntime demo_svc (replicate minCore 1) (\<lambda>_. None) = (Ret f, fs')"
  unfolding ensureRuntime_def demo_dir writeEmbeddedIfNeeded_def Let_def
  by (simp add: demo_svc_def del: replicate.simps Join.simps append.simps)

theorem ensureRuntime_intact_witness:
  "snd (ensureRuntime demo_svc (replicate minCore 1) (\<lambda>_. None)) ''C:/HongdaStarlink/runtime/1.10.13/HongdaCore.exe'' \<noteq> None"
proof -
  let ?core = "''C:/HongdaStarlink/runtime/1.10.13/HongdaCore.exe''"
  have core: "sw_joinPath demo_svc [''C:/HongdaStarlink/runtime/1.10.13'', ''HongdaCore.exe''] = ?core"
    by (simp add: demo_svc_def)
  obtain f fs' where x: "ensureRuntime demo_svc (replicate minCore 1) (\<lambda>_. None) = (Ret f, fs')" using demo_extracts by blast
  from ensureRuntime_intact [OF x demo_dir core [symmetric]] have "\<exists>c. fs' ?core = Some c" by blast
  with x show ?thesis by (simp only: snd_conv not_None_eq)
qed

subsection \<open>Supervision\<close>

definition frames :: "svc_event list \<Rightarrow> nat" where
  "frames evs = length (filter (\<lambda>e. case e of EmitError _ \<Rightarrow> True | _ \<Rightarrow> False) evs)"

lemma frames_simps [simp]:
  "frames [] = 0" "frames (e # evs) = (case e of EmitError _ \<Rightarrow> 1 | _ \<Rightarrow> 0) + frames evs" "frames (a @ b) = frames a + frames b"
  by (auto simp: frames_def split: svc_event.split)

text \<open>An error counts as reported exactly when one frame was emitted for it.\<close>

definition reported :: "(svc_error, unit) go \<Rightarrow> svc_event list \<Rightarrow> bool" where
  "reported r evs = (case r of Ret _ \<Rightarrow> frames evs = 0 | Err (Reported _) \<Rightarrow> frames evs = 1 | _ \<Rightarrow> False)"

lemma reported_simps [simp]:
  "reported (Ret u) evs = (frames evs = 0)" "reported (Err (Reported e)) evs = (frames evs = 1)"
  "\<not> reported (Err (Plain e)) evs" "\<not> reported Panic evs"
  by (simp_all add: reported_def)

lemma runCheck_cases:
  "(\<exists>e f. runCheck w absolute = (Err (Reported e), [EmitError f])) \<or>
   (\<exists>e f. runCheck w absolute = (Err (Reported e), [RunCore ''check'', EmitError f])) \<or>
   fst (sw_coreCheck w absolute) = None \<and> runCheck w absolute = (Ret (), [RunCore ''check'', Print ''HONGDA_CHECK_OK''])"
  by (simp add: runCheck_def reportError_def Let_def split: sum.split prod.split option.split)

text \<open>What happens once the configuration was accepted.\<close>

lemma start_core_cases:
  "(\<exists>e f. start_core w absolute = (Err (Reported e), [EmitError f])) \<or>
   (\<exists>e f. start_core w absolute = (Err (Reported e), [StartCore absolute, Kill, Wait, EmitError f])) \<or>
   (\<exists>e f x. start_core w absolute = (Err (Reported e), [StartCore absolute, AttachJob, Ready, EmitError f, CloseJob]) \<and> sw_wake w = Exited x) \<or>
   (\<exists>x. start_core w absolute = (Ret (), [StartCore absolute, AttachJob, Ready, CloseJob]) \<and> sw_wake w = Exited x) \<or>
   (\<exists>k\<in>{Wait, Kill}. start_core w absolute = (Ret (), [StartCore absolute, AttachJob, Ready, Kill, k, Print ''HONGDA_STOPPED'', CloseJob]))"
  by (simp add: start_core_def supervise_def reportError_def Let_def split: prod.split option.split svc_wake.split)

lemma runCheck_reported: "reported (fst (runCheck w absolute)) (snd (runCheck w absolute))"
  using runCheck_cases [of w absolute] by auto

lemma start_core_reported: "reported (fst (start_core w absolute)) (snd (start_core w absolute))"
  using start_core_cases [of w absolute] by auto

lemma svc_then_reported: "reported (fst a) (snd a) \<Longrightarrow> reported (fst b) (snd b) \<Longrightarrow> reported (fst (svc_then a b)) (snd (svc_then a b))"
  by (cases a; cases b) (auto simp: svc_then_def reported_def split: go.splits svc_error.splits)

lemma with_core_reported:
  assumes "\<And>f a. reported (fst (body f a)) (snd (body f a))" and "with_core w bin config fs body = (r, evs, fs')"
  shows "reported r evs"
proof -
  have "reported r' evs'" if "body f a = (r', evs')" for f a r' evs' using assms(1) [of f a] that by simp
  then show ?thesis
    using assms(2) ensureRuntime_no_panic [of w bin fs] by (auto simp: with_core_def reportError_def split: prod.splits go.splits sum.splits)
qed

lemma doctor_reported: "doctor w bin config fs = (r, evs, fs') \<Longrightarrow> reported r evs"
  unfolding doctor_def
  by (erule with_core_reported [rotated])
     (auto simp: reportError_def Let_def split: sum.splits bool.splits intro!: svc_then_reported runCheck_reported)

lemma checkConfig_reported: "checkConfig w bin config fs = (r, evs, fs') \<Longrightarrow> reported r evs"
  unfolding checkConfig_def by (erule with_core_reported [rotated]) (rule runCheck_reported)

lemma runService_reported: "runService w bin config fs = (r, evs, fs') \<Longrightarrow> reported r evs"
  unfolding runService_def
  by (erule with_core_reported [rotated]) (intro svc_then_reported runCheck_reported start_core_reported)

text \<open>Where the core is started: after its check, and never left running unattended.\<close>

definition attended :: "svc_world \<Rightarrow> svc_event list \<Rightarrow> bool" where
  "attended w evs =
     (\<forall>p. StartCore p \<in> set evs \<longrightarrow> fst (sw_coreCheck w p) = None \<and>
        (\<exists>post. evs = [RunCore ''check'', Print ''HONGDA_CHECK_OK'', StartCore p] @ post \<and>
           (Kill \<in> set post \<or> (\<exists>x. sw_wake w = Exited x)) \<and> (Ready \<in> set post \<longrightarrow> AttachJob \<in> set post \<and> last post = CloseJob)))"

lemma attended_no_start: "(\<And>p. StartCore p \<notin> set evs) \<Longrightarrow> attended w evs"
  by (simp add: attended_def)

lemma runService_attended: "attended w (snd (svc_then (runCheck w absolute) (start_core w absolute)))"
  using runCheck_cases [of w absolute] start_core_cases [of w absolute]
  by (auto simp: svc_then_def attended_def)

lemma with_core_attended:
  assumes "\<And>f a. attended w (snd (body f a))" and "with_core w bin config fs body = (r, evs, fs')"
  shows "attended w evs"
proof -
  have "attended w evs'" if "body f a = (r', evs')" for f a r' evs' using assms(1) [of f a] that by simp
  then show ?thesis
    using assms(2) by (auto simp: with_core_def reportError_def attended_def split: prod.splits go.splits sum.splits)
qed

lemma runCheck_no_start: "StartCore p \<notin> set (snd (runCheck w absolute))"
  using runCheck_cases [of w absolute] by auto

lemma svc_commands_attended:
  "runService w bin config fs = (r, evs, fs') \<Longrightarrow> attended w evs"
  "checkConfig w bin config fs = (r, evs, fs') \<Longrightarrow> attended w evs"
  "doctor w bin config fs = (r, evs, fs') \<Longrightarrow> attended w evs"
proof -
  show "runService w bin config fs = (r, evs, fs') \<Longrightarrow> attended w evs"
    unfolding runService_def by (erule with_core_attended [rotated]) (rule runService_attended)
  show "checkConfig w bin config fs = (r, evs, fs') \<Longrightarrow> attended w evs"
    unfolding checkConfig_def by (erule with_core_attended [rotated]) (rule attended_no_start, rule runCheck_no_start)
  have no: "StartCore p \<notin> set (snd (case sw_stat w a of Inl e \<Rightarrow> reportError (frame ''config_missing'' e) e
       | Inr True \<Rightarrow> (let msg = ''config file not found: '' @ a in reportError (frame ''config_missing'' msg) msg)
       | Inr False \<Rightarrow> svc_then (runCheck w a) (Ret (), [DoctorReport f a])))" for f a p
    using runCheck_cases [of w a] by (auto simp: svc_then_def reportError_def Let_def split: sum.split bool.split)
  show "doctor w bin config fs = (r, evs, fs') \<Longrightarrow> attended w evs"
    unfolding doctor_def by (erule with_core_attended [rotated]) (rule attended_no_start, rule no)
qed

definition contract :: "svc_world \<Rightarrow> files \<Rightarrow> nat \<times> svc_event list \<times> files \<Rightarrow> bool" where
  "contract w fs out =
     (case out of (code, evs, fs') \<Rightarrow>
        code \<le> 2 \<and> frames evs = (if code = 1 then 1 else 0) \<and> (code = 2 \<longrightarrow> evs = [Usage] \<and> fs' = fs) \<and> attended w evs)"

lemma contract_exit:
  assumes "\<And>r evs fs'. x = (r, evs, fs') \<Longrightarrow> reported r evs \<and> attended w evs"
  shows "contract w fs (svc_exit x)"
proof -
  obtain r evs fs' where x: "x = (r, evs, fs')" by (cases x)
  with assms have "reported r evs" "attended w evs" by blast+
  with x show ?thesis by (auto simp: contract_def svc_exit_def reported_def split: go.splits svc_error.splits)
qed

lemma contract_printVersion:
  assumes "\<And>b. length (sw_sha256Hex w b) = 64"
  shows "contract w fs (svc_exit (printVersion w bin fs))"
proof -
  have "length (rf_CoreSHA f) = 64" if "ensureRuntime w bin fs = (Ret f, fs1)" for f fs1
    using that by (cases rule: ensureRuntime_cases) (auto simp: assms split: option.splits)
  then show ?thesis
    using ensureRuntime_no_panic [of w bin fs]
    by (auto simp: printVersion_def contract_def svc_exit_def attended_def split: prod.splits go.splits option.splits)
qed

text \<open>
  C22: the supervisor reports and cleans up. Whatever the command line and whatever fails, a run exits with code 1
  exactly after one error frame, with code 2 only for a wrong command line, having done nothing but print the
  usage, and with code 0 otherwise and then without an error frame. The core is started only by a run whose
  configuration the core itself accepted; before the supervisor returns the core has exited on its own or was
  killed, and readiness is announced only for a core inside the job, whose handle is closed as the last step, so
  that no core outlives its supervisor. The hypothesis is the length of a SHA-256 sum in hexadecimal.
\<close>

theorem supervisor_contract:
  assumes "\<And>b. length (sw_sha256Hex w b) = 64" and "svc_main w bin args fs = (code, evs, fs')"
  shows "code \<le> 2 \<and> frames evs = (if code = 1 then 1 else 0) \<and> (code = 2 \<longrightarrow> evs = [Usage] \<and> fs' = fs) \<and>
    (\<forall>p. StartCore p \<in> set evs \<longrightarrow> fst (sw_coreCheck w p) = None \<and>
       (\<exists>post. evs = [RunCore ''check'', Print ''HONGDA_CHECK_OK'', StartCore p] @ post \<and>
          (Kill \<in> set post \<or> (\<exists>x. sw_wake w = Exited x)) \<and> (Ready \<in> set post \<longrightarrow> AttachJob \<in> set post \<and> last post = CloseJob)))"
proof -
  note reported = doctor_reported checkConfig_reported runService_reported
  have cmd: "contract w fs (svc_exit (doctor w bin config fs))"
    "contract w fs (svc_exit (checkConfig w bin config fs))" "contract w fs (svc_exit (runService w bin config fs))" for config
    by (intro contract_exit conjI; blast intro: reported svc_commands_attended)+
  have "contract w fs (2, [Usage], fs)" "contract w fs (0, [Features], fs)" by (simp_all add: contract_def attended_def)
  with cmd contract_printVersion [OF assms(1)] have "contract w fs (svc_main w bin args fs)" by (simp add: svc_main_def Let_def split: list.split)
  then show ?thesis using assms(2) by (simp add: contract_def attended_def)
qed

theorem supervisor_contract_witness:
  "\<exists>post. fst (snd (svc_main demo_svc (replicate minCore 1) [''run'', ''-c'', ''x.json''] (\<lambda>_. None))) =
    [RunCore ''check'', Print ''HONGDA_CHECK_OK'', StartCore ''x.json''] @ post \<and> Kill \<in> set post"
proof -
  let ?out = "svc_main demo_svc (replicate minCore 1) [''run'', ''-c'', ''x.json''] (\<lambda>_. None)"
  obtain code evs fs' where x: "?out = (code, evs, fs')" by (cases ?out)
  have sha: "length (sw_sha256Hex demo_svc b) = 64" for b by (simp add: demo_svc_def)
  have path: "configPath [''-c'', ''x.json''] = ''x.json''" by code_simp
  have cmd: "ToLower (TrimSpace ''run'') = ''run''" by code_simp
  obtain f fs1 where e: "ensureRuntime demo_svc (replicate minCore 1) (\<lambda>_. None) = (Ret f, fs1)" using demo_extracts by blast
  let ?evs = "[RunCore ''check'', Print ''HONGDA_CHECK_OK'', StartCore ''x.json'', AttachJob, Ready, Kill, Kill, Print ''HONGDA_STOPPED'', CloseJob]"
  have run: "svc_then (runCheck demo_svc ''x.json'') (start_core demo_svc ''x.json'') = (Ret (), ?evs)" by code_simp
  have "sw_abs demo_svc ''x.json'' = Inr ''x.json''" by (simp add: demo_svc_def)
  then have "runService demo_svc (replicate minCore 1) ''x.json'' (\<lambda>_. None) = (Ret (), ?evs, fs1)"
    by (simp add: runService_def with_core_def e run)
  then have "?out = (0, ?evs, fs1)" by (simp add: svc_main_def cmd path svc_exit_def)
  with x have "StartCore ''x.json'' \<in> set evs" by auto
  moreover have "sw_wake demo_svc = Signal" by (simp add: demo_svc_def)
  ultimately show ?thesis using supervisor_contract [OF sha x] unfolding x fst_conv snd_conv by (metis svc_wake.distinct(1))
qed

end
