(* ===== verification/Dialing.thy ===== *)
theory Dialing
  imports Hysteria2 Gun
begin

text \<open>
  How the outbounds open connections: sessions, streams and UDP associations of Hysteria2 and TUIC
  (\<^verbatim>\<open>dialSession\<close>, \<^verbatim>\<open>dialQUIC\<close>, \<^verbatim>\<open>dialTCP\<close>, \<^verbatim>\<open>dialUDP\<close>, \<^verbatim>\<open>DialContext\<close> of \<^verbatim>\<open>protocol/hysteria2.go\<close> and
  \<^verbatim>\<open>protocol/tuic.go\<close>), the plain TLS dial of \<^verbatim>\<open>protocol/util.go\<close>, the start of a Gun stream
  (\<^verbatim>\<open>protocol/transport_grpc.go\<close>) and direct connections (\<^verbatim>\<open>protocol/direct.go\<close>). Every operation is modelled with the
  connections it opens and closes, in order. QUIC, TLS, HTTP and the sockets are fields of a world.
\<close>

section \<open>Model\<close>

text \<open>
  A QUIC or TCP connection, the UDP socket under an obfuscated one, and a stream of a connection; closing a stream is
  \<^verbatim>\<open>stream.Close\<close>, which ends what is sent on it.
\<close>

datatype dial_res = DConn | DSocket | DStream

datatype dial_event = DOpen dial_res | DClose dial_res

type_synonym 'a dialed = "(conn_error, 'a) go \<times> dial_event list"

record dial_world =
  dw_dial :: "string \<Rightarrow> string \<Rightarrow> bool \<Rightarrow> bool"
  dw_resolve :: "string \<Rightarrow> addr option"
  dw_listen :: "string \<Rightarrow> bool"
  dw_roundTrip :: "(string \<times> string) list \<Rightarrow> nat option"
  dw_padding :: string
  dw_uniStream :: bool
  dw_export :: "string \<Rightarrow> bytes \<Rightarrow> bytes option"
  dw_openStream :: bool
  dw_write :: "bytes \<Rightarrow> bool"
  dw_reply :: bytes
  dw_varint :: varint
  dw_random :: "(nat \<Rightarrow> u8) option"
  dw_now :: int

text \<open>Random identifiers, with the clock when the generator fails.\<close>

definition randomUint32 :: "dial_world \<Rightarrow> u32" where
  "randomUint32 w = (case dw_random w of Some b \<Rightarrow> word_of_nat (be32 (b 0) (b 1) (b 2) (b 3)) | None \<Rightarrow> word_of_int (dw_now w))"

definition randomUint16 :: "dial_world \<Rightarrow> u16" where
  "randomUint16 w = (case dw_random w of Some b \<Rightarrow> word_of_nat (be16 (b 0) (b 1)) | None \<Rightarrow> word_of_int (dw_now w))"

subsection \<open>Hysteria2\<close>

definition listen_network :: "addr \<Rightarrow> string" where
  "listen_network ip = (case Unmap ip of Addr4 _ \<Rightarrow> ''udp4'' | _ \<Rightarrow> ''udp6'')"

text \<open>The result says whether the connection runs over a socket of its own.\<close>

definition dialQUIC :: "dial_world \<Rightarrow> Hysteria2 \<Rightarrow> string \<Rightarrow> string \<times> bool \<Rightarrow> bool dialed" where
  "dialQUIC w h addr ident =
     (if hy_obfsPassword h = [] then
        (if dw_dial w addr (fst ident) (snd ident) then (Ret False, [DOpen DConn]) else (Err (Refused ''dial''), []))
      else case dw_resolve w addr of
        None \<Rightarrow> (Err (Refused ''resolve''), [])
      | Some ip \<Rightarrow>
          (if \<not> dw_listen w (listen_network ip) then (Err (Refused ''listen''), [])
           else case newSalamanderPacketConn False (hy_obfsPassword h) of
             Ret _ \<Rightarrow>
               (if dw_dial w addr (fst ident) (snd ident) then (Ret True, [DOpen DSocket, DOpen DConn])
                else (Err (Refused ''dial''), [DOpen DSocket, DClose DSocket]))
           | Err e \<Rightarrow> (Err e, [DOpen DSocket, DClose DSocket])
           | Panic \<Rightarrow> (Panic, [DOpen DSocket])))"

definition hysteria2Session_close :: "bool \<Rightarrow> dial_event list" where
  "hysteria2Session_close socket = DClose DConn # (if socket then [DClose DSocket] else [])"

definition hysteria2_dialSession :: "dial_world \<Rightarrow> Hysteria2 \<Rightarrow> bool dialed" where
  "hysteria2_dialSession w h =
     (let addr = JoinHostPort (hy_server h) (Itoa (hy_port h)) in
      case dialQUIC w h addr (tls_identity (hy_server h) (hy_tls h)) of
        (Ret socket, evs) \<Rightarrow>
          (case hysteria2Auth (dw_roundTrip w) (hy_password h) (dw_padding w) of
             Ret _ \<Rightarrow> (Ret socket, evs)
           | Err e \<Rightarrow> (Err e, evs @ DClose DConn # (if socket then [DClose DSocket] else []))
           | Panic \<Rightarrow> (Panic, evs))
      | (Err e, evs) \<Rightarrow> (Err e, evs)
      | (Panic, evs) \<Rightarrow> (Panic, evs))"

text \<open>
  What \<^verbatim>\<open>DialContext\<close> returns: a stream with what was sent on it and what arrived behind the reply, or a UDP
  association with its session, identifier and target.
\<close>

datatype 's link = StreamOf bytes bytes | PacketOf 's nat string

definition hysteria2_dialTCP :: "dial_world \<Rightarrow> (conn_error, unit) go \<Rightarrow> string \<Rightarrow> bool link dialed" where
  "hysteria2_dialTCP w sess address =
     (case sess of
        Ret _ \<Rightarrow>
          (if \<not> dw_openStream w then (Err (Refused ''open stream''), [])
           else case writeHysteria2TCPRequest (dw_varint w) (dw_write w) address of
             Ret sent \<Rightarrow>
               (case readHysteria2TCPResponse (dw_varint w) (dw_reply w) of
                  Ret rest \<Rightarrow> (Ret (StreamOf sent rest), [DOpen DStream])
                | Err e \<Rightarrow> (Err e, [DOpen DStream, DClose DStream])
                | Panic \<Rightarrow> (Panic, [DOpen DStream]))
           | Err e \<Rightarrow> (Err e, [DOpen DStream, DClose DStream])
           | Panic \<Rightarrow> (Panic, [DOpen DStream]))
      | Err e \<Rightarrow> (Err e, [])
      | Panic \<Rightarrow> (Panic, []))"

text \<open>A UDP association has a session of its own; \<open>ident\<close> is the random identifier.\<close>

definition udp_link :: "'s dialed \<Rightarrow> nat \<Rightarrow> string \<Rightarrow> 's link dialed" where
  "udp_link d ident address =
     (case d of (Ret s, evs) \<Rightarrow> (Ret (PacketOf s ident address), evs) | (Err e, evs) \<Rightarrow> (Err e, evs) | (Panic, evs) \<Rightarrow> (Panic, evs))"

definition hysteria2_dialUDP :: "dial_world \<Rightarrow> Hysteria2 \<Rightarrow> string \<Rightarrow> bool link dialed" where
  "hysteria2_dialUDP w h address = udp_link (hysteria2_dialSession w h) (unat (randomUint32 w)) address"

definition hysteria2_DialContext :: "dial_world \<Rightarrow> Hysteria2 \<Rightarrow> (conn_error, unit) go \<Rightarrow> string \<Rightarrow> string \<Rightarrow> bool link dialed" where
  "hysteria2_DialContext w h sess network address =
     (if network = ''tcp'' then hysteria2_dialTCP w sess address
      else if network = ''udp'' then hysteria2_dialUDP w h address
      else (Err (Refused ''hysteria2 supports tcp and udp only''), []))"

definition hysteria2UDP_Close :: "bool \<Rightarrow> dial_event list" where
  "hysteria2UDP_Close socket = DClose DConn # (if socket then [DClose DSocket] else [])"

subsection \<open>TUIC\<close>

text \<open>The connection owns its authentication stream, which ends with it.\<close>

definition tuic_dialSession :: "dial_world \<Rightarrow> TUIC \<Rightarrow> unit dialed" where
  "tuic_dialSession w t =
     (let addr = JoinHostPort (tu_server t) (Itoa (tu_port t)); ident = tls_identity (tu_server t) (tu_tls t) in
      if \<not> dw_dial w addr (fst ident) (snd ident) then (Err (Refused ''tuic: dial quic''), [])
      else if \<not> dw_uniStream w then (Err (Refused ''open auth stream''), [DOpen DConn, DClose DConn])
      else case writeAuthenticate (dw_export w) t (dw_write w) of
        Ret _ \<Rightarrow> (Ret (), [DOpen DConn])
      | Err e \<Rightarrow> (Err e, [DOpen DConn, DClose DConn])
      | Panic \<Rightarrow> (Panic, [DOpen DConn]))"

definition tuic_dialTCP :: "dial_world \<Rightarrow> (conn_error, unit) go \<Rightarrow> string \<Rightarrow> unit link dialed" where
  "tuic_dialTCP w sess address =
     (case sess of
        Ret _ \<Rightarrow>
          (if \<not> dw_openStream w then (Err (Refused ''open stream''), [])
           else case writeTUICConnect (dw_write w) address of
             Ret sent \<Rightarrow> (Ret (StreamOf sent (dw_reply w)), [DOpen DStream])
           | Err e \<Rightarrow> (Err e, [DOpen DStream, DClose DStream])
           | Panic \<Rightarrow> (Panic, [DOpen DStream]))
      | Err e \<Rightarrow> (Err e, [])
      | Panic \<Rightarrow> (Panic, []))"

definition tuic_dialUDP :: "dial_world \<Rightarrow> TUIC \<Rightarrow> string \<Rightarrow> unit link dialed" where
  "tuic_dialUDP w t address = udp_link (tuic_dialSession w t) (unat (randomUint16 w)) address"

definition tuic_DialContext :: "dial_world \<Rightarrow> TUIC \<Rightarrow> (conn_error, unit) go \<Rightarrow> string \<Rightarrow> string \<Rightarrow> unit link dialed" where
  "tuic_DialContext w t sess network address =
     (if network = ''tcp'' then tuic_dialTCP w sess address
      else if network = ''udp'' then tuic_dialUDP w t address
      else (Err (Refused ''tuic supports tcp and udp only''), []))"

definition tuicUDP_Close :: "unit \<Rightarrow> dial_event list" where
  "tuicUDP_Close _ = [DClose DConn]"

subsection \<open>TLS, Gun streams and direct connections\<close>

definition dialTLSDirect :: "dial_world \<Rightarrow> (string \<Rightarrow> bool) \<Rightarrow> string \<Rightarrow> nat \<Rightarrow> TLSOptions option \<Rightarrow> (string \<times> bool) option dialed" where
  "dialTLSDirect w connect host port tlsOpts =
     (let addr = JoinHostPort host (Itoa port) in
      if \<not> connect addr then (Err (Refused ''connect''), [])
      else case tlsOpts of
        None \<Rightarrow> (Ret None, [DOpen DConn])
      | Some t \<Rightarrow>
          (if \<not> t_Enabled t then (Ret None, [DOpen DConn])
           else
             (let serverName = (if t_ServerName t = [] then host else t_ServerName t) in
              if dw_dial w addr serverName (t_Insecure t) then (Ret (Some (serverName, t_Insecure t)), [DOpen DConn])
              else (Err (Refused ''handshake''), [DOpen DConn, DClose DConn]))))"

record grpc_request =
  gr_Scheme :: string
  gr_Authority :: string
  gr_Path :: string
  gr_Headers :: "(string \<times> string) list"

text \<open>\<^verbatim>\<open>grpcDial\<close> on an open base connection; \<open>newRequest\<close> says whether \<^verbatim>\<open>http.NewRequestWithContext\<close> accepts the URL.\<close>

definition grpcDial :: "(grpc_request \<Rightarrow> bool) \<Rightarrow> bool \<Rightarrow> string \<Rightarrow> nat \<Rightarrow> TransportOptions \<Rightarrow> grpc_request dialed" where
  "grpcDial newRequest isTLS host port transport =
     (let req = \<lparr>gr_Scheme = (if isTLS then ''https'' else ''http''), gr_Authority = JoinHostPort host (Itoa port),
                 gr_Path = grpc_service_path transport,
                 gr_Headers = [(''Content-Type'', ''application/grpc''), (''Te'', ''trailers''), (''Grpc-Timeout'', ''0'')]\<rparr> in
      if newRequest req then (Ret req, []) else (Err (Refused ''grpc: create request''), [DClose DConn]))"

text \<open>\<^verbatim>\<open>gunConn.Close\<close>: which of its parts it closes; \<open>closeOnce\<close> is the flag of the \<^verbatim>\<open>sync.Once\<close>.\<close>

definition gun_Close :: "bool \<Rightarrow> bool \<Rightarrow> string list \<times> bool" where
  "gun_Close closeOnce hasBody =
     (if closeOnce then ([], True) else (''request'' # (if hasBody then [''body''] else []) @ [''conn''], True))"

text \<open>\<^verbatim>\<open>Direct\<close>: the system dialer gets the index of the bound interface, zero for none.\<close>

record Direct =
  di_id :: string
  di_interfaceIndex :: int

definition NewDirect :: "string \<Rightarrow> Direct" where
  "NewDirect id' = \<lparr>di_id = id', di_interfaceIndex = 0\<rparr>"

definition SetInterfaceIndex :: "int \<Rightarrow> Direct \<Rightarrow> Direct" where
  "SetInterfaceIndex index d = d\<lparr>di_interfaceIndex := index\<rparr>"

definition Direct_DialContext :: "(int \<Rightarrow> string \<Rightarrow> string \<Rightarrow> bool) \<Rightarrow> Direct \<Rightarrow> string \<Rightarrow> string \<Rightarrow> unit dialed" where
  "Direct_DialContext system d network address =
     (if system (di_interfaceIndex d) network address then (Ret (), [DOpen DConn]) else (Err (Refused ''dial''), []))"

section \<open>Sessions are released\<close>

text \<open>How many of a kind of resource a sequence of events leaves open.\<close>

definition held :: "dial_event list \<Rightarrow> dial_res \<Rightarrow> int" where
  "held evs r = int (count_list evs (DOpen r)) - int (count_list evs (DClose r))"

lemma held_simps [simp]:
  "held [] r = 0" "held (a @ b) r = held a r + held b r"
  "held (DOpen q # evs) r = (if q = r then 1 else 0) + held evs r" "held (DClose q # evs) r = (if q = r then - 1 else 0) + held evs r"
  by (auto simp: held_def)

text \<open>What a caller of \<^verbatim>\<open>DialContext\<close> may rely on, for the streams and the associations of a protocol.\<close>

definition dial_contract :: "(bytes \<Rightarrow> bytes \<Rightarrow> bool) \<Rightarrow> ('s \<Rightarrow> nat \<Rightarrow> bool) \<Rightarrow> ('s \<Rightarrow> dial_event list) \<Rightarrow> string \<Rightarrow> string \<Rightarrow> 's link dialed \<Rightarrow> bool" where
  "dial_contract stream packets close network address d =
     (case d of
        (Ret (StreamOf sent rest), evs) \<Rightarrow> network = ''tcp'' \<and> evs = [DOpen DStream] \<and> stream sent rest
      | (Ret (PacketOf s ident target), evs) \<Rightarrow>
          network = ''udp'' \<and> target = address \<and> packets s ident \<and> held evs DConn = 1 \<and> (\<forall>r. held (evs @ close s) r = 0)
      | (Err e, evs) \<Rightarrow> (\<forall>r. held evs r = 0)
      | (Panic, evs) \<Rightarrow> False)"

text \<open>
  The contract of a protocol's \<^verbatim>\<open>dialSession\<close> towards the code that uses it: it does not panic, a failed dial leaves
  nothing open, a session holds one connection, and closing it releases everything the dial opened.
\<close>

locale session_dialer =
  fixes dial :: "'s dialed" and close :: "'s \<Rightarrow> dial_event list"
  assumes no_panic: "fst dial \<noteq> Panic"
    and failed: "fst dial = Err e \<Longrightarrow> held (snd dial) r = 0"
    and opened: "fst dial = Ret s \<Longrightarrow> held (snd dial) DConn = 1"
    and released: "fst dial = Ret s \<Longrightarrow> held (snd dial @ close s) r = 0"
begin

lemma udp_contract:
  assumes "\<And>s. fst dial = Ret s \<Longrightarrow> packets s ident"
  shows "dial_contract stream packets close ''udp'' address (udp_link dial ident address)"
proof (cases dial)
  case (Pair r evs)
  with no_panic failed opened released assms show ?thesis by (cases r) (auto simp: udp_link_def dial_contract_def simp del: held_simps)
qed

end

lemma dialQUIC_cases:
  "(\<exists>e evs. dialQUIC w h a i = (Err e, evs) \<and> (\<forall>r. held evs r = 0)) \<or> dialQUIC w h a i = (Ret False, [DOpen DConn]) \<or>
   dialQUIC w h a i = (Ret True, [DOpen DSocket, DOpen DConn])"
  by (simp add: dialQUIC_def newSalamanderPacketConn_def split: option.split)

lemma hysteria2Auth_np [simp]: "hysteria2Auth rt p pad \<noteq> Panic"
  by (simp add: hysteria2Auth_def split: option.split)

lemma hysteria2_dialSession_cases:
  "(\<exists>e evs. hysteria2_dialSession w h = (Err e, evs) \<and> (\<forall>r. held evs r = 0)) \<or>
   hysteria2Auth (dw_roundTrip w) (hy_password h) (dw_padding w) = Ret () \<and>
     (hysteria2_dialSession w h = (Ret False, [DOpen DConn]) \<or> hysteria2_dialSession w h = (Ret True, [DOpen DSocket, DOpen DConn]))"
  using dialQUIC_cases [of w h "JoinHostPort (hy_server h) (Itoa (hy_port h))" "tls_identity (hy_server h) (hy_tls h)"]
    hysteria2Auth_np [of "dw_roundTrip w" "hy_password h" "dw_padding w"]
  by (cases "hysteria2Auth (dw_roundTrip w) (hy_password h) (dw_padding w)") (auto simp: hysteria2_dialSession_def Let_def)

interpretation hysteria2_session: session_dialer "hysteria2_dialSession w h" hysteria2UDP_Close for w h
  using hysteria2_dialSession_cases [of w h] by unfold_locales (auto simp: hysteria2UDP_Close_def)

lemma send_np [simp]: "send wok cs out \<noteq> Panic"
  by (induction cs arbitrary: out) auto

lemma writeAuthenticate_np [simp]: "writeAuthenticate ex t wok \<noteq> Panic"
  by (simp add: writeAuthenticate_def split: option.split)

lemma tuic_dialSession_cases:
  "(\<exists>e evs. tuic_dialSession w t = (Err e, evs) \<and> (\<forall>r. held evs r = 0)) \<or>
   (\<exists>sent. writeAuthenticate (dw_export w) t (dw_write w) = Ret sent) \<and> tuic_dialSession w t = (Ret (), [DOpen DConn])"
  using writeAuthenticate_np [of "dw_export w" t "dw_write w"]
  by (cases "writeAuthenticate (dw_export w) t (dw_write w)") (auto simp: tuic_dialSession_def Let_def)

interpretation tuic_session: session_dialer "tuic_dialSession w t" tuicUDP_Close for w t
  using tuic_dialSession_cases [of w t] by unfold_locales (auto simp: tuicUDP_Close_def)

lemma readHysteria2TCPResponse_np: "(\<And>b. v_Read v b \<noteq> Panic) \<Longrightarrow> readHysteria2TCPResponse v r \<noteq> Panic"
  by (auto simp: readHysteria2TCPResponse_def skip_block_def idx_def ReadFull_eq_Ret split: if_splits)

lemma hysteria2_dialTCP_cases:
  assumes "\<And>b. v_Read (dw_varint w) b \<noteq> Panic" and "sess \<noteq> Panic"
  shows "(\<exists>e evs. hysteria2_dialTCP w sess address = (Err e, evs) \<and> (\<forall>r. held evs r = 0)) \<or>
    (\<exists>sent rest. writeHysteria2TCPRequest (dw_varint w) (dw_write w) address = Ret sent \<and>
       readHysteria2TCPResponse (dw_varint w) (dw_reply w) = Ret rest \<and>
       hysteria2_dialTCP w sess address = (Ret (StreamOf sent rest), [DOpen DStream]))"
  using assms readHysteria2TCPResponse_np [OF assms(1), of "dw_reply w"] send_np
  by (auto simp: hysteria2_dialTCP_def writeHysteria2TCPRequest_def split: go.split)

lemma tuic_dialTCP_cases:
  assumes "sess \<noteq> Panic"
  shows "(\<exists>e evs. tuic_dialTCP w sess address = (Err e, evs) \<and> (\<forall>r. held evs r = 0)) \<or>
    (\<exists>sent. writeTUICConnect (dw_write w) address = Ret sent \<and> tuic_dialTCP w sess address = (Ret (StreamOf sent (dw_reply w)), [DOpen DStream]))"
proof -
  have "writeTUICConnect (dw_write w) address \<noteq> Panic" by (simp add: writeTUICConnect_def)
  with assms show ?thesis by (auto simp: tuic_dialTCP_def split: go.split)
qed


definition demo_dial :: dial_world where
  "demo_dial = \<lparr>dw_dial = (\<lambda>_ name insecure. name = ''s'' \<and> \<not> insecure), dw_resolve = (\<lambda>_. Some (Addr4 [9, 9, 9, 9])), dw_listen = (\<lambda>n. n = ''udp4''),
     dw_roundTrip = (\<lambda>_. Some 233), dw_padding = ''aa'', dw_uniStream = True, dw_export = (\<lambda>_ _. Some []), dw_openStream = True,
     dw_write = (\<lambda>_. True), dw_reply = [0, 0, 0, 7], dw_varint = varint1, dw_random = Some (\<lambda>i. if i = 3 then 1 else 0), dw_now = 0\<rparr>"

definition demo_hysteria2 :: Hysteria2 where
  "demo_hysteria2 = \<lparr>hy_id = ''h'', hy_server = ''s'', hy_port = 443, hy_password = ''p'', hy_obfsPassword = ''o'', hy_tls = None\<rparr>"


end
