(* ===== verification/DoH.thy ===== *)
theory DoH
  imports DNS_Cache Model
begin

text \<open>
  The HTTP side of DNS-over-HTTPS (first part of \<^verbatim>\<open>route/dns.go\<close>): the server URL, one exchange, the stand-alone address
  lookup; and the life of the cache writer (\<^verbatim>\<open>EnableDNSPersistence\<close>, \<^verbatim>\<open>stopDNSPersistence\<close> of
  \<^verbatim>\<open>route/dns_persistence.go\<close>). URL parsing and the HTTP client are parameters.
\<close>

section \<open>Model\<close>

datatype doh_error = DoHError string | DoHWire dns_error

text \<open>What the HTTP client returns: the status, and the body or \<^const>\<open>None\<close> when reading it fails.\<close>

record doh_reply =
  dr_status :: nat
  dr_body :: "bytes option"

record doh_world =
  dh_parse :: "string \<Rightarrow> string option"
  dh_request :: "string \<Rightarrow> bool"
  dh_do :: "string \<Rightarrow> (string \<times> string) list \<Rightarrow> bytes \<Rightarrow> doh_reply option"

definition doh_url :: "doh_world \<Rightarrow> DNSOptions \<Rightarrow> (doh_error, string) go" where
  "doh_url w options =
     (let server = TrimSpace (dns_Server options) in
      if server = [] then Err (DoHError ''doh server is empty'')
      else
        (let server = (if \<not> HasPrefix server ''http://'' \<and> \<not> HasPrefix server ''https://'' then ''https://'' @ server else server) in
         case dh_parse w server of None \<Rightarrow> Err (DoHError ''parse doh server'') | Some u \<Rightarrow> Ret u))"

definition doh_limit :: nat where
  "doh_limit = 64 * 1024"

definition exchangeDoHURLWithClient :: "doh_world \<Rightarrow> string \<Rightarrow> bytes \<Rightarrow> (doh_error, bytes) go" where
  "exchangeDoHURLWithClient w u query =
     (if \<not> dh_request w u then Err (DoHError ''request'')
      else case dh_do w u [(''Accept'', ''application/dns-message''), (''Content-Type'', ''application/dns-message'')] query of
        None \<Rightarrow> Err (DoHError ''doh query'')
      | Some resp \<Rightarrow>
          (case dr_body resp of
             None \<Rightarrow> Err (DoHError ''read'')
           | Some body \<Rightarrow>
               (let data = take doh_limit body in
                if dr_status resp \<noteq> 200 then Err (DoHError ''doh status'')
                else if length data < 12 then Err (DoHError ''doh response too short'')
                else Ret data)))"

definition exchangeDoH :: "doh_world \<Rightarrow> DNSOptions \<Rightarrow> bytes \<Rightarrow> (doh_error, bytes) go" where
  "exchangeDoH w options query = gbind (doh_url w options) (\<lambda>u. exchangeDoHURLWithClient w u query)"

fun lookup_qtypes :: "doh_world \<Rightarrow> string \<Rightarrow> string \<Rightarrow> nat list \<Rightarrow> (doh_error, bytes list) go" where
  "lookup_qtypes w u host [] = Ret []"
| "lookup_qtypes w u host (qtype # qtypes) =
     gbind (exchangeDoHURLWithClient w u (buildDNSQuery host qtype)) (\<lambda>data.
     gtry (parseDNSAnswers data qtype) (\<lambda>e. Err (DoHWire e)) (\<lambda>parsed.
     gbind (lookup_qtypes w u host qtypes) (\<lambda>ips. Ret (parsed @ ips))))"

definition lookupDoH_once :: "doh_world \<Rightarrow> DNSOptions \<Rightarrow> string \<Rightarrow> (doh_error, bytes list) go" where
  "lookupDoH_once w options host =
     gbind (doh_url w options) (\<lambda>u.
     gbind (lookup_qtypes w u host [1, 28]) (\<lambda>ips.
       if length ips = 0 then Err (DoHError ''doh returned no addresses'') else Ret ips))"

subsection \<open>The cache writer\<close>

text \<open>The path and whether the writer runs; \<open>disk\<close> is the document in the file.\<close>

record dns_persister =
  dp_path :: string
  dp_running :: bool

definition EnableDNSPersistence ::
  "(string \<Rightarrow> string) \<Rightarrow> (string \<Rightarrow> string) \<Rightarrow> (dns_state \<Rightarrow> (dns_error, dns_state) go) \<Rightarrow> string \<Rightarrow> dns_persister \<times> dns_state \<Rightarrow>
   (dns_error, dns_persister \<times> dns_state) go" where
  "EnableDNSPersistence clean join load cacheDir0 ps =
     (let cacheDir = clean cacheDir0 in
      if cacheDir = ''.'' \<or> cacheDir = [] \<or> dp_running (fst ps) then Ret ps
      else gbind (load (snd ps)) (\<lambda>st. Ret (\<lparr>dp_path = join cacheDir, dp_running = True\<rparr>, st)))"

definition markDNSPersistenceDirty :: "dns_state \<Rightarrow> dns_state" where
  "markDNSPersistenceDirty st = st\<lparr>dnsPersistDirty := True\<rparr>"

definition persist_tick :: "dns_persister \<Rightarrow> int \<Rightarrow> bool \<Rightarrow> dns_state \<times> persistedDNSCache option \<Rightarrow> dns_state \<times> persistedDNSCache option" where
  "persist_tick p now writeOK sd =
     (case persistDNSCache (dp_path p) now writeOK (fst sd) of (d, st') \<Rightarrow> (st', if d = None then snd sd else d))"

definition stopDNSPersistence ::
  "int \<Rightarrow> bool \<Rightarrow> dns_persister \<Rightarrow> dns_state \<times> persistedDNSCache option \<Rightarrow> dns_persister \<times> dns_state \<times> persistedDNSCache option" where
  "stopDNSPersistence now writeOK p sd =
     (if \<not> dp_running p then (p, sd) else (p\<lparr>dp_running := False\<rparr>, persist_tick p now writeOK sd))"

section \<open>Lemmas\<close>

text \<open>An exchange returns only a complete header of a successful response, at most 64 KiB of it.\<close>

lemma exchangeDoH_ok:
  assumes "exchangeDoHURLWithClient w u query = Ret data"
  shows "12 \<le> length data \<and> length data \<le> doh_limit"
    and "\<exists>headers resp body. dh_do w u headers query = Some resp \<and> dr_status resp = 200 \<and> dr_body resp = Some body \<and> data = take doh_limit body"
proof -
  from assms obtain resp body where r: "dh_do w u [(''Accept'', ''application/dns-message''), (''Content-Type'', ''application/dns-message'')] query = Some resp"
    "dr_body resp = Some body" "dr_status resp = 200" "data = take doh_limit body" "12 \<le> length data"
    by (auto simp: exchangeDoHURLWithClient_def Let_def not_less split: if_splits option.splits)
  then show "12 \<le> length data \<and> length data \<le> doh_limit" by simp
  from r show "\<exists>headers resp body. dh_do w u headers query = Some resp \<and> dr_status resp = 200 \<and> dr_body resp = Some body \<and> data = take doh_limit body"
    by blast
qed

lemma exchangeDoHURLWithClient_np [simp]: "exchangeDoHURLWithClient w u query \<noteq> Panic"
  by (simp add: exchangeDoHURLWithClient_def Let_def split: option.split)

lemma doh_url_np [simp]: "doh_url w options \<noteq> Panic"
  by (simp add: doh_url_def Let_def split: option.split)

lemma lookup_qtypes_np: "lookup_qtypes w u host qs \<noteq> Panic"
  by (induction qs) auto

lemma lookupDoH_once_safe:
  "lookupDoH_once w options host \<noteq> Panic \<and> lookupDoH_once w options host \<noteq> Ret []"
  using lookup_qtypes_np by (auto simp: lookupDoH_once_def simp del: lookup_qtypes.simps)

text \<open>The last tick writes what is still unsaved: after a stop whose write succeeds nothing is lost.\<close>

lemma stop_flushes:
  assumes "dp_running p" "dp_path p \<noteq> []" "stopDNSPersistence now True p (st, disk) = (p', st', disk')"
  shows "\<not> dp_running p' \<and> \<not> dnsPersistDirty st' \<and> dnsMessages st' = dnsMessages st \<and>
    (dnsPersistDirty st \<longrightarrow> disk' = Some (persist_document now st)) \<and> (\<not> dnsPersistDirty st \<longrightarrow> disk' = disk)"
  using assms by (auto simp: stopDNSPersistence_def persist_tick_def persistDNSCache_def split: if_splits)

lemma stop_failed_write:
  "dp_running p \<Longrightarrow> stopDNSPersistence now False p (st, disk) = (p', st', disk') \<Longrightarrow> disk' = disk"
  by (auto simp: stopDNSPersistence_def persist_tick_def persistDNSCache_def split: if_splits)

end
