(* ===== verification/Command.thy ===== *)
theory Command
  imports Lifecycle Importer
begin

text \<open>
  The command line of the core (\<^verbatim>\<open>cmd/hongda-core/main.go\<close>): loading a configuration file with its importer and
  validation, checking it, and running the proxy until a signal arrives.
\<close>

section \<open>Model\<close>

text \<open>
  \<open>cw_file\<close> gives for a path that can be read the directory for rule sets beside it, the decoded top-level object and
  the decoding into the configuration type; \<open>cw_tun\<close> is \<^verbatim>\<open>tunnel.Supported()\<close>.
\<close>

record core_world =
  cw_uriScheme :: "string \<Rightarrow> string option"
  cw_file :: "string \<Rightarrow> (string \<times> obj option \<times> Config option) option"
  cw_tun :: bool
  cw_start :: start_world

datatype core_error = LoadFailed config_error | CompileFailed runtime_error | PrepareRuleSetsFailed runtime_error | StartFailed start_error

datatype core_event = VersionLine | FeatureLine | UsageLines | CheckOK | ReadyLine | StoppedLine | ErrorLine core_error

fun argConfig :: "string list \<Rightarrow> string" where
  "argConfig [] = ''config.json''"
| "argConfig (a # args) =
     (if a = ''-c'' \<or> a = ''--config'' then (case args of v # _ \<Rightarrow> v | [] \<Rightarrow> ''config.json'')
      else if HasPrefix a ''--config='' then TrimPrefix a ''--config=''
      else argConfig args)"

definition load_path :: "core_world \<Rightarrow> string \<Rightarrow> (config_error, Config) go" where
  "load_path w path =
     (case cw_file w path of
        None \<Rightarrow> Err (Invalid ''read config'')
      | Some (dir, document, native) \<Rightarrow> Load_config (cw_uriScheme w) dir document Import native)"

definition NewRuntime :: "Config \<Rightarrow> runtime" where
  "NewRuntime cfg = \<lparr>ru_cfg = cfg, ru_outbounds = [], ru_router = None, ru_prepared = False, ru_inbounds = [], ru_tunnels = [],
     ru_api = None, ru_refresh = None, ru_log = [], ru_routerClosed = False, ru_closedOutbounds = []\<rparr>"

text \<open>The common beginning of \<^verbatim>\<open>runCheck\<close> and \<^verbatim>\<open>runProxy\<close>: a loaded and built runtime.\<close>

definition load_and_build :: "core_world \<Rightarrow> string \<Rightarrow> (core_error, runtime) go" where
  "load_and_build w path =
     gtry (load_path w path) (\<lambda>e. Err (LoadFailed e)) (\<lambda>cfg.
     gtry (Build (cw_tun w) cfg) (\<lambda>e. Err (CompileFailed e)) (\<lambda>(obs, r).
       Ret ((NewRuntime cfg)\<lparr>ru_outbounds := obs, ru_router := Some r\<rparr>)))"

definition core_runCheck :: "core_world \<Rightarrow> string \<Rightarrow> (core_error, runtime) go" where
  "core_runCheck w path =
     gbind (load_and_build w path) (\<lambda>ru.
     gtry (PrepareRuleSets (sw_results (cw_start w)) (ru_prepared ru) (ru_router ru)) (\<lambda>e. Err (PrepareRuleSetsFailed e)) (\<lambda>(prepared, r).
       Ret (Close_runtime (ru\<lparr>ru_prepared := prepared, ru_router := r\<rparr>))))"

text \<open>\<^verbatim>\<open>runProxy\<close>: the error, if any, what it printed and the runtime it leaves; the signal has arrived when it returns.\<close>

definition runProxy :: "core_world \<Rightarrow> string \<Rightarrow> (core_error, core_error option \<times> core_event list \<times> runtime) go" where
  "runProxy w path =
     gbind (load_and_build w path) (\<lambda>ru.
       case Start (cw_start w) ru of
         (Some e, ru') \<Rightarrow> Ret (Some (StartFailed e), [], ru')
       | (None, ru') \<Rightarrow> Ret (None, [ReadyLine, StoppedLine], Close_runtime ru'))"

definition core_main :: "core_world \<Rightarrow> string list \<Rightarrow> nat \<times> core_event list \<times> runtime option" where
  "core_main w args =
     (case args of
        [] \<Rightarrow> (2, [UsageLines], None)
      | a # rest \<Rightarrow>
          (let command = ToLower (TrimSpace a) in
           if command = ''version'' \<or> command = ''--version'' \<or> command = ''-v'' then (0, [VersionLine], None)
           else if command = ''features'' then (0, [FeatureLine], None)
           else if command = ''check'' then
             (case core_runCheck w (argConfig rest) of
                Ret ru \<Rightarrow> (0, [CheckOK], Some ru)
              | Err e \<Rightarrow> (1, [ErrorLine e], None)
              | Panic \<Rightarrow> (2, [], None))
           else if command = ''run'' then
             (case runProxy w (argConfig rest) of
                Ret (None, evs, ru) \<Rightarrow> (0, evs, Some ru)
              | Ret (Some e, evs, ru) \<Rightarrow> (1, evs @ [ErrorLine e], Some ru)
              | Err e \<Rightarrow> (1, [ErrorLine e], None)
              | Panic \<Rightarrow> (2, [], None))
           else (2, [UsageLines], None)))"

section \<open>Lemmas\<close>

lemma start_inbounds_errors: "start_inbounds listen ins ru = (Some (PrepareFailed e), ru') \<Longrightarrow> False"
  by (induction ins arbitrary: ru) (auto simp: Let_def split: if_splits)

lemma start_tunnels_errors: "start_tunnels new start ins ru = (Some (PrepareFailed e), ru') \<Longrightarrow> False"
  by (induction ins arbitrary: ru) (auto simp: Let_def split: if_splits)

lemma Start_prepared:
  assumes "PrepareRuleSets (sw_results w) (ru_prepared ru) (ru_router ru) = Ret x" and "Start w ru = (Some (PrepareFailed e), ru')"
  shows False
  using assms start_inbounds_errors start_tunnels_errors
  by (auto simp: Start_def Let_def split: prod.splits option.splits if_splits)

lemma closeStarted_cfg [simp]: "ru_cfg (closeStarted ru) = ru_cfg ru" "ru_cfg (stop_inbounds ru) = ru_cfg ru"
    "ru_cfg (stop rs ru) = ru_cfg ru" "ru_cfg (open_one x ru) = ru_cfg ru"
  by (simp_all add: closeStarted_def stop_inbounds_def stop_def open_one_def Let_def split: option.split prod.split)

lemma start_tunnels_cfg: "start_tunnels new start ins ru = (e, ru') \<Longrightarrow> ru_cfg ru' = ru_cfg ru"
  by (induction ins arbitrary: ru) (auto simp: Let_def split: if_splits)

lemma Start_cfg: "Start w ru = (e, ru') \<Longrightarrow> ru_cfg ru' = ru_cfg ru"
  by (auto simp: Start_def Let_def startGroupRefresh_def dest!: start_inbounds_frame start_tunnels_cfg split: go.splits prod.splits option.splits if_splits)

lemma Close_cfg [simp]: "ru_cfg (Close_runtime ru) = ru_cfg ru"
  by (simp add: Close_runtime_def Let_def split: option.split)

lemma load_and_build_Ret:
  assumes "load_and_build w path = Ret ru"
  shows "idle ru" and "config_ok (ru_cfg ru)"
proof -
  from assms obtain cfg obs r where c: "load_path w path = Ret cfg" and ru: "ru = (NewRuntime cfg)\<lparr>ru_outbounds := obs, ru_router := Some r\<rparr>"
    by (auto simp: load_and_build_def gtry_def split: go.splits)
  show "idle ru" by (simp add: ru NewRuntime_def idle_def accounted_def)
  from c have "\<exists>u cfg0. Validate u cfg0 = Ret cfg"
    by (auto simp: load_path_def Load_config_def split: option.splits prod.splits)
  with Validate_ok ru show "config_ok (ru_cfg ru)" by (auto simp: NewRuntime_def)
qed

lemma cmd_words: "ToLower (TrimSpace ''check'') = ''check''" "ToLower (TrimSpace ''run'') = ''run''" "argConfig [''-c'', p] = p"
  by (code_simp, code_simp, simp)


definition demo_core :: core_world where
  "demo_core = \<lparr>cw_uriScheme = (\<lambda>_. None), cw_file = (\<lambda>_. Some (''d'', Some [], Some sample_config)), cw_tun = True,
     cw_start = \<lparr>sw_results = [], sw_listen = (\<lambda>_. True), sw_api = True, sw_tunNew = (\<lambda>_. True), sw_tunStart = (\<lambda>_. True)\<rparr>\<rparr>"

lemma demo_core_checks: "fst (core_main demo_core [''check'', ''-c'', ''x'']) = 0"
  by code_simp


end
