(* ===== verification/API_Stream.thy ===== *)
theory API_Stream
  imports API
begin

text \<open>
  The long-lived side of the control API (\<^verbatim>\<open>api/controller.go\<close>): starting and closing the server, and the two WebSocket
  loops that push a frame per second until the client is gone.
\<close>

section \<open>Model\<close>

text \<open>The address served, if any; \<open>listen\<close> says whether the address can be listened on.\<close>

definition Controller_Start :: "(string \<Rightarrow> bool) \<Rightarrow> APIConfig \<Rightarrow> string option \<Rightarrow> bool \<times> string option" where
  "Controller_Start listen cfg server = (if listen (api_Listen cfg) then (True, Some (api_Listen cfg)) else (False, server))"

definition Controller_Close :: "string option \<Rightarrow> string list \<times> string option" where
  "Controller_Close server = (case server of None \<Rightarrow> ([], None) | Some addr \<Rightarrow> ([addr], Some addr))"

text \<open>
  The loops see one state per tick, with whether the frame could be sent; the first frame of the connections is sent
  at once, the first frame of the traffic after the first tick.
\<close>

fun connectionsWebSocket :: "api_world \<Rightarrow> (api_state \<times> bool) list \<Rightarrow> json list" where
  "connectionsWebSocket aw [] = []"
| "connectionsWebSocket aw ((s, sent) # ticks) = connectionSnapshot aw s # (if sent then connectionsWebSocket aw ticks else [])"

fun traffic_loop :: "Traffic \<Rightarrow> (Traffic \<times> bool) list \<Rightarrow> json list" where
  "traffic_loop lst [] = []"
| "traffic_loop lst ((t, sent) # ticks) = traffic_frame lst t # (if sent then traffic_loop t ticks else [])"

definition trafficWebSocket :: "Traffic \<Rightarrow> (Traffic \<times> bool) list \<Rightarrow> json list" where
  "trafficWebSocket now ticks = traffic_loop now ticks"

section \<open>The rates are exact\<close>

text \<open>The counters after a tick in which \<open>up\<close> and \<open>down\<close> bytes were relayed, as \<open>AddUpload\<close> and \<open>AddDownload\<close> count them.\<close>

definition tick :: "nat \<times> nat \<Rightarrow> Traffic \<Rightarrow> Traffic" where
  "tick = (\<lambda>(up, down). AddUpload (word_of_nat up) \<circ> AddDownload (word_of_nat down))"

fun readings :: "Traffic \<Rightarrow> (nat \<times> nat) list \<Rightarrow> Traffic list" where
  "readings t [] = []"
| "readings t (d # ds) = tick d t # readings (tick d t) ds"

definition rate :: "nat \<times> nat \<Rightarrow> json" where
  "rate = (\<lambda>(up, down). JObj [(''up'', JInt (int up)), (''down'', JInt (int down))])"

lemma sint_word_of_nat63: "n < 2 ^ 63 \<Longrightarrow> sint (word_of_nat n :: 64 word) = int n"
  by (simp add: signed_of_nat signed_take_bit_int_eq_self)

lemma max64_pos: "n < 2 ^ 63 \<Longrightarrow> sint (max64 0 (word_of_nat n)) = int n"
  using sint_word_of_nat63 [of n] by (simp add: max64_def)

lemma traffic_frame_tick:
  assumes "fst d < 2 ^ 63" "snd d < 2 ^ 63"
  shows "traffic_frame t (tick d t) = rate d"
  using assms max64_pos by (cases d) (simp add: traffic_frame_def tick_def rate_def AddUpload_def AddDownload_def)

text \<open>
  The frames are the bytes of each second even when a 64-bit counter wraps around between two ticks, as long as fewer
  than \<open>2 ^ 63\<close> bytes pass in one second.
\<close>

lemma trafficWebSocket_exact:
  assumes "\<forall>d\<in>set ds. fst d < 2 ^ 63 \<and> snd d < 2 ^ 63"
  shows "trafficWebSocket t (map (\<lambda>x. (x, True)) (readings t ds)) = map rate ds"
  unfolding trafficWebSocket_def using assms
  by (induction ds arbitrary: t) (simp_all add: traffic_frame_tick)

lemma connectionsWebSocket_snapshots:
  "connectionsWebSocket aw (map (\<lambda>s. (s, True)) ss @ (s, False) # rest) = map (connectionSnapshot aw) (ss @ [s])"
  by (induction ss) simp_all

end
