(* ===== verification/Spec2Isabelle.thy ===== *)
theory Spec2Isabelle
  imports Router_Props Ruleset_Loader XUDP Gun WebSocket Sniff DNS_Stream Config_Validate Hysteria2 Lifecycle Vision Inbound_Mixed Importer API Reality Tunnel Tunnel_Manager Service Dialing DoH Command API_Stream
begin

text \<open>
  Verification of the Hongda core (\<^verbatim>\<open>src/hongda-core\<close>), the Go program that accepts the traffic of the Hongda
  Starlink client, decides by rules where each connection goes and carries it over proxy protocols, and of the
  Windows supervisor that runs it (\<^verbatim>\<open>src/windows/service\<close>). Paths below are relative to \<^verbatim>\<open>src/hongda-core\<close>.

  \<^bold>\<open>The program.\<close> The supervisor extracts the core, checks the configuration with it and keeps it in a job
  object. The core loads a configuration (its own format or an imported one), validates it and builds from it
  outbounds, strategy groups and a router. Inbounds (a SOCKS5 and HTTP listener, a TUN device) hand every
  connection, packet and DNS question to the router; the router matches rules and rule sets, looks names up over
  DNS-over-HTTPS through its caches, resolves the target through the groups to an outbound and dials it; the outbound
  speaks Trojan, VLESS, TUIC or Hysteria2 over TLS, REALITY, WebSocket, Gun or QUIC. Bytes and connections are counted in the
  telemetry; the control API reads it and changes the selection of groups.

  \<^bold>\<open>How the code is modelled.\<close> A Go struct is a \<^theory_text>\<open>record\<close> with the source's fields, an error-returning function has
  a result of type \<open>('e, 'a) go\<close> with the constructors \<open>Ret\<close>, \<open>Err\<close> and \<open>Panic\<close>, so every bounds check that Go
  performs is a branch. Byte slices are lists of \<open>8 word\<close>; integers keep their width where the code truncates or wraps.
  Go maps are association lists, times are integers in nanoseconds, the input of a connection is the list of
  bytes that will still arrive. Code under a mutex is one function; where goroutines interleave the functions are the
  steps of an inductive relation. Third-party packages, cryptography, the HTTP client, sockets and the operating system are
  parameters or the fields of a \<open>world\<close> record, and what is assumed of them is a hypothesis of the theorem. No
  definition uses fuel: loops are structural or have a termination proof (a visited set for group resolution, the remaining
  input for parsers and readers, the pending groups for the build, the unsent bytes for writers), so every operation is total.
  The bounds in the definitions are the code's own: 256 hops for a compressed name, 4096 cache entries, 1000 closed
  connections, 16 MiB for a Gun message, 64 KiB for a DNS-over-HTTPS response, 1 MiB for a supervisor line.

  \<^bold>\<open>The theories.\<close>
  \<^item> Prelude: \<open>Go_Base\<close> (results, slices, big-endian integers, the collections \<open>go_defs\<close> and \<open>np_rules\<close>), \<open>Go_Strings\<close>
    (\<^verbatim>\<open>strings\<close>, \<^verbatim>\<open>strconv\<close>), \<open>Go_Net\<close> (\<^verbatim>\<open>net\<close>, \<^verbatim>\<open>net/netip\<close>), \<open>Json\<close> (decoding rules), \<open>Framing\<close> (streams, packets and the
    locales \<open>packet_source\<close> and \<open>packet_link\<close>), \<open>Model\<close> (\<^verbatim>\<open>model/*.go\<close>).
  \<^item> Configuration: \<open>Config_Validate\<close> (\<^verbatim>\<open>config/loader.go\<close>: an accepted configuration has every reference resolved),
    \<open>Importer\<close> (\<^verbatim>\<open>compat/singbox/importer.go\<close>: the shape of an imported configuration).
  \<^item> Rules: \<open>Ruleset_Set\<close> (\<^verbatim>\<open>ruleset/set.go\<close>: the suffix matcher and the array-based prefix trie refine a set of
    domains and prefixes, through the locale \<open>prefix_store\<close>), \<open>Ruleset_Loader\<close> (\<^verbatim>\<open>ruleset/loader.go\<close>: what a load may return).
  \<^item> Groups: \<open>Strategy\<close> (\<^verbatim>\<open>strategy/*.go\<close>: selection and URL tests, both interpretations of the locale \<open>strategy_group\<close>).
  \<^item> DNS: \<open>DNS_Wire\<close> (\<^verbatim>\<open>route/dns.go\<close>, messages: parsing never panics, ageing changes exactly the TTLs),
    \<open>DNS_Cache\<close> (caches, flights, persistence: invariants of every reachable state, with the locale \<open>bounded_map\<close>), \<open>DoH\<close> (the HTTP
    exchange and the cache writer), \<open>DNS_Stream\<close> (\<^verbatim>\<open>route/dns_stream.go\<close>).
  \<^item> Routing: \<open>Router\<close> and \<open>Router_Props\<close> (\<^verbatim>\<open>route/router.go\<close>: first match, resolution, safety of all operations, byte
    counts), \<open>Sniff\<close> (\<^verbatim>\<open>route/sniff.go\<close>), \<open>Telemetry\<close> (\<^verbatim>\<open>telemetry/traffic.go\<close>: registry invariant, complete polling).
  \<^item> Outbounds: \<open>Proto_Address\<close>, \<open>Trojan\<close>, \<open>VLESS\<close>, \<open>XUDP\<close>, \<open>Gun\<close>, \<open>WebSocket\<close>, \<open>Vision\<close> (\<^verbatim>\<open>protocol/*.go\<close>: what is written is read
    back, through \<open>packet_source\<close>, \<open>packet_link\<close> and \<open>byte_stream\<close>), \<open>Fragments\<close>, \<open>TUIC\<close>, \<open>Hysteria2\<close> (fragmented datagrams in any order,
    locales \<open>datagram_link\<close> and \<open>datagram_conn\<close>), \<open>Session\<close> (the shared QUIC session under interleaving), \<open>Dialing\<close> (what a dial opens and
    closes, locale \<open>session_dialer\<close>), \<open>Reality\<close> (\<^verbatim>\<open>protocol/tls.go\<close>: the handshake that is made and REALITY authentication).
  \<^item> Inbounds: \<open>Inbound_Mixed\<close> (\<^verbatim>\<open>inbound/mixed.go\<close>), \<open>Tunnel\<close> (\<^verbatim>\<open>tunnel/handler_windows.go\<close>), \<open>Tunnel_Manager\<close>
    (\<^verbatim>\<open>tunnel/manager_windows.go\<close>: all or nothing, routes removed first).
  \<^item> Control: \<open>Runtime\<close> and \<open>Lifecycle\<close> (\<^verbatim>\<open>core/runtime.go\<close>: build, start, stop), \<open>API\<close> and \<open>API_Stream\<close> (\<^verbatim>\<open>api/controller.go\<close>, \<^verbatim>\<open>probe/url.go\<close>),
    \<open>Command\<close> (\<^verbatim>\<open>cmd/hongda-core/main.go\<close>), \<open>Service\<close> (\<^verbatim>\<open>src/windows/service/main.go\<close>, \<^verbatim>\<open>job_windows.go\<close>).
  \<^item> This theory: the property that spans API, groups, router and build.

  \<^bold>\<open>What is shown.\<close> For each part the functional behaviour of its operations on every branch, an invariant where it keeps
  state (\<open>dns_reachable\<close>, the registry of connections, QUIC sessions, UDP associations, running resources), round trips for the
  codecs, refinement for the matchers, absence of panics on arbitrary input, and release of whatever was opened on every
  error path. Several lemmas record behaviour that is not what the code intends: \<open>late_datagram_leaks\<close>, \<open>late_peer_leaks\<close>,
  \<open>convertRule_widens\<close>, \<open>forward_gives_up\<close>.

  \<^bold>\<open>Not modelled.\<close> System calls (socket binding in \<^verbatim>\<open>protocol/direct_control_*.go\<close>, DPAPI in \<^verbatim>\<open>route/dns_persistence_windows.go\<close>), the settings of
  the HTTP and QUIC clients, deadlines and keep-alives, the scheduling of goroutines beyond the interleavings above, the
  callback of the interface monitor
  (one call of \<open>SetDirectInterface\<close>). The copy of the core under \<^verbatim>\<open>src/windows/third_party\<close> is identical to the sources modelled;
  \<^verbatim>\<open>src/android/core/sing-box\<close> is third-party code; the clients are written in Dart, Kotlin and C++.
\<close>

section \<open>Properties across components\<close>

text \<open>
  C3: the user's choice of a node is what traffic uses, from the configuration file to the router: after
  validation, build and any selections, URL tests and adapter changes, an authorised request that selects
  a member of a selector is answered with the new selection, from then on the group resolves to what the
  member resolves to, an outbound that is no group, and every other outbound of the configuration still
  resolves to such an outbound.
\<close>

theorem selection_takes_effect:
  assumes "Validate uriScheme cfg0 = Ret cfg" "Build tun cfg = Ret (obs, r)" "group_step\<^sup>*\<^sup>* r (ap_router s)"
    and "authorized (api_Secret acfg) rq \<or> api_Secret acfg = []" "rq_method rq = ''PUT''" "rq_path rq = ''/proxies/'' @ name"
    and "CHR ''/'' \<notin> set name" "name \<notin> {[], ''.'', ''..''}" "rq_body rq = Some (JObj [(''name'', JStr member)])" "member \<noteq> []"
    and "map_of (rt_outbounds (ap_router s)) name = Some (GSelect b)" "map_of (members b) member \<noteq> None"
  shows "\<exists>s'. api_handler acfg aw rq s = (writeJSON (groupView (b\<lparr>current := member\<rparr>)), s') \<and>
    resolve (ap_router s') name = resolve (ap_router s') member \<and>
    (\<forall>tag\<in>set (outbound_ids cfg). \<exists>ob. map_of (rt_outbounds (ap_router s')) (resolve (ap_router s') tag) = Some ob \<and> group_current ob = None) \<and>
    (\<forall>tag. tag \<noteq> name \<longrightarrow> map_of (rt_outbounds (ap_router s')) tag = map_of (rt_outbounds (ap_router s)) tag)"
proof -
  let ?b = "b\<lparr>current := member\<rparr>"
  define r' where "r' = Register name (GSelect ?b) (ap_router s)"
  let ?s = "s\<lparr>ap_router := r', ap_dns := InvalidateDNSConnections (ap_dns s)\<rparr>"
  have req: "api_handler acfg aw rq s = (writeJSON (groupView ?b), ?s)" unfolding r'_def by (rule api_select [OF assms(4-12)])
  have "group_step (ap_router s) r'" using group_step.select [OF assms(11), of member] assms(12) by (simp add: r'_def SetCurrent_def)
  with assms(3) have steps: "group_step\<^sup>*\<^sup>* r r'" by (rule rtranclp.rtrancl_into_rtrancl)
  have ok: "config_ok cfg" using Validate_ok [OF assms(1)] by (rule conjunct2)
  obtain rk where rk: "obs_ok rk (rt_outbounds r)" using Build_inv(1) [OF ok assms(2)] by blast
  have rnk: "ranked rk r'" using group_steps_ok [OF steps rk] obs_ok_ranked by blast
  have ids: "\<exists>ob. map_of (rt_outbounds r') (resolve r' tag) = Some ob \<and> group_current ob = None" if "tag \<in> set (outbound_ids cfg)" for tag
  proof -
    have "dom (map_of (rt_outbounds r')) = set (outbound_ids cfg)" using group_steps_ok [OF steps rk] Build_inv(2,3) [OF ok assms(2)] by simp
    with that resolve_loop_leaf [OF rnk, of tag "[]"] show ?thesis by (auto simp: resolve_def)
  qed
  have "map_of (rt_outbounds r') name = Some (GSelect ?b)" by (simp add: r'_def Register_def update_conv')
  from resolve_current [OF rnk this] have "resolve r' name = resolve r' member" by (simp add: Current_def)
  moreover have "tag \<noteq> name \<Longrightarrow> map_of (rt_outbounds r') tag = map_of (rt_outbounds (ap_router s)) tag" for tag
    by (simp add: r'_def Register_def update_conv')
  ultimately show ?thesis using req ids by (intro exI [of _ ?s]) simp
qed

theorem selection_takes_effect_witness:
  "\<exists>r s'. Build True (set_defaults sample_config) = Ret (fst r, snd r) \<and>
     snd (api_handler \<lparr>api_Listen = [], api_Secret = ''k''\<rparr> api_world_example \<lparr>rq_method = ''PUT'', rq_path = ''/proxies/g'', rq_query = (\<lambda>_. ''k''), rq_header = (\<lambda>_. []),
       rq_body = Some (JObj [(''name'', JStr ''direct'')]), rq_host = [], rq_origin = None\<rparr>
       \<lparr>ap_router = snd r, ap_dns = new_dns_state, ap_stats = Traffic.make 0 0, ap_conns = NewConnections\<rparr>) = s' \<and>
     resolve (ap_router s') ''g'' = resolve (ap_router s') ''direct''"
proof -
  have "(case Build True (set_defaults sample_config) of Ret (obs, r) \<Rightarrow>
      (case map_of (rt_outbounds r) ''g'' of Some (GSelect b) \<Rightarrow> map_of (members b) ''direct'' \<noteq> None | _ \<Rightarrow> False) | _ \<Rightarrow> False)" by code_simp
  moreover obtain obs r where r: "Build True (set_defaults sample_config) = Ret (obs, r)" using sample_config_builds by blast
  ultimately have g: "case map_of (rt_outbounds r) ''g'' of Some (GSelect b) \<Rightarrow> map_of (members b) ''direct'' \<noteq> None | _ \<Rightarrow> False" by simp
  then obtain ob where ob: "map_of (rt_outbounds r) ''g'' = Some ob" by (cases "map_of (rt_outbounds r) ''g''") auto
  with g obtain b where b: "map_of (rt_outbounds r) ''g'' = Some (GSelect b)" "map_of (members b) ''direct'' \<noteq> None" by (cases ob) auto
  let ?rq = "\<lparr>rq_method = ''PUT'', rq_path = ''/proxies/g'', rq_query = (\<lambda>_. ''k''), rq_header = (\<lambda>_. []),
       rq_body = Some (JObj [(''name'', JStr ''direct'')]), rq_host = [], rq_origin = None\<rparr>"
  let ?s = "\<lparr>ap_router = r, ap_dns = new_dns_state, ap_stats = Traffic.make 0 0, ap_conns = NewConnections\<rparr>"
  let ?acfg = "\<lparr>api_Listen = [], api_Secret = ''k''\<rparr>"
  have h: "group_step\<^sup>*\<^sup>* r (ap_router ?s)" "authorized (api_Secret ?acfg) ?rq \<or> api_Secret ?acfg = []" "rq_method ?rq = ''PUT''" "rq_path ?rq = ''/proxies/'' @ ''g''"
    "CHR ''/'' \<notin> set ''g''" "''g'' \<notin> {[], ''.'', ''..''}" "rq_body ?rq = Some (JObj [(''name'', JStr ''direct'')])" "''direct'' \<noteq> []"
    "map_of (rt_outbounds (ap_router ?s)) ''g'' = Some (GSelect b)" using b by (simp_all add: authorized_def)
  obtain s' where s': "api_handler ?acfg api_world_example ?rq ?s = (writeJSON (groupView (b\<lparr>current := ''direct''\<rparr>)), s')"
    "resolve (ap_router s') ''g'' = resolve (ap_router s') ''direct''"
    using selection_takes_effect [OF sample_config_valid r h b(2), of api_world_example] by (elim exE conjE) (rule that)
  show ?thesis unfolding fst_conv snd_conv by (rule exI [of _ "(obs, r)"], rule exI [of _ s']) (simp only: fst_conv snd_conv r s' simp_thms)
qed

end
